(* ===== verification/Prelude.thy ===== *)
theory Prelude imports
  Main
  "HOL-Library.Word"
  "HOL-Library.Monad_Syntax"
begin

text \<open>
  Shared vocabulary of the development: the machine integers of the C sources, the
  convention for undefined behaviour, C byte memory with little-endian loads and stores,
  and the lemma collections that the component theories extend.

  A C computation that may have undefined behaviour (an access outside an array, a use of
  an indeterminate pointer) has an option type: \<open>None\<close> is undefined behaviour and is
  different from every error code the program returns. The option monad of the library
  sequences such computations.
\<close>

type_synonym u8 = "8 word"
type_synonym u16 = "16 word"
type_synonym u32 = "32 word"
type_synonym u64 = "64 word"

type_synonym bytes = "u8 list"

named_theorems mem_simps
named_theorems layout_defs

text \<open>
  Byte memory. An object of the C program is a list of bytes. \<open>bslice m off n\<close> is the run of
  \<open>n\<close> bytes at offset \<open>off\<close>, \<open>blit m off bs\<close> the memory after the bytes \<open>bs\<close> are
  copied to offset \<open>off\<close>. Both are only used inside the object: \<open>mem_read\<close> and
  \<open>mem_write\<close> are the checked versions, undefined outside it.
\<close>

definition bslice :: "'a list \<Rightarrow> nat \<Rightarrow> nat \<Rightarrow> 'a list" where
  "bslice m off n = take n (drop off m)"

definition blit :: "'a list \<Rightarrow> nat \<Rightarrow> 'a list \<Rightarrow> 'a list" where
  "blit m off bs = take off m @ bs @ drop (off + length bs) m"

definition mem_read :: "'a list \<Rightarrow> nat \<Rightarrow> nat \<Rightarrow> 'a list option" where
  "mem_read m off n = (if off + n \<le> length m then Some (bslice m off n) else None)"

definition mem_write :: "'a list \<Rightarrow> nat \<Rightarrow> 'a list \<Rightarrow> 'a list option" where
  "mem_write m off bs = (if off + length bs \<le> length m then Some (blit m off bs) else None)"

lemma length_bslice [simp]: "off + n \<le> length m \<Longrightarrow> length (bslice m off n) = n"
  by (simp add: bslice_def)

lemma length_blit [mem_simps]: "off + length bs \<le> length m \<Longrightarrow> length (blit m off bs) = length m"
  by (simp add: blit_def)

lemma nth_bslice: "off + n \<le> length m \<Longrightarrow> i < n \<Longrightarrow> bslice m off n ! i = m ! (off + i)"
  by (simp add: bslice_def)

lemma nth_blit:
  "off + length bs \<le> length m \<Longrightarrow> i < length m \<Longrightarrow>
     blit m off bs ! i = (if off \<le> i \<and> i < off + length bs then bs ! (i - off) else m ! i)"
  by (auto simp: blit_def nth_append)

lemma bslice_blit_same [mem_simps]:
  "off + length bs \<le> length m \<Longrightarrow> n = length bs \<Longrightarrow> bslice (blit m off bs) off n = bs"
  by (simp add: bslice_def blit_def)

lemma bslice_blit_other:
  assumes "off + length bs \<le> length m"
    and "off' + n \<le> length m"
    and "off' + n \<le> off \<or> off + length bs \<le> off'"
  shows "bslice (blit m off bs) off' n = bslice m off' n"
proof (rule nth_equalityI)
  show "length (bslice (blit m off bs) off' n) = length (bslice m off' n)"
    using assms by (simp add: length_blit)
next
  fix i assume "i < length (bslice (blit m off bs) off' n)"
  then have i: "i < n" using assms by (simp add: length_blit)
  show "bslice (blit m off bs) off' n ! i = bslice m off' n ! i"
    using assms i by (auto simp: nth_bslice nth_blit length_blit)
qed

lemma bslice_blit_inside:
  assumes "off + length bs \<le> length m" and "off \<le> off'" and "off' + n \<le> off + length bs"
  shows "bslice (blit m off bs) off' n = bslice bs (off' - off) n"
  using assms
  by (intro nth_equalityI) (auto simp: nth_bslice nth_blit length_blit)

lemma bslice_full [simp]: "bslice m 0 (length m) = m"
  by (simp add: bslice_def)

lemma bslice_zero [simp]: "bslice m off 0 = []"
  by (simp add: bslice_def)

lemma drop_blit_before:
  "off + length bs \<le> k \<Longrightarrow> off + length bs \<le> length m \<Longrightarrow> drop k (blit m off bs) = drop k m"
  by (simp add: blit_def)

lemma mem_read_Some [simp]: "mem_read m off n = Some bs \<longleftrightarrow> off + n \<le> length m \<and> bs = bslice m off n"
  by (auto simp: mem_read_def)

lemma mem_write_Some [simp]:
  "mem_write m off bs = Some m' \<longleftrightarrow> off + length bs \<le> length m \<and> m' = blit m off bs"
  by (auto simp: mem_write_def)

text \<open>
  Little-endian integers, as the x86-64 target of the Makefile lays them out.
\<close>

fun le_word :: "bytes \<Rightarrow> 'a::len word" where
  "le_word [] = 0"
| "le_word (b # bs) = or (ucast b) (push_bit 8 (le_word bs))"

fun le_bytes :: "nat \<Rightarrow> 'a::len word \<Rightarrow> bytes" where
  "le_bytes 0 w = []"
| "le_bytes (Suc n) w = ucast w # le_bytes n (drop_bit 8 w)"

lemma length_le_bytes [simp]: "length (le_bytes n w) = n"
  by (induction n arbitrary: w) auto

lemma bit_word_imp_bound: "bit (w :: 'a::len word) k \<Longrightarrow> k < LENGTH('a)"
  by (metis bit_imp_le_length)

lemma bit_le_word_le_bytes:
  "bit (le_word (le_bytes n (w :: 'a::len word)) :: 'a word) k \<longleftrightarrow> bit w k \<and> k < 8 * n"
proof (induction n arbitrary: w k)
  case 0
  then show ?case by simp
next
  case (Suc n)
  show ?case
    by (cases "k < 8")
      (auto simp: Suc bit_or_iff bit_push_bit_iff bit_ucast_iff bit_drop_bit_eq
        intro: bit_word_imp_bound)
qed

lemma le_word_le_bytes [mem_simps]:
  "LENGTH('a::len) \<le> 8 * n \<Longrightarrow> le_word (le_bytes n w) = (w :: 'a word)"
  by (rule bit_word_eqI) (simp add: bit_le_word_le_bytes)

lemma ucast_low_byte: "ucast (or (ucast b) (push_bit 8 w) :: 'a::len word) = (b :: u8)"
  if "8 \<le> LENGTH('a)"
  using that by (intro bit_word_eqI) (auto simp: bit_ucast_iff bit_or_iff bit_push_bit_iff)

lemma drop_low_byte:
  assumes "8 * Suc n \<le> LENGTH('a::len)" and "\<And>k. bit w k \<Longrightarrow> k < 8 * n"
  shows "drop_bit 8 (or (ucast (b :: u8)) (push_bit 8 w) :: 'a word) = w"
proof (rule bit_word_eqI)
  fix k assume "k < LENGTH('a)"
  have "bit w k \<Longrightarrow> 8 + k < LENGTH('a)" using assms(2) [of k] assms(1) by simp
  moreover have "\<not> bit b (8 + k)" using bit_word_imp_bound [of b "8 + k"] by auto
  ultimately show "bit (drop_bit 8 (or (ucast b) (push_bit 8 w) :: 'a word)) k = bit w k"
    by (auto simp: bit_drop_bit_eq bit_or_iff bit_push_bit_iff bit_ucast_iff)
qed

lemma bit_le_word_bound: "bit (le_word bs :: 'a::len word) k \<Longrightarrow> k < 8 * length bs"
proof (induction bs arbitrary: k)
  case (Cons b bs)
  then show ?case
    using bit_word_imp_bound [of b k]
    by (cases "k < 8") (auto simp: bit_or_iff bit_push_bit_iff bit_ucast_iff dest!: Cons.IH)
qed simp

lemma le_bytes_le_word:
  "8 * length bs \<le> LENGTH('a::len) \<Longrightarrow> le_bytes (length bs) (le_word bs :: 'a word) = bs"
proof (induction bs)
  case (Cons b bs)
  have "drop_bit 8 (le_word (b # bs) :: 'a word) = le_word bs"
    using Cons.prems bit_le_word_bound [of bs]
    by (simp only: le_word.simps) (rule drop_low_byte [of "length bs"], simp_all)
  then show ?case
    using Cons by (simp del: le_word.simps add: ucast_low_byte le_word.simps(2) [THEN arg_cong [where f = ucast]])
qed simp

definition ld16 :: "bytes \<Rightarrow> nat \<Rightarrow> u16" where
  "ld16 m off = le_word (bslice m off 2)"

definition ld32 :: "bytes \<Rightarrow> nat \<Rightarrow> u32" where
  "ld32 m off = le_word (bslice m off 4)"

definition ld64 :: "bytes \<Rightarrow> nat \<Rightarrow> u64" where
  "ld64 m off = le_word (bslice m off 8)"

definition st16 :: "bytes \<Rightarrow> nat \<Rightarrow> u16 \<Rightarrow> bytes" where
  "st16 m off v = blit m off (le_bytes 2 v)"

definition st32 :: "bytes \<Rightarrow> nat \<Rightarrow> u32 \<Rightarrow> bytes" where
  "st32 m off v = blit m off (le_bytes 4 v)"

definition st64 :: "bytes \<Rightarrow> nat \<Rightarrow> u64 \<Rightarrow> bytes" where
  "st64 m off v = blit m off (le_bytes 8 v)"

text \<open>
  The collections: \<open>ld_st_defs\<close> reduces loads and stores to \<open>bslice\<close> and \<open>blit\<close>, and
  \<open>frame_simps\<close> says what a store leaves alone.
\<close>

lemmas ld_st_defs = ld16_def ld32_def ld64_def st16_def st32_def st64_def

lemma length_st [simp]:
  "off + 2 \<le> length m \<Longrightarrow> length (st16 m off v) = length m"
  "off + 4 \<le> length m \<Longrightarrow> length (st32 m off w) = length m"
  "off + 8 \<le> length m \<Longrightarrow> length (st64 m off x) = length m"
  by (simp_all add: ld_st_defs length_blit)

lemma ld_st_same [simp]:
  "off + 2 \<le> length m \<Longrightarrow> ld16 (st16 m off v) off = v"
  "off + 4 \<le> length m \<Longrightarrow> ld32 (st32 m off w) off = w"
  "off + 8 \<le> length m \<Longrightarrow> ld64 (st64 m off x) off = x"
  by (simp_all add: ld_st_defs bslice_blit_same le_word_le_bytes)

lemma bslice_st_other:
  "off + 2 \<le> length m \<Longrightarrow> o' + n \<le> length m \<Longrightarrow> o' + n \<le> off \<or> off + 2 \<le> o' \<Longrightarrow>
     bslice (st16 m off v) o' n = bslice m o' n"
  "off + 4 \<le> length m \<Longrightarrow> o' + n \<le> length m \<Longrightarrow> o' + n \<le> off \<or> off + 4 \<le> o' \<Longrightarrow>
     bslice (st32 m off w) o' n = bslice m o' n"
  "off + 8 \<le> length m \<Longrightarrow> o' + n \<le> length m \<Longrightarrow> o' + n \<le> off \<or> off + 8 \<le> o' \<Longrightarrow>
     bslice (st64 m off x) o' n = bslice m o' n"
  by (simp_all add: st16_def st32_def st64_def bslice_blit_other)

lemma blit_bslice_same [simp]: "off + n \<le> length m \<Longrightarrow> blit m off (bslice m off n) = m"
  by (simp add: blit_def bslice_def) (metis append_take_drop_id drop_drop add.commute)

lemma blit_blit_same:
  "off + length bs \<le> length m \<Longrightarrow> length bs' = length bs \<Longrightarrow>
     blit (blit m off bs) off bs' = blit m off bs'"
  by (simp add: blit_def)

lemma st32_ld32: "off + 4 \<le> length m \<Longrightarrow> st32 m off (ld32 m off) = m"
  using le_bytes_le_word [of "bslice m off 4", where ?'a = 32] by (simp add: ld_st_defs)

lemma st32_st32: "off + 4 \<le> length m \<Longrightarrow> st32 (st32 m off v) off w = st32 m off w"
  by (simp add: ld_st_defs blit_blit_same)

text \<open>Loads after stores and copies at other places.\<close>

lemma ld16_frame:
  "off + length bs \<le> length m \<Longrightarrow> o' + 2 \<le> length m \<Longrightarrow> o' + 2 \<le> off \<or> off + length bs \<le> o' \<Longrightarrow>
     ld16 (blit m off bs) o' = ld16 m o'"
  "off + 2 \<le> length m \<Longrightarrow> o' + 2 \<le> length m \<Longrightarrow> o' + 2 \<le> off \<or> off + 2 \<le> o' \<Longrightarrow>
     ld16 (st16 m off v) o' = ld16 m o'"
  "off + 4 \<le> length m \<Longrightarrow> o' + 2 \<le> length m \<Longrightarrow> o' + 2 \<le> off \<or> off + 4 \<le> o' \<Longrightarrow>
     ld16 (st32 m off w) o' = ld16 m o'"
  "off + 8 \<le> length m \<Longrightarrow> o' + 2 \<le> length m \<Longrightarrow> o' + 2 \<le> off \<or> off + 8 \<le> o' \<Longrightarrow>
     ld16 (st64 m off x) o' = ld16 m o'"
  by (simp_all add: ld16_def bslice_st_other bslice_blit_other)

lemma ld32_frame:
  "off + length bs \<le> length m \<Longrightarrow> o' + 4 \<le> length m \<Longrightarrow> o' + 4 \<le> off \<or> off + length bs \<le> o' \<Longrightarrow>
     ld32 (blit m off bs) o' = ld32 m o'"
  "off + 2 \<le> length m \<Longrightarrow> o' + 4 \<le> length m \<Longrightarrow> o' + 4 \<le> off \<or> off + 2 \<le> o' \<Longrightarrow>
     ld32 (st16 m off v) o' = ld32 m o'"
  "off + 4 \<le> length m \<Longrightarrow> o' + 4 \<le> length m \<Longrightarrow> o' + 4 \<le> off \<or> off + 4 \<le> o' \<Longrightarrow>
     ld32 (st32 m off w) o' = ld32 m o'"
  "off + 8 \<le> length m \<Longrightarrow> o' + 4 \<le> length m \<Longrightarrow> o' + 4 \<le> off \<or> off + 8 \<le> o' \<Longrightarrow>
     ld32 (st64 m off x) o' = ld32 m o'"
  by (simp_all add: ld32_def bslice_st_other bslice_blit_other)

lemma ld64_frame:
  "off + length bs \<le> length m \<Longrightarrow> o' + 8 \<le> length m \<Longrightarrow> o' + 8 \<le> off \<or> off + length bs \<le> o' \<Longrightarrow>
     ld64 (blit m off bs) o' = ld64 m o'"
  "off + 2 \<le> length m \<Longrightarrow> o' + 8 \<le> length m \<Longrightarrow> o' + 8 \<le> off \<or> off + 2 \<le> o' \<Longrightarrow>
     ld64 (st16 m off v) o' = ld64 m o'"
  "off + 4 \<le> length m \<Longrightarrow> o' + 8 \<le> length m \<Longrightarrow> o' + 8 \<le> off \<or> off + 4 \<le> o' \<Longrightarrow>
     ld64 (st32 m off w) o' = ld64 m o'"
  "off + 8 \<le> length m \<Longrightarrow> o' + 8 \<le> length m \<Longrightarrow> o' + 8 \<le> off \<or> off + 8 \<le> o' \<Longrightarrow>
     ld64 (st64 m off x) o' = ld64 m o'"
  by (simp_all add: ld64_def bslice_st_other bslice_blit_other)

lemma bslice_bslice: "b + k \<le> n \<Longrightarrow> bslice (bslice m a n) b k = bslice m (a + b) k"
  by (simp add: bslice_def drop_take add.commute min_def)

lemma bslice_cong_sub:
  assumes "bslice m a n = bslice m' a n" and "a \<le> b" and "b + k \<le> a + n"
  shows "bslice m b k = bslice m' b k"
proof -
  have "bslice (bslice m a n) (b - a) k = bslice (bslice m' a n) (b - a) k"
    by (simp only: assms(1))
  then show ?thesis using assms(2,3) by (simp add: bslice_bslice)
qed

lemma nth_bslice_one: "k < length m \<Longrightarrow> m ! k = hd (bslice m k 1)"
  by (simp add: bslice_def hd_drop_conv_nth take_Suc)

text \<open>Word arithmetic that does not wrap.\<close>

lemma unat_add_u16: "unat a + unat b < 65536 \<Longrightarrow> unat (a + b :: u16) = unat a + unat b"
  by (simp add: unat_word_ariths)

lemma unat_sub_u16: "b \<le> a \<Longrightarrow> unat (a - b :: u16) = unat a - unat b"
  by (rule unat_sub)

lemma unat_mult_u16: "unat a * unat b < 65536 \<Longrightarrow> unat (a * b :: u16) = unat a * unat b"
  by (simp add: unat_word_ariths)

lemma unat_bound_u16: "unat (a :: u16) < 65536"
  using unsigned_less [of a, where ?'a = nat] by simp

lemma word_less_add_one:
  assumes "x \<noteq> -1"
  shows "x < x + (1 :: 'a::len word)"
proof -
  have "1 + x \<noteq> 0" using assms by (metis add.commute eq_neg_iff_add_eq_0)
  then show ?thesis using unatSuc [of x] by (simp add: word_less_nat_alt add.commute)
qed

lemmas frame_simps = ld16_frame ld32_frame ld64_frame bslice_st_other bslice_blit_other

text \<open>A loop that threads a state through a list and stops where a step is undefined.\<close>

fun fold_opt :: "('s \<Rightarrow> 'x \<Rightarrow> 's option) \<Rightarrow> 's \<Rightarrow> 'x list \<Rightarrow> 's option" where
  "fold_opt f s [] = Some s"
| "fold_opt f s (x # xs) = do { s' \<leftarrow> f s x; fold_opt f s' xs }"

lemma fold_opt_append:
  "fold_opt f s (xs @ ys) = do { s' \<leftarrow> fold_opt f s xs; fold_opt f s' ys }"
  by (induction xs arbitrary: s) (auto split: Option.bind_splits)

text \<open>A loop whose steps are defined and keep an invariant is defined and keeps it.\<close>

lemma fold_opt_invariant:
  assumes "I s" and "\<And>s x. I s \<Longrightarrow> x \<in> set xs \<Longrightarrow> \<exists>s'. f s x = Some s' \<and> I s'"
  shows "\<exists>s'. fold_opt f s xs = Some s' \<and> I s'"
  using assms
proof (induction xs arbitrary: s)
  case (Cons x xs)
  then obtain s' where "f s x = Some s'" "I s'" by (meson list.set_intros(1))
  then show ?case using Cons.IH [of s'] Cons.prems(2) by simp
qed simp

end
