(* ===== verification/Checksum.thy ===== *)
theory Checksum imports Prelude begin

text \<open>
  The shift-and-xor checksum that page.c and wal.c each define as
  \<open>compute_checksum\<close>: a 32-bit accumulator is shifted left by one and xored with each byte
  in turn. The two routines run the same loop over different byte ranges, so the loop is
  \<open>shift_xor\<close> here and what it detects is proved once, in the locale \<open>checksummed\<close>,
  which Page and Wal interpret on their own routines.
\<close>

definition sum_step :: "u32 \<Rightarrow> u8 \<Rightarrow> u32" where
  "sum_step acc b = xor (push_bit 1 acc) (ucast b)"

definition shift_xor :: "u32 \<Rightarrow> bytes \<Rightarrow> u32" where
  "shift_xor acc bs = foldl sum_step acc bs"

lemma shift_xor_Nil [simp]: "shift_xor acc [] = acc"
  by (simp add: shift_xor_def)

lemma shift_xor_Cons [simp]: "shift_xor acc (b # bs) = shift_xor (sum_step acc b) bs"
  by (simp add: shift_xor_def)

lemma shift_xor_append: "shift_xor acc (xs @ ys) = shift_xor (shift_xor acc xs) ys"
  by (simp add: shift_xor_def)

text \<open>The loop is linear: the start value is shifted out, one bit per byte.\<close>

lemma push_bit_xor_word: "push_bit n (xor a b) = xor (push_bit n a) (push_bit n (b :: u32))"
  by (rule bit_word_eqI) (simp add: bit_push_bit_iff bit_xor_iff)

lemma push_bit_sum_step:
  "push_bit n (sum_step acc b) = xor (push_bit (Suc n) acc) (push_bit n (ucast b))"
  by (simp only: sum_step_def push_bit_xor_word push_bit_push_bit) simp

lemma sum_step_zero [simp]: "sum_step 0 b = ucast b"
  by (simp add: sum_step_def)

lemma shift_xor_linear: "shift_xor acc bs = xor (push_bit (length bs) acc) (shift_xor 0 bs)"
proof (induction bs arbitrary: acc)
  case Nil
  show ?case by simp
next
  case (Cons b bs)
  have "shift_xor acc (b # bs) = xor (push_bit (length bs) (sum_step acc b)) (shift_xor 0 bs)"
    by (simp only: shift_xor_Cons Cons [of "sum_step acc b"])
  moreover have "shift_xor 0 (b # bs) = xor (push_bit (length bs) (ucast b)) (shift_xor 0 bs)"
    by (simp only: shift_xor_Cons sum_step_zero Cons [of "ucast b"])
  ultimately show ?case
    by (simp only: push_bit_sum_step xor.assoc list.size) simp
qed

lemma push_bit_out: "32 \<le> n \<Longrightarrow> push_bit n (w :: u32) = 0"
  by (rule bit_word_eqI) (auto simp: bit_push_bit_iff)

lemma shift_xor_window:
  "32 \<le> length ys \<Longrightarrow> shift_xor acc (xs @ ys) = shift_xor 0 ys"
  by (simp only: shift_xor_append shift_xor_linear [of "shift_xor acc xs" ys] push_bit_out
      xor.left_neutral)

lemma xor_cancel_word: "xor a c = xor b c \<longleftrightarrow> a = (b :: u32)"
proof
  assume "xor a c = xor b c"
  then have "xor (xor a c) c = xor (xor b c) c" by (simp only:)
  then show "a = b" by (simp only: xor.assoc xor_self_eq xor.right_neutral)
qed simp

lemma shift_xor_zeros [simp]: "shift_xor 0 (replicate n 0) = 0"
  by (induction n) (simp_all add: sum_step_def)

lemma push_bit_ucast_inj:
  assumes "k \<le> 24" and "push_bit k (ucast a :: u32) = push_bit k (ucast b)"
  shows "a = (b :: u8)"
proof (rule bit_word_eqI)
  fix i assume i: "i < LENGTH(8)"
  have "bit (push_bit k (ucast a :: u32)) (i + k) = bit (push_bit k (ucast b :: u32)) (i + k)"
    by (simp only: assms(2))
  then show "bit a i = bit b i"
    using assms(1) i by (simp add: bit_push_bit_iff bit_ucast_iff)
qed

lemma shift_xor_byte_change:
  assumes "length ys \<le> 24" and "a \<noteq> b"
  shows "shift_xor 0 (xs @ a # ys) \<noteq> shift_xor 0 (xs @ b # ys)"
proof
  let ?p = "\<lambda>c :: u8. push_bit (length ys) (ucast c :: u32)"
  let ?q = "push_bit (Suc (length ys)) (shift_xor 0 xs)"
  have eq: "shift_xor 0 (xs @ c # ys) = xor (?p c) (xor ?q (shift_xor 0 ys))" for c
    by (simp only: shift_xor_append shift_xor_Cons shift_xor_linear [of "sum_step (shift_xor 0 xs) c" ys]
        push_bit_sum_step xor.assoc xor.left_commute [of ?q])
  assume "shift_xor 0 (xs @ a # ys) = shift_xor 0 (xs @ b # ys)"
  then have "?p a = ?p b"
    by (simp only: eq xor_cancel_word)
  then have "a = b"
    using assms(1) push_bit_ucast_inj by blast
  with assms(2) show False by simp
qed

text \<open>
  The interface of a checksum routine: \<open>checksum\<close> runs the loop over the bytes
  \<open>covered\<close> of an object.
\<close>

locale checksummed =
  fixes checksum :: "bytes \<Rightarrow> u32"
    and covered :: "bytes \<Rightarrow> bytes"
  assumes checksum_loop: "checksum m = shift_xor 0 (covered m)"
begin

lemma only_last_32_bytes:
  assumes "covered m = xs @ ws" and "covered m' = ys @ ws" and "32 \<le> length ws"
  shows "checksum m = checksum m'"
  using assms by (simp add: checksum_loop shift_xor_window)

lemma detects_late_byte:
  assumes "covered m = xs @ a # ys" and "covered m' = xs @ b # ys"
    and "length ys \<le> 24" and "a \<noteq> b"
  shows "checksum m \<noteq> checksum m'"
  using assms by (simp add: checksum_loop shift_xor_byte_change)

lemma zero_window:
  assumes "covered m = xs @ replicate n 0" and "32 \<le> n"
  shows "checksum m = 0"
  using assms by (simp add: checksum_loop shift_xor_window)

end

end
