(* ===== verification/OsFile.thy ===== *)
theory OsFile imports Prelude begin

text \<open>
  The POSIX file the storage layers talk to: contents, a file offset and the schedule of
  outcomes the kernel gives to the next system calls. A call takes the first outcome of the
  schedule, and an exhausted schedule answers success, so a theorem over every schedule is a
  theorem over every pattern of I/O failures. A write past the end of the file leaves a
  hole of zero bytes, as POSIX does.
\<close>

datatype io_outcome = IoOk | IoErr | IoShort nat

record osfile =
  fcontents :: bytes
  foffset :: nat
  fsched :: "io_outcome list"

definition draw :: "osfile \<Rightarrow> io_outcome \<times> osfile" where
  "draw f = (case fsched f of [] \<Rightarrow> (IoOk, f) | x # xs \<Rightarrow> (x, f\<lparr>fsched := xs\<rparr>))"

definition file_put :: "bytes \<Rightarrow> nat \<Rightarrow> bytes \<Rightarrow> bytes" where
  "file_put c off bs =
     (if bs = [] then c
      else take off c @ replicate (off - length c) 0 @ bs @ drop (off + length bs) c)"

definition os_lseek_set :: "osfile \<Rightarrow> nat \<Rightarrow> bool \<times> osfile" where
  "os_lseek_set f off =
     (case draw f of
        (IoErr, f') \<Rightarrow> (False, f')
      | (_, f') \<Rightarrow> (True, f'\<lparr>foffset := off\<rparr>))"

definition os_lseek_end :: "osfile \<Rightarrow> bool \<times> osfile" where
  "os_lseek_end f =
     (case draw f of
        (IoErr, f') \<Rightarrow> (False, f')
      | (_, f') \<Rightarrow> (True, f'\<lparr>foffset := length (fcontents f')\<rparr>))"

text \<open>\<open>write\<close> and \<open>read\<close> return the number of bytes transferred, or -1.\<close>

definition os_put :: "osfile \<Rightarrow> bytes \<Rightarrow> int \<times> osfile" where
  "os_put f bs =
     (int (length bs),
      f\<lparr>fcontents := file_put (fcontents f) (foffset f) bs, foffset := foffset f + length bs\<rparr>)"

definition os_write :: "osfile \<Rightarrow> bytes \<Rightarrow> int \<times> osfile" where
  "os_write f bs =
     (case draw f of
        (IoErr, f') \<Rightarrow> (-1, f')
      | (IoOk, f') \<Rightarrow> os_put f' bs
      | (IoShort k, f') \<Rightarrow> os_put f' (take k bs))"

definition os_get :: "osfile \<Rightarrow> nat \<Rightarrow> int \<times> bytes \<times> osfile" where
  "os_get f n =
     (let bs = bslice (fcontents f) (foffset f) n
      in (int (length bs), bs, f\<lparr>foffset := foffset f + length bs\<rparr>))"

definition os_read :: "osfile \<Rightarrow> nat \<Rightarrow> int \<times> bytes \<times> osfile" where
  "os_read f n =
     (case draw f of
        (IoErr, f') \<Rightarrow> (-1, [], f')
      | (IoOk, f') \<Rightarrow> os_get f' n
      | (IoShort k, f') \<Rightarrow> os_get f' (min k n))"

definition os_fsync :: "osfile \<Rightarrow> bool \<times> osfile" where
  "os_fsync f = (case draw f of (IoErr, f') \<Rightarrow> (False, f') | (_, f') \<Rightarrow> (True, f'))"

definition os_ftruncate :: "osfile \<Rightarrow> nat \<Rightarrow> bool \<times> osfile" where
  "os_ftruncate f n =
     (case draw f of
        (IoErr, f') \<Rightarrow> (False, f')
      | (_, f') \<Rightarrow> (True, f'\<lparr>fcontents := take n (fcontents f')
                          @ replicate (n - length (fcontents f')) 0\<rparr>))"

text \<open>An open file on which no further call fails.\<close>

definition quiet :: "osfile \<Rightarrow> bool" where
  "quiet f \<longleftrightarrow> fsched f = []"

lemma draw_quiet [simp]: "quiet f \<Longrightarrow> draw f = (IoOk, f)"
  by (simp add: quiet_def draw_def)

lemma draw_contents [simp]: "draw f = (x, f') \<Longrightarrow> fcontents f' = fcontents f"
  "draw f = (x, f') \<Longrightarrow> foffset f' = foffset f"
  by (auto simp: draw_def split: list.splits)

lemma quiet_ops [simp]:
  "quiet f \<Longrightarrow> os_lseek_set f off = (True, f\<lparr>foffset := off\<rparr>)"
  "quiet f \<Longrightarrow> os_lseek_end f = (True, f\<lparr>foffset := length (fcontents f)\<rparr>)"
  "quiet f \<Longrightarrow> os_write f bs = os_put f bs"
  "quiet f \<Longrightarrow> os_read f n = os_get f n"
  "quiet f \<Longrightarrow> os_fsync f = (True, f)"
  "quiet f \<Longrightarrow> os_ftruncate f 0 = (True, f\<lparr>fcontents := []\<rparr>)"
  by (simp_all add: os_lseek_set_def os_lseek_end_def os_write_def os_read_def os_fsync_def
      os_ftruncate_def)

lemma quiet_update [simp]:
  "quiet (f\<lparr>foffset := n\<rparr>) = quiet f" "quiet (f\<lparr>fcontents := c\<rparr>) = quiet f"
  by (simp_all add: quiet_def)

lemma length_file_put:
  "length (file_put c off bs) = (if bs = [] then length c else max (length c) (off + length bs))"
  by (auto simp: file_put_def)

lemma file_put_end [simp]: "file_put c (length c) bs = c @ bs"
  by (simp add: file_put_def)

lemma bslice_file_put_same [simp]: "bslice (file_put c off bs) off (length bs) = bs"
  by (simp add: file_put_def bslice_def)

lemma nth_file_put:
  "i < length (file_put c off bs) \<Longrightarrow>
     file_put c off bs ! i =
       (if off \<le> i \<and> i < off + length bs then bs ! (i - off)
        else if i < length c then c ! i else 0)"
  by (auto simp: file_put_def nth_append length_file_put min_def split: if_splits)

lemma bslice_file_put_other:
  assumes "off' + n \<le> length c" and "off' + n \<le> off \<or> off + length bs \<le> off'"
  shows "bslice (file_put c off bs) off' n = bslice c off' n"
proof (rule nth_equalityI)
  have b: "off' + n \<le> length (file_put c off bs)"
    using assms(1) by (auto simp: length_file_put)
  then show "length (bslice (file_put c off bs) off' n) = length (bslice c off' n)"
    using assms(1) by simp
  fix i assume "i < length (bslice (file_put c off bs) off' n)"
  then have "i < n" using b by simp
  then show "bslice (file_put c off bs) off' n ! i = bslice c off' n ! i"
    using assms b by (auto simp: nth_bslice nth_file_put)
qed

lemma os_lseek_set_offset: "os_lseek_set f off = (True, f') \<Longrightarrow> foffset f' = off"
  by (cases "draw f"; cases "fst (draw f)") (auto simp: os_lseek_set_def)

text \<open>
  Every operation only shortens the schedule, and only \<open>write\<close> and \<open>ftruncate\<close> touch the
  contents.
\<close>

lemma contents_ops [simp]:
  "os_lseek_set f off = (ok, f') \<Longrightarrow> fcontents f' = fcontents f"
  "os_lseek_end f = (ok, f') \<Longrightarrow> fcontents f' = fcontents f"
  "os_read f n = (k, bs, f') \<Longrightarrow> fcontents f' = fcontents f"
  "os_fsync f = (ok, f') \<Longrightarrow> fcontents f' = fcontents f"
  by (auto simp: os_lseek_set_def os_lseek_end_def os_read_def os_get_def os_fsync_def Let_def
      split: io_outcome.splits prod.splits)

end
