(* ===== verification/Page.thy ===== *)
theory Page imports Checksum OsFile begin

text \<open>
  The slotted page of storage/page/page.c and page.h. A page is its 4096 bytes; the header,
  the slot directory growing upwards behind it and the rows growing downwards from the end
  are read and written through loads and stores at the offsets the x86-64 ABI gives the
  structs \<open>PageHeader\<close> (40 bytes) and \<open>Slot\<close> (6 bytes). Accesses through the slot
  directory and copies of row data are checked against the 4096 bytes: \<open>None\<close> is an access
  outside the page.
\<close>

type_synonym page = bytes

datatype PageResult = PAGE_OK | PAGE_FULL | PAGE_ERROR | PAGE_NOT_FOUND

definition PAGE_SIZE :: nat where "PAGE_SIZE = 4096"
definition MAX_SLOTS :: u16 where "MAX_SLOTS = 128"
definition PAGE_HEADER_SIZE :: nat where "PAGE_HEADER_SIZE = 40"
definition SLOT_SIZE :: nat where "SLOT_SIZE = 6"
definition SLOT_ALIVE :: u8 where "SLOT_ALIVE = 1"
definition SLOT_DEAD :: u8 where "SLOT_DEAD = 2"

lemmas page_consts [simp] =
  PAGE_SIZE_def MAX_SLOTS_def PAGE_HEADER_SIZE_def SLOT_SIZE_def SLOT_ALIVE_def SLOT_DEAD_def

record Slot =
  s_offset :: u16
  s_length :: u16
  s_flags :: u8

text \<open>The fields of \<open>PageHeader\<close> at their offsets in the page.\<close>

definition hdr_page_id :: "page \<Rightarrow> u32" where "hdr_page_id p = ld32 p 0"
definition hdr_page_lsn :: "page \<Rightarrow> u64" where "hdr_page_lsn p = ld64 p 8"
definition hdr_slot_count :: "page \<Rightarrow> u16" where "hdr_slot_count p = ld16 p 16"
definition hdr_free_start :: "page \<Rightarrow> u16" where "hdr_free_start p = ld16 p 18"
definition hdr_free_end :: "page \<Rightarrow> u16" where "hdr_free_end p = ld16 p 20"
definition hdr_checksum :: "page \<Rightarrow> u32" where "hdr_checksum p = ld32 p 24"

definition set_page_id :: "page \<Rightarrow> u32 \<Rightarrow> page" where "set_page_id p v = st32 p 0 v"
definition set_page_lsn :: "page \<Rightarrow> u64 \<Rightarrow> page" where "set_page_lsn p v = st64 p 8 v"
definition set_slot_count :: "page \<Rightarrow> u16 \<Rightarrow> page" where "set_slot_count p v = st16 p 16 v"
definition set_free_start :: "page \<Rightarrow> u16 \<Rightarrow> page" where "set_free_start p v = st16 p 18 v"
definition set_free_end :: "page \<Rightarrow> u16 \<Rightarrow> page" where "set_free_end p v = st16 p 20 v"
definition set_checksum :: "page \<Rightarrow> u32 \<Rightarrow> page" where "set_checksum p v = st32 p 24 v"

lemmas [layout_defs] =
  hdr_page_id_def hdr_page_lsn_def hdr_slot_count_def hdr_free_start_def hdr_free_end_def
  hdr_checksum_def set_page_id_def set_page_lsn_def set_slot_count_def set_free_start_def
  set_free_end_def set_checksum_def

text \<open>\<open>slots[i]\<close>: the directory entry \<open>i\<close>, with the address check.\<close>

definition slot_addr :: "nat \<Rightarrow> nat" where
  "slot_addr i = PAGE_HEADER_SIZE + i * SLOT_SIZE"

definition slot_in :: "page \<Rightarrow> nat \<Rightarrow> bool" where
  "slot_in p i \<longleftrightarrow> slot_addr i + SLOT_SIZE \<le> length p"

definition slot_at :: "page \<Rightarrow> nat \<Rightarrow> Slot" where
  "slot_at p i =
     \<lparr>s_offset = ld16 p (slot_addr i), s_length = ld16 p (slot_addr i + 2),
      s_flags = p ! (slot_addr i + 4)\<rparr>"

definition get_slot :: "page \<Rightarrow> nat \<Rightarrow> Slot option" where
  "get_slot p i = (if slot_in p i then Some (slot_at p i) else None)"

definition put_slot :: "page \<Rightarrow> nat \<Rightarrow> Slot \<Rightarrow> page option" where
  "put_slot p i s =
     (if slot_in p i
      then Some (blit (st16 (st16 p (slot_addr i) (s_offset s)) (slot_addr i + 2) (s_length s))
                   (slot_addr i + 4) [s_flags s])
      else None)"

definition put_slot_flags :: "page \<Rightarrow> nat \<Rightarrow> u8 \<Rightarrow> page option" where
  "put_slot_flags p i v = (if slot_in p i then Some (blit p (slot_addr i + 4) [v]) else None)"

definition alive :: "Slot \<Rightarrow> bool" where
  "alive s \<longleftrightarrow> and (s_flags s) SLOT_ALIVE \<noteq> 0"

text \<open>\<open>compute_checksum\<close>: the loop over \<open>data[PAGE_HEADER_SIZE .. PAGE_SIZE)\<close>.\<close>

definition page_covered :: "page \<Rightarrow> bytes" where
  "page_covered p = bslice p PAGE_HEADER_SIZE (PAGE_SIZE - PAGE_HEADER_SIZE)"

definition page_checksum :: "page \<Rightarrow> u32" where
  "page_checksum p = foldl (\<lambda>acc b. xor (push_bit 1 acc) (ucast b)) 0 (page_covered p)"

definition free_space :: "page \<Rightarrow> u16" where
  "free_space p =
     (if hdr_free_end p \<le> hdr_free_start p then 0 else hdr_free_end p - hdr_free_start p)"

text \<open>
  \<open>page_alloc\<close>: \<open>mem\<close> is the outcome of \<open>posix_memalign\<close>.
\<close>

definition page_alloc :: "bool \<Rightarrow> u32 \<Rightarrow> page option" where
  "page_alloc mem page_id =
     (if \<not> mem then None
      else
        let p = replicate PAGE_SIZE 0;
            p = set_page_id p page_id;
            p = set_page_lsn p 0;
            p = set_slot_count p 0;
            p = set_free_start p (of_nat PAGE_HEADER_SIZE);
            p = set_free_end p (of_nat PAGE_SIZE);
            p = set_checksum p 0
        in Some p)"

text \<open>
  \<open>page_insert\<close>: \<open>needed\<close> is a \<open>uint16_t\<close>, so the addition wraps. The result is the page,
  the code and what was stored through \<open>slot_out\<close>.
\<close>

definition page_insert ::
  "page \<Rightarrow> bytes \<Rightarrow> u16 \<Rightarrow> (page \<times> PageResult \<times> u16 option) option" where
  "page_insert p data len =
     (let needed = of_nat SLOT_SIZE + len in
      if free_space p < needed \<or> hdr_slot_count p \<ge> MAX_SLOTS then Some (p, PAGE_FULL, None)
      else do {
        let row_offset = hdr_free_end p - len;
        src \<leftarrow> mem_read data 0 (unat len);
        p \<leftarrow> mem_write p (unat row_offset) src;
        let p = set_free_end p row_offset;
        let slot_idx = hdr_slot_count p;
        p \<leftarrow> put_slot p (unat slot_idx)
               \<lparr>s_offset = row_offset, s_length = len, s_flags = SLOT_ALIVE\<rparr>;
        let p = set_slot_count p (hdr_slot_count p + 1);
        let p = set_free_start p
                  (of_nat PAGE_HEADER_SIZE + hdr_slot_count p * of_nat SLOT_SIZE);
        Some (p, PAGE_OK, Some slot_idx)
      })"

text \<open>
  \<open>page_read\<close>: the result code, the caller's buffer and what was stored through
  \<open>len_out\<close>. Only \<open>length\<close> bytes of the buffer are overwritten.
\<close>

definition page_read ::
  "page \<Rightarrow> u16 \<Rightarrow> bytes \<Rightarrow> u16 \<Rightarrow> (PageResult \<times> bytes \<times> u16 option) option" where
  "page_read p slot_idx buf buf_size =
     (if slot_idx \<ge> hdr_slot_count p then Some (PAGE_NOT_FOUND, buf, None)
      else do {
        slot \<leftarrow> get_slot p (unat slot_idx);
        if \<not> alive slot then Some (PAGE_NOT_FOUND, buf, None)
        else if s_length slot > buf_size then Some (PAGE_ERROR, buf, None)
        else do {
          row \<leftarrow> mem_read p (unat (s_offset slot)) (unat (s_length slot));
          buf \<leftarrow> mem_write buf 0 row;
          Some (PAGE_OK, buf, Some (s_length slot))
        }
      })"

definition page_delete :: "page \<Rightarrow> u16 \<Rightarrow> (page \<times> PageResult) option" where
  "page_delete p slot_idx =
     (if slot_idx \<ge> hdr_slot_count p then Some (p, PAGE_NOT_FOUND)
      else do {
        slot \<leftarrow> get_slot p (unat slot_idx);
        if \<not> alive slot then Some (p, PAGE_NOT_FOUND)
        else do {
          p \<leftarrow> put_slot_flags p (unat slot_idx) SLOT_DEAD;
          Some (p, PAGE_OK)
        }
      })"

text \<open>
  \<open>page_compact\<close>: one iteration copies slot \<open>i\<close> of \<open>p\<close>, when it is alive, into the
  scratch page \<open>tmp\<close>; the loop runs over \<open>0 .. slot_count - 1\<close>.
\<close>

definition compact_step :: "page \<Rightarrow> nat \<Rightarrow> page \<Rightarrow> page option" where
  "compact_step p i tmp =
     do {
       slot \<leftarrow> get_slot p i;
       if \<not> alive slot then Some tmp
       else do {
         let len = s_length slot;
         let newoff = hdr_free_end tmp - len;
         row \<leftarrow> mem_read p (unat (s_offset slot)) (unat len);
         tmp \<leftarrow> mem_write tmp (unat newoff) row;
         let tmp = set_free_end tmp newoff;
         tmp \<leftarrow> put_slot tmp (unat (hdr_slot_count tmp))
                  \<lparr>s_offset = newoff, s_length = len, s_flags = SLOT_ALIVE\<rparr>;
         Some (set_slot_count tmp (hdr_slot_count tmp + 1))
       }
     }"

fun compact_loop :: "page \<Rightarrow> nat list \<Rightarrow> page \<Rightarrow> page option" where
  "compact_loop p [] tmp = Some tmp"
| "compact_loop p (i # is) tmp = do { tmp \<leftarrow> compact_step p i tmp; compact_loop p is tmp }"

definition page_compact :: "page \<Rightarrow> page option" where
  "page_compact p =
     (let tmp = blit (replicate PAGE_SIZE 0) 0 (bslice p 0 PAGE_HEADER_SIZE);
          tmp = set_slot_count tmp 0;
          tmp = set_free_start tmp (of_nat PAGE_HEADER_SIZE);
          tmp = set_free_end tmp (of_nat PAGE_SIZE)
      in do {
        tmp \<leftarrow> compact_loop p [0 ..< unat (hdr_slot_count p)] tmp;
        Some (set_free_start tmp
                (of_nat PAGE_HEADER_SIZE + hdr_slot_count tmp * of_nat SLOT_SIZE))
      })"

text \<open>
  \<open>page_write_disk\<close> stores the checksum into the page it was given and writes the page at
  the place the page's own header names. \<open>page_read_disk\<close> fills the page from the file and
  compares checksums; after a failed or short read the page keeps what \<open>read\<close> put there.
\<close>

definition page_write_disk :: "page \<Rightarrow> osfile \<Rightarrow> PageResult \<times> page \<times> osfile" where
  "page_write_disk p f =
     (let p = set_checksum p 0;
          p = set_checksum p (page_checksum p);
          off = unat (hdr_page_id p) * PAGE_SIZE
      in case os_lseek_set f off of
           (False, f) \<Rightarrow> (PAGE_ERROR, p, f)
         | (True, f) \<Rightarrow>
             (case os_write f p of
                (written, f) \<Rightarrow>
                  if written \<noteq> int PAGE_SIZE then (PAGE_ERROR, p, f) else (PAGE_OK, p, f)))"

definition page_read_disk :: "page \<Rightarrow> osfile \<Rightarrow> u32 \<Rightarrow> PageResult \<times> page \<times> osfile" where
  "page_read_disk p f page_id =
     (case os_lseek_set f (unat page_id * PAGE_SIZE) of
        (False, f) \<Rightarrow> (PAGE_ERROR, p, f)
      | (True, f) \<Rightarrow>
          (case os_read f PAGE_SIZE of
             (n, bs, f) \<Rightarrow>
               let p = blit p 0 bs in
               if n \<noteq> int PAGE_SIZE then (PAGE_ERROR, p, f)
               else
                 let expected = hdr_checksum p;
                     p = set_checksum p 0;
                     actual = page_checksum p;
                     p = set_checksum p expected
                 in if actual \<noteq> expected then (PAGE_ERROR, p, f) else (PAGE_OK, p, f)))"


text \<open>
  The checksum routine is an instance of the shared loop; its facts are \<open>page_sum.\<close>...
\<close>

interpretation page_sum: checksummed page_checksum page_covered
  by unfold_locales (simp add: page_checksum_def shift_xor_def sum_step_def [abs_def])

text \<open>
  The invariant of a page. The directory is described from the end of the page: the first
  row ends at byte 4096, each later row ends where the row before it starts, and the last
  one starts at \<open>free_end\<close>.
\<close>

definition slots_of :: "page \<Rightarrow> Slot list" where
  "slots_of p = map (slot_at p) [0 ..< unat (hdr_slot_count p)]"

fun stacked :: "nat \<Rightarrow> Slot list \<Rightarrow> nat \<Rightarrow> bool" where
  "stacked hi [] lo \<longleftrightarrow> hi = lo"
| "stacked hi (s # ss) lo \<longleftrightarrow>
     unat (s_offset s) + unat (s_length s) = hi \<and> stacked (unat (s_offset s)) ss lo"

definition core_wf :: "page \<Rightarrow> bool" where
  "core_wf p \<longleftrightarrow>
     length p = PAGE_SIZE \<and> hdr_slot_count p \<le> MAX_SLOTS \<and>
     slot_addr (unat (hdr_slot_count p)) \<le> unat (hdr_free_end p) \<and>
     stacked PAGE_SIZE (slots_of p) (unat (hdr_free_end p))"

definition page_wf :: "page \<Rightarrow> bool" where
  "page_wf p \<longleftrightarrow>
     core_wf p \<and> unat (hdr_free_start p) = slot_addr (unat (hdr_slot_count p))"

text \<open>
  What a page stores, seen from outside: the rows by slot number, \<open>None\<close> for a deleted one.
\<close>

definition row_of :: "page \<Rightarrow> Slot \<Rightarrow> bytes option" where
  "row_of p s =
     (if alive s then Some (bslice p (unat (s_offset s)) (unat (s_length s))) else None)"

definition rows :: "page \<Rightarrow> bytes option list" where
  "rows p = map (row_of p) (slots_of p)"

lemma stacked_append:
  "stacked hi (xs @ ys) lo \<longleftrightarrow> (\<exists>mid. stacked hi xs mid \<and> stacked mid ys lo)"
  by (induction xs arbitrary: hi) auto

lemma stacked_le: "stacked hi ss lo \<Longrightarrow> lo \<le> hi"
  by (induction ss arbitrary: hi) fastforce+

lemma stacked_in:
  "stacked hi ss lo \<Longrightarrow> s \<in> set ss \<Longrightarrow>
     lo \<le> unat (s_offset s) \<and> unat (s_offset s) + unat (s_length s) \<le> hi"
  by (induction ss arbitrary: hi) (fastforce dest: stacked_le)+

lemma stacked_sum: "stacked hi ss lo \<Longrightarrow> hi = lo + (\<Sum>s\<leftarrow>ss. unat (s_length s))"
  by (induction ss arbitrary: hi) auto

lemma slot_at_cong:
  assumes "slot_in p i" and "slot_in q i"
    and "bslice p (slot_addr i) 6 = bslice q (slot_addr i) 6"
  shows "slot_at p i = slot_at q i"
proof -
  note sub = bslice_cong_sub [OF assms(3)]
  have "p ! (slot_addr i + 4) = q ! (slot_addr i + 4)"
    using assms(1,2) sub [of "slot_addr i + 4" 1] by (simp add: slot_in_def nth_bslice_one)
  then show ?thesis
    using sub [of "slot_addr i" 2] sub [of "slot_addr i + 2" 2]
    by (simp add: slot_at_def ld16_def)
qed

lemma length_rows [simp]: "length (rows p) = unat (hdr_slot_count p)"
  by (simp add: rows_def slots_of_def)

lemma length_slots_of [simp]: "length (slots_of p) = unat (hdr_slot_count p)"
  by (simp add: slots_of_def)

lemma nth_slots_of [simp]: "i < unat (hdr_slot_count p) \<Longrightarrow> slots_of p ! i = slot_at p i"
  by (simp add: slots_of_def)

lemma nth_rows [simp]: "i < unat (hdr_slot_count p) \<Longrightarrow> rows p ! i = row_of p (slot_at p i)"
  by (simp add: rows_def)

lemma core_bounds:
  assumes "core_wf p"
  shows "length p = 4096" and "unat (hdr_slot_count p) \<le> 128"
    and "40 + 6 * unat (hdr_slot_count p) \<le> unat (hdr_free_end p)"
    and "unat (hdr_free_end p) \<le> 4096"
  using assms stacked_le [of 4096 "slots_of p" "unat (hdr_free_end p)"]
  by (auto simp: core_wf_def slot_addr_def word_le_nat_alt)

lemma core_slot:
  assumes "core_wf p" and "i < unat (hdr_slot_count p)"
  shows "slot_in p i" and "unat (hdr_free_end p) \<le> unat (s_offset (slot_at p i))"
    and "unat (s_offset (slot_at p i)) + unat (s_length (slot_at p i)) \<le> 4096"
proof -
  show "slot_in p i"
    using core_bounds [OF assms(1)] assms(2) by (simp add: slot_in_def slot_addr_def)
  have "slot_at p i \<in> set (slots_of p)"
    using assms(2) by (auto simp: slots_of_def)
  with assms(1) show "unat (hdr_free_end p) \<le> unat (s_offset (slot_at p i))"
    and "unat (s_offset (slot_at p i)) + unat (s_length (slot_at p i)) \<le> 4096"
    by (auto simp: core_wf_def dest: stacked_in)
qed

text \<open>
  Storing one row: the bytes, the directory entry, \<open>free_end\<close> and the slot count, as both
  \<open>page_insert\<close> and the loop of \<open>page_compact\<close> do. What each part of the page is afterwards
  is proved once here.
\<close>

definition place :: "page \<Rightarrow> bytes \<Rightarrow> u16 \<Rightarrow> page" where
  "place p row len =
     (let ro = hdr_free_end p - len;
          a = slot_addr (unat (hdr_slot_count p));
          p1 = set_free_end (blit p (unat ro) row) ro;
          p2 = blit (st16 (st16 p1 a ro) (a + 2) len) (a + 4) [SLOT_ALIVE]
      in set_slot_count p2 (hdr_slot_count p + 1))"

definition has_room :: "page \<Rightarrow> u16 \<Rightarrow> bool" where
  "has_room p len \<longleftrightarrow>
     unat (hdr_slot_count p) < 128 \<and>
     slot_addr (unat (hdr_slot_count p)) + SLOT_SIZE + unat len \<le> unat (hdr_free_end p)"

lemma room_arith:
  assumes "core_wf p" and "has_room p len"
  defines "c \<equiv> unat (hdr_slot_count p)" and "fe \<equiv> unat (hdr_free_end p)"
  shows "unat (hdr_free_end p - len) = fe - unat len"
    and "46 + 6 * c + unat len \<le> fe" and "fe \<le> 4096" and "c < 128"
    and "unat (hdr_slot_count p + 1) = c + 1"
    and "unat (40 + (hdr_slot_count p + 1) * 6) = 46 + 6 * c"
    and "length p = 4096"
proof -
  note b = core_bounds [OF assms(1)]
  show r: "46 + 6 * c + unat len \<le> fe" and "fe \<le> 4096" and c: "c < 128" and "length p = 4096"
    using b assms(2) by (auto simp: has_room_def c_def fe_def slot_addr_def)
  show "unat (hdr_free_end p - len) = fe - unat len"
    using r by (simp add: fe_def unat_sub_u16 word_le_nat_alt)
  show c1: "unat (hdr_slot_count p + 1) = c + 1"
    using c by (simp add: c_def unat_add_u16)
  have "unat ((hdr_slot_count p + 1) * 6) = 6 * c + 6"
    using c by (subst unat_mult_u16) (simp_all add: c1)
  then show "unat (40 + (hdr_slot_count p + 1) * 6) = 46 + 6 * c"
    using c by (subst unat_add_u16) simp_all
qed

lemma place_raw:
  assumes "core_wf p" and "has_room p len" and "length row = unat len"
  shows "length (place p row len) = 4096"
    and "hdr_slot_count (place p row len) = hdr_slot_count p + 1"
    and "hdr_free_end (place p row len) = hdr_free_end p - len"
    and "hdr_free_start (place p row len) = hdr_free_start p"
    and "hdr_page_id (place p row len) = hdr_page_id p"
    and "hdr_page_lsn (place p row len) = hdr_page_lsn p"
    and "hdr_checksum (place p row len) = hdr_checksum p"
  using room_arith [OF assms(1,2)] assms(3)
  by (simp_all add: place_def Let_def slot_addr_def layout_defs length_blit frame_simps)

lemma place_old_bytes:
  assumes "core_wf p" and "has_room p len" and "length row = unat len"
    and "unat (hdr_free_end p) \<le> off" and "off + n \<le> 4096"
  shows "bslice (place p row len) off n = bslice p off n"
  using room_arith [OF assms(1,2)] assms(3-)
  by (simp add: place_def Let_def slot_addr_def layout_defs length_blit frame_simps)

lemma place_new_bytes:
  assumes "core_wf p" and "has_room p len" and "length row = unat len"
  shows "bslice (place p row len) (unat (hdr_free_end p - len)) (unat len) = row"
  using room_arith [OF assms(1,2)] assms(3)
  by (simp add: place_def Let_def slot_addr_def layout_defs length_blit frame_simps
      bslice_blit_same)

lemma place_old_slot:
  assumes "core_wf p" and "has_room p len" and "length row = unat len"
    and "i < unat (hdr_slot_count p)"
  shows "slot_at (place p row len) i = slot_at p i"
proof (rule slot_at_cong)
  note r = room_arith [OF assms(1,2)]
  show "slot_in (place p row len) i" "slot_in p i"
    using r assms by (simp_all add: slot_in_def slot_addr_def place_raw)
  show "bslice (place p row len) (slot_addr i) 6 = bslice p (slot_addr i) 6"
    using r assms(3,4)
    by (simp add: place_def Let_def slot_addr_def layout_defs length_blit frame_simps)
qed

lemma place_new_slot:
  assumes "core_wf p" and "has_room p len" and "length row = unat len"
  shows "slot_at (place p row len) (unat (hdr_slot_count p)) =
           \<lparr>s_offset = hdr_free_end p - len, s_length = len, s_flags = SLOT_ALIVE\<rparr>"
proof -
  note r = room_arith [OF assms(1,2)]
  let ?a = "slot_addr (unat (hdr_slot_count p))"
  have len: "length (place p row len) = 4096" using assms by (simp add: place_raw)
  have "place p row len ! (?a + 4) = hd (bslice (place p row len) (?a + 4) 1)"
    using r len by (intro nth_bslice_one) (simp add: slot_addr_def)
  also have "\<dots> = 1"
    using r assms(3)
    by (simp add: place_def Let_def slot_addr_def layout_defs length_blit frame_simps
        bslice_blit_same)
  finally show ?thesis
    using r assms(3)
    by (simp add: slot_at_def)
      (simp add: place_def Let_def slot_addr_def layout_defs length_blit frame_simps)
qed

lemma place_slots:
  assumes "core_wf p" and "has_room p len" and "length row = unat len"
  shows "slots_of (place p row len) =
           slots_of p @ [\<lparr>s_offset = hdr_free_end p - len, s_length = len, s_flags = SLOT_ALIVE\<rparr>]"
proof -
  have "unat (hdr_slot_count (place p row len)) = Suc (unat (hdr_slot_count p))"
    using room_arith [OF assms(1,2)] assms by (simp add: place_raw)
  then show ?thesis
    using assms by (simp add: slots_of_def place_old_slot place_new_slot)
qed

lemma core_wf_place:
  assumes "core_wf p" and "has_room p len" and "length row = unat len"
  shows "core_wf (place p row len)"
proof -
  note r = room_arith [OF assms(1,2)]
  have "stacked 4096 (slots_of (place p row len)) (unat (hdr_free_end p - len))"
    using assms(1) r by (auto simp: place_slots [OF assms] stacked_append core_wf_def)
  then show ?thesis
    using r place_raw [OF assms]
    by (simp add: core_wf_def word_le_nat_alt slot_addr_def)
qed

lemma rows_place:
  assumes "core_wf p" and "has_room p len" and "length row = unat len"
  shows "rows (place p row len) = rows p @ [Some row]"
proof -
  have "row_of (place p row len) s = row_of p s" if "s \<in> set (slots_of p)" for s
    using that assms(1) stacked_in [of 4096 "slots_of p" "unat (hdr_free_end p)" s]
    by (simp add: row_of_def place_old_bytes [OF assms] core_wf_def)
  then show ?thesis
    using assms
    by (simp add: rows_def place_slots [OF assms])
      (simp add: row_of_def alive_def place_new_bytes)
qed

text \<open>Header fields outside the directory's invariant do not move rows.\<close>

lemma slots_of_cong:
  assumes "length p = 4096" and "length q = 4096" and "hdr_slot_count q = hdr_slot_count p"
    and "unat (hdr_slot_count p) \<le> 128" and "bslice q 40 4056 = bslice p 40 4056"
  shows "slots_of q = slots_of p"
proof -
  have "slot_at q i = slot_at p i" if "i < unat (hdr_slot_count p)" for i
    using that assms bslice_cong_sub [OF assms(5), of "slot_addr i" 6]
    by (intro slot_at_cong) (simp_all add: slot_in_def slot_addr_def)
  then show ?thesis by (simp add: slots_of_def assms(3))
qed

lemma core_wf_cong:
  assumes "core_wf p" and "length q = 4096" and "hdr_slot_count q = hdr_slot_count p"
    and "hdr_free_end q = hdr_free_end p" and "bslice q 40 4056 = bslice p 40 4056"
  shows "core_wf q" and "rows q = rows p"
proof -
  note b = core_bounds [OF assms(1)]
  have sl: "slots_of q = slots_of p"
    using slots_of_cong [OF b(1) assms(2,3) b(2) assms(5)] .
  then show "core_wf q" using assms(1-4) by (simp add: core_wf_def)
  have "row_of q s = row_of p s" if "s \<in> set (slots_of p)" for s
    using that assms(1) b stacked_in [of 4096 "slots_of p" "unat (hdr_free_end p)" s]
      bslice_cong_sub [OF assms(5), of "unat (s_offset s)" "unat (s_length s)"]
    by (simp add: row_of_def core_wf_def)
  then show "rows q = rows p" by (simp add: rows_def sl)
qed

end
