(* ===== verification/PageOps.thy ===== *)
theory PageOps imports Page begin

text \<open>
  The contracts of the page operations: each one keeps the page invariant and acts on the
  rows as the abstract operation does (append, look up, clear one slot, drop the cleared
  slots). None of them leaves the 4096 bytes of a page that satisfies the invariant.
\<close>

lemma page_wf_core: "page_wf p \<Longrightarrow> core_wf p"
  by (simp add: page_wf_def)

lemma hdr_set_free_start [simp]:
  "length p = 4096 \<Longrightarrow> length (set_free_start p v) = 4096"
  "length p = 4096 \<Longrightarrow> hdr_free_start (set_free_start p v) = v"
  "length p = 4096 \<Longrightarrow> hdr_slot_count (set_free_start p v) = hdr_slot_count p"
  "length p = 4096 \<Longrightarrow> hdr_free_end (set_free_start p v) = hdr_free_end p"
  "length p = 4096 \<Longrightarrow> hdr_page_id (set_free_start p v) = hdr_page_id p"
  "length p = 4096 \<Longrightarrow> hdr_page_lsn (set_free_start p v) = hdr_page_lsn p"
  "length p = 4096 \<Longrightarrow> hdr_checksum (set_free_start p v) = hdr_checksum p"
  "length p = 4096 \<Longrightarrow> bslice (set_free_start p v) 40 4056 = bslice p 40 4056"
  by (simp_all add: layout_defs frame_simps)

lemma hdr_set_checksum [simp]:
  "length p = 4096 \<Longrightarrow> length (set_checksum p w) = 4096"
  "length p = 4096 \<Longrightarrow> hdr_checksum (set_checksum p w) = w"
  "length p = 4096 \<Longrightarrow> hdr_free_start (set_checksum p w) = hdr_free_start p"
  "length p = 4096 \<Longrightarrow> hdr_slot_count (set_checksum p w) = hdr_slot_count p"
  "length p = 4096 \<Longrightarrow> hdr_free_end (set_checksum p w) = hdr_free_end p"
  "length p = 4096 \<Longrightarrow> hdr_page_id (set_checksum p w) = hdr_page_id p"
  "length p = 4096 \<Longrightarrow> hdr_page_lsn (set_checksum p w) = hdr_page_lsn p"
  "length p = 4096 \<Longrightarrow> bslice (set_checksum p w) 40 4056 = bslice p 40 4056"
  by (simp_all add: layout_defs frame_simps)

text \<open>Writing \<open>free_start\<close> from the slot count turns the core invariant into the full one.\<close>

lemma page_wf_set_free_start:
  assumes "core_wf p"
  shows "page_wf (set_free_start p (of_nat PAGE_HEADER_SIZE + hdr_slot_count p * of_nat SLOT_SIZE))"
    and "rows (set_free_start p v) = rows p"
proof -
  note b = core_bounds [OF assms]
  have c: "core_wf (set_free_start p v)" and r: "rows (set_free_start p v) = rows p" for v
    using core_wf_cong [OF assms, of "set_free_start p v"] b by simp_all
  show "rows (set_free_start p v) = rows p" by (rule r)
  have m: "unat (hdr_slot_count p * 6) = 6 * unat (hdr_slot_count p)"
    using b(2) by (subst unat_mult_u16) simp_all
  have "unat (40 + hdr_slot_count p * 6) = 40 + 6 * unat (hdr_slot_count p)"
    using b(2) by (subst unat_add_u16) (simp_all add: m)
  then show "page_wf (set_free_start p (of_nat PAGE_HEADER_SIZE + hdr_slot_count p * of_nat SLOT_SIZE))"
    using c b by (simp add: page_wf_def slot_addr_def)
qed

text \<open>A checksum store is invisible to the invariant and to the rows.\<close>

lemma page_wf_set_checksum [simp]:
  assumes "page_wf p"
  shows "page_wf (set_checksum p w)" and "rows (set_checksum p w) = rows p"
  using core_wf_cong [OF page_wf_core [OF assms], of "set_checksum p w"]
    core_bounds [OF page_wf_core [OF assms]] assms
  by (simp_all add: page_wf_def)

text \<open>\<open>page_alloc\<close>: a fresh page is empty.\<close>

lemma alloc_header:
  assumes "page_alloc True n = Some p"
  shows "length p = 4096" "hdr_page_id p = n" "hdr_slot_count p = 0" "hdr_free_start p = 40"
    "hdr_free_end p = 4096" "hdr_checksum p = 0" "hdr_page_lsn p = 0"
  using assms unfolding page_alloc_def Let_def
  by (auto simp: layout_defs frame_simps)

lemma page_alloc_wf:
  assumes "page_alloc True n = Some p"
  shows "page_wf p" and "rows p = []" and "hdr_page_id p = n"
  using alloc_header [OF assms]
  by (simp_all add: page_wf_def core_wf_def slots_of_def rows_def slot_addr_def)

text \<open>\<open>page_insert\<close>.\<close>

lemma free_space_wf:
  assumes "page_wf p"
  shows "unat (free_space p) = unat (hdr_free_end p) - slot_addr (unat (hdr_slot_count p))"
  using assms core_bounds [OF page_wf_core [OF assms]]
  by (auto simp: free_space_def word_le_nat_alt unat_sub_u16 page_wf_def)

lemma page_full_iff:
  assumes "page_wf p" and "unat len < 65530"
  shows "(free_space p < of_nat SLOT_SIZE + len \<or> hdr_slot_count p \<ge> MAX_SLOTS)
           \<longleftrightarrow> \<not> has_room p len"
  using assms core_bounds [OF page_wf_core [OF assms(1)]]
  by (auto simp: has_room_def word_less_nat_alt word_le_nat_alt free_space_wf unat_add_u16
      slot_addr_def)

lemma page_insert_eq:
  assumes wf: "page_wf p" and len: "unat len \<le> length data" "unat len < 65530"
  shows "page_insert p data len =
           (if has_room p len
            then let q = place p (take (unat len) data) len in
                 Some (set_free_start q
                         (of_nat PAGE_HEADER_SIZE + hdr_slot_count q * of_nat SLOT_SIZE),
                       PAGE_OK, Some (hdr_slot_count p))
            else Some (p, PAGE_FULL, None))"
proof (cases "has_room p len")
  case False
  then show ?thesis using page_full_iff [OF wf len(2)] by (simp add: page_insert_def Let_def)
next
  case True
  note r = room_arith [OF page_wf_core [OF wf] True]
  have "bslice data 0 (unat len) = take (unat len) data"
    by (simp add: bslice_def)
  then show ?thesis
    using True page_full_iff [OF wf len(2)] r len
    by (simp add: page_insert_def Let_def)
      (simp add: place_def Let_def put_slot_def slot_in_def slot_addr_def layout_defs
        mem_read_def mem_write_def length_blit frame_simps)
qed

lemma page_insert_law:
  assumes "page_wf p" and "unat len \<le> length data" and "unat len < 65530"
  shows "if has_room p len
         then \<exists>p'. page_insert p data len = Some (p', PAGE_OK, Some (hdr_slot_count p)) \<and>
                page_wf p' \<and> rows p' = rows p @ [Some (take (unat len) data)] \<and>
                hdr_page_id p' = hdr_page_id p \<and>
                hdr_slot_count p' = hdr_slot_count p + 1 \<and>
                unat (hdr_free_end p') = unat (hdr_free_end p) - unat len
         else page_insert p data len = Some (p, PAGE_FULL, None)"
proof (cases "has_room p len")
  case True
  let ?row = "take (unat len) data"
  have row: "length ?row = unat len" using assms by simp
  note core = page_wf_core [OF assms(1)]
  note pl = core_wf_place [OF core True row]
  show ?thesis
    using True page_insert_eq [OF assms] page_wf_set_free_start [OF pl] rows_place [OF core True row]
      place_raw [OF core True row] room_arith(1) [OF core True]
    by (simp add: Let_def)
next
  case False
  then show ?thesis using page_insert_eq [OF assms] by simp
qed

text \<open>
  \<open>needed\<close> in \<open>page_insert\<close> is a 16-bit sum, so a length of 65530 or more wraps past
  the free-space check: on any well-formed page with a free slot and that little space the
  routine copies the whole row over the page's bounds, which is undefined behaviour.
\<close>

theorem page_insert_length_wrap:
  assumes "page_wf p" and "hdr_slot_count p < MAX_SLOTS"
    and "65530 \<le> unat len" and "unat len - 65530 \<le> unat (free_space p)"
  shows "page_insert p data len = None"
proof -
  have n: "unat (of_nat SLOT_SIZE + len) = unat len - 65530"
    using assms(3) unat_bound_u16 [of len] by (simp add: unat_word_ariths le_mod_geq)
  then have "\<not> (free_space p < of_nat SLOT_SIZE + len \<or> hdr_slot_count p \<ge> MAX_SLOTS)"
    using assms(2,4) by (auto simp: word_less_nat_alt word_le_nat_alt)
  moreover have "mem_write p off (bslice data 0 (unat len)) = None"
    if "unat len \<le> length data" for off
    using that assms(3) core_bounds [OF page_wf_core [OF assms(1)]] by (simp add: mem_write_def)
  ultimately show ?thesis
    by (simp add: page_insert_def Let_def mem_read_def)
qed

lemma page_insert_wrapped_full:
  assumes "65530 \<le> unat len"
    and "\<not> (hdr_slot_count p < MAX_SLOTS \<and> unat len - 65530 \<le> unat (free_space p))"
  shows "page_insert p data len = Some (p, PAGE_FULL, None)"
proof -
  have "unat (of_nat SLOT_SIZE + len) = unat len - 65530"
    using assms(1) unat_bound_u16 [of len] by (simp add: unat_word_ariths le_mod_geq)
  then have "free_space p < of_nat SLOT_SIZE + len \<or> hdr_slot_count p \<ge> MAX_SLOTS"
    using assms(2) by (auto simp: word_less_nat_alt word_le_nat_alt)
  then show ?thesis unfolding page_insert_def Let_def by (simp only: if_True)
qed

text \<open>
  C3: what \<open>page_insert\<close> does for every length, on a page that satisfies the invariant and a
  buffer of at least \<open>len\<close> bytes. For lengths below 65530 it either finds room, and then
  appends exactly those bytes as a new live row, keeps every row and the page id, returns the
  new slot's number and keeps the invariant, or reports \<open>PAGE_FULL\<close> and changes nothing; no
  access leaves the page. From 65530 on the 16-bit sum \<open>needed\<close> has wrapped to
  \<open>len - 65530\<close>: the row is copied across the bounds of the page (\<open>None\<close>, undefined
  behaviour) exactly when a slot is free and that small number passes the check, and otherwise
  the answer is \<open>PAGE_FULL\<close> with nothing changed.
\<close>

theorem page_insert_correct:
  assumes "page_wf p" and "unat len \<le> length data"
  shows "if unat len < 65530
         then if has_room p len
              then \<exists>p'. page_insert p data len = Some (p', PAGE_OK, Some (hdr_slot_count p)) \<and>
                     page_wf p' \<and> rows p' = rows p @ [Some (take (unat len) data)] \<and>
                     hdr_page_id p' = hdr_page_id p \<and>
                     hdr_slot_count p' = hdr_slot_count p + 1 \<and>
                     unat (hdr_free_end p') = unat (hdr_free_end p) - unat len
              else page_insert p data len = Some (p, PAGE_FULL, None)
         else if hdr_slot_count p < MAX_SLOTS \<and> unat len - 65530 \<le> unat (free_space p)
              then page_insert p data len = None
              else page_insert p data len = Some (p, PAGE_FULL, None)"
proof (cases "unat len < 65530")
  case True
  then show ?thesis unfolding if_P [OF True] by (rule page_insert_law [OF assms])
next
  case False
  then have "65530 \<le> unat len" by simp
  from page_insert_length_wrap [OF assms(1) _ this] page_insert_wrapped_full [OF this]
  show ?thesis unfolding if_not_P [OF False] by simp
qed

text \<open>\<open>page_read\<close>.\<close>

lemma len_row_of:
  assumes "page_wf p" and "i < unat (hdr_slot_count p)" and "row_of p (slot_at p i) = Some row"
  shows "length row = unat (s_length (slot_at p i))" and "length row \<le> 4056"
proof -
  note b = core_bounds [OF page_wf_core [OF assms(1)]]
  note sl = core_slot [OF page_wf_core [OF assms(1)] assms(2)]
  show "length row = unat (s_length (slot_at p i))" and "length row \<le> 4056"
    using assms(3) sl b by (auto simp: row_of_def split: if_splits)
qed

lemma page_read_law:
  assumes "page_wf p" and "length buf = PAGE_SIZE"
  shows "page_read p i buf (of_nat PAGE_SIZE) =
           Some (if unat i < length (rows p)
                 then case rows p ! unat i of
                        Some row \<Rightarrow> (PAGE_OK, row @ drop (length row) buf,
                                      Some (of_nat (length row)))
                      | None \<Rightarrow> (PAGE_NOT_FOUND, buf, None)
                 else (PAGE_NOT_FOUND, buf, None))"
proof (cases "i \<ge> hdr_slot_count p")
  case True
  then show ?thesis by (simp add: page_read_def word_le_nat_alt not_less)
next
  case False
  then have i: "unat i < unat (hdr_slot_count p)" by (simp add: word_less_nat_alt not_le)
  note core = page_wf_core [OF assms(1)]
  note sl = core_slot [OF core i] and b = core_bounds [OF core]
  have "s_length (slot_at p (unat i)) \<le> 4096"
    using sl by (simp add: word_le_nat_alt)
  then show ?thesis
    using False i sl b assms(2)
    by (auto simp: page_read_def get_slot_def row_of_def mem_read_def mem_write_def blit_def
        split: option.splits)
qed

text \<open>
  \<open>page_read\<close> into a page-sized buffer returns the row stored in the slot and its length,
  and answers \<open>PAGE_NOT_FOUND\<close> for a deleted slot and for a slot past the directory. It
  overwrites only the first bytes of the buffer: the bytes behind the row are whatever the
  buffer held before, and no terminator is added.
\<close>

theorem page_read_correct:
  assumes "page_wf p" and "length buf = PAGE_SIZE"
  shows "page_read p i buf (of_nat PAGE_SIZE) =
           Some (if unat i < length (rows p)
                 then case rows p ! unat i of
                        Some row \<Rightarrow> (PAGE_OK, row @ drop (length row) buf,
                                      Some (of_nat (length row)))
                      | None \<Rightarrow> (PAGE_NOT_FOUND, buf, None)
                 else (PAGE_NOT_FOUND, buf, None))"
  using assms by (rule page_read_law)

text \<open>\<open>page_delete\<close>.\<close>

lemma put_slot_flags_raw:
  assumes "core_wf p" and "i < unat (hdr_slot_count p)" and "put_slot_flags p i v = Some q"
  shows "length q = 4096" "hdr_slot_count q = hdr_slot_count p"
    "hdr_free_start q = hdr_free_start p" "hdr_free_end q = hdr_free_end p"
    "hdr_page_id q = hdr_page_id p"
    "slots_of q = (slots_of p)[i := (slot_at p i)\<lparr>s_flags := v\<rparr>]"
    "unat (hdr_free_end p) \<le> off \<Longrightarrow> off + n \<le> 4096 \<Longrightarrow> bslice q off n = bslice p off n"
proof -
  note b = core_bounds [OF assms(1)]
  have q: "q = blit p (slot_addr i + 4) [v]" and a: "slot_addr i + 6 \<le> length p"
    using assms(3) by (auto simp: put_slot_flags_def slot_in_def split: if_splits)
  note f = b assms(2) a
  show l: "length q = 4096" "hdr_slot_count q = hdr_slot_count p"
    "hdr_free_start q = hdr_free_start p" "hdr_free_end q = hdr_free_end p"
    "hdr_page_id q = hdr_page_id p"
    using f by (simp_all add: q layout_defs length_blit slot_addr_def frame_simps)
  show "unat (hdr_free_end p) \<le> off \<Longrightarrow> off + n \<le> 4096 \<Longrightarrow> bslice q off n = bslice p off n"
    using f by (simp add: q slot_addr_def frame_simps)
  have other: "slot_at q j = slot_at p j" if "j < unat (hdr_slot_count p)" "j \<noteq> i" for j
  proof (rule slot_at_cong)
    show "slot_in q j" "slot_in p j" using f that l by (simp_all add: slot_in_def slot_addr_def)
    show "bslice q (slot_addr j) 6 = bslice p (slot_addr j) 6"
      using f that by (auto simp: q slot_addr_def frame_simps nat_neq_iff)
  qed
  have "ld16 q (slot_addr i) = ld16 p (slot_addr i)"
    "ld16 q (slot_addr i + 2) = ld16 p (slot_addr i + 2)" "q ! (slot_addr i + 4) = v"
    using f by (simp_all add: q slot_addr_def frame_simps nth_blit)
  then have same: "slot_at q i = (slot_at p i)\<lparr>s_flags := v\<rparr>" by (simp add: slot_at_def)
  show "slots_of q = (slots_of p)[i := (slot_at p i)\<lparr>s_flags := v\<rparr>]"
  proof (rule nth_equalityI)
    fix j assume "j < length (slots_of q)"
    then show "slots_of q ! j = (slots_of p)[i := (slot_at p i)\<lparr>s_flags := v\<rparr>] ! j"
      using other [of j] same l(2) by (cases "j = i") simp_all
  qed (simp add: l(2))
qed

lemma stacked_flags:
  "stacked hi (ss[i := (ss ! i)\<lparr>s_flags := v\<rparr>]) lo = stacked hi ss lo"
  by (induction ss arbitrary: hi i) (auto split: nat.splits)

lemma page_delete_law:
  assumes "page_wf p"
  shows "if unat i < length (rows p) \<and> rows p ! unat i \<noteq> None
         then \<exists>p'. page_delete p i = Some (p', PAGE_OK) \<and> page_wf p' \<and>
                rows p' = (rows p)[unat i := None] \<and> hdr_page_id p' = hdr_page_id p
         else page_delete p i = Some (p, PAGE_NOT_FOUND)"
proof (cases "unat i < length (rows p) \<and> rows p ! unat i \<noteq> None")
  case False
  then show ?thesis
    using core_slot(1) [OF page_wf_core [OF assms], of "unat i"]
    by (auto simp: page_delete_def get_slot_def row_of_def word_le_nat_alt not_less split: if_splits)
next
  case True
  note core = page_wf_core [OF assms]
  have i: "unat i < unat (hdr_slot_count p)" and al: "alive (slot_at p (unat i))"
    using True by (auto simp: row_of_def split: if_splits)
  obtain q where q: "put_slot_flags p (unat i) SLOT_DEAD = Some q"
    using core_slot(1) [OF core i] by (simp add: put_slot_flags_def)
  note r = put_slot_flags_raw [OF core i q]
  have del: "page_delete p i = Some (q, PAGE_OK)"
    using i al q core_slot(1) [OF core i]
    by (simp add: page_delete_def get_slot_def word_le_nat_alt)
  have st: "slots_of q = (slots_of p)[unat i := (slots_of p ! unat i)\<lparr>s_flags := SLOT_DEAD\<rparr>]"
    using r(6) i by simp
  have "page_wf q"
    using assms r(1-4) by (simp add: page_wf_def core_wf_def st stacked_flags)
  moreover have "rows q = (rows p)[unat i := None]"
  proof (rule nth_equalityI)
    fix j assume "j < length (rows q)"
    then have j: "j < unat (hdr_slot_count p)" using r(2) by simp
    show "rows q ! j = (rows p)[unat i := None] ! j"
    proof (cases "j = unat i")
      case True
      have "slots_of q ! j = (slot_at p j)\<lparr>s_flags := SLOT_DEAD\<rparr>"
        using True j by (simp only: r(6)) simp
      then have "\<not> alive (slot_at q j)" using j r(2) by (simp add: alive_def)
      then show ?thesis using True j r(2) by (simp add: row_of_def)
    next
      case False
      have "slots_of q ! j = slot_at p j"
        using False j by (simp only: r(6)) simp
      then have "slot_at q j = slot_at p j" using j r(2) by simp
      then show ?thesis using False j r(2,7) core_slot [OF core j] by (simp add: row_of_def)
    qed
  qed (simp add: r(2))
  ultimately show ?thesis using True del r(5) by (simp del: nth_rows)
qed

text \<open>
  \<open>page_delete\<close> clears exactly the named slot: that row is gone, every other row keeps
  its slot number and its bytes, and the invariant holds. On a slot that is already dead or
  does not exist it answers \<open>PAGE_NOT_FOUND\<close> and changes nothing.
\<close>

theorem page_delete_correct:
  assumes "page_wf p"
  shows "if unat i < length (rows p) \<and> rows p ! unat i \<noteq> None
         then \<exists>p'. page_delete p i = Some (p', PAGE_OK) \<and> page_wf p' \<and>
                rows p' = (rows p)[unat i := None] \<and> hdr_page_id p' = hdr_page_id p
         else page_delete p i = Some (p, PAGE_NOT_FOUND)"
  using assms by (rule page_delete_law)


text \<open>
  \<open>page_compact\<close>. After \<open>k\<close> iterations the scratch page holds the live rows among the first
  \<open>k\<close> slots, in order, and its free space ends where their total length says.
\<close>

definition live_bytes :: "Slot list \<Rightarrow> nat" where
  "live_bytes ss = (\<Sum>s\<leftarrow>ss. if alive s then unat (s_length s) else 0)"

definition compact_inv :: "page \<Rightarrow> nat \<Rightarrow> page \<Rightarrow> bool" where
  "compact_inv p k tmp \<longleftrightarrow>
     core_wf tmp \<and> rows tmp = filter (\<lambda>r. r \<noteq> None) (take k (rows p)) \<and>
     unat (hdr_free_end tmp) + live_bytes (take k (slots_of p)) = 4096 \<and>
     hdr_page_id tmp = hdr_page_id p"

lemma live_bytes_le: "live_bytes ss \<le> (\<Sum>s\<leftarrow>ss. unat (s_length s))"
  by (induction ss) (auto simp: live_bytes_def)

lemma live_bytes_snoc:
  "k < length ss \<Longrightarrow>
     live_bytes (take (Suc k) ss) =
       live_bytes (take k ss) + (if alive (ss ! k) then unat (s_length (ss ! k)) else 0)"
  by (simp add: live_bytes_def take_Suc_conv_app_nth)

lemma compact_room:
  assumes "core_wf p" and "k < unat (hdr_slot_count p)" and "compact_inv p k tmp"
  shows "has_room tmp (s_length (slot_at p k))"
proof -
  note b = core_bounds [OF assms(1)]
  let ?ss = "slots_of p"
  have k: "k < length ?ss" using assms(2) by simp
  have "4096 = unat (hdr_free_end p) + (\<Sum>s\<leftarrow>?ss. unat (s_length s))"
    using stacked_sum [of 4096 ?ss] assms(1) by (simp add: core_wf_def)
  also have "(\<Sum>s\<leftarrow>?ss. unat (s_length s)) =
      (\<Sum>s\<leftarrow>take k ?ss. unat (s_length s)) + unat (s_length (slot_at p k)) +
      (\<Sum>s\<leftarrow>drop (Suc k) ?ss. unat (s_length s))"
    using id_take_nth_drop [OF k] assms(2)
    by (metis (no_types, lifting) add.assoc list.simps(9) map_append nth_slots_of
        sum_list.Cons sum_list_append)
  finally have "live_bytes (take k ?ss) + unat (s_length (slot_at p k)) + unat (hdr_free_end p) \<le> 4096"
    using live_bytes_le [of "take k ?ss"] by linarith
  moreover have "unat (hdr_free_end tmp) + live_bytes (take k ?ss) = 4096"
    using assms(3) by (simp add: compact_inv_def)
  moreover have "unat (hdr_slot_count tmp) \<le> k"
  proof -
    have "unat (hdr_slot_count tmp) = length (filter (\<lambda>r. r \<noteq> None) (take k (rows p)))"
      using assms(3) length_rows [of tmp] by (simp add: compact_inv_def)
    also have "\<dots> \<le> length (take k (rows p))" by (rule length_filter_le)
    also have "\<dots> \<le> k" by simp
    finally show ?thesis .
  qed
  ultimately show ?thesis
    using b assms(2) by (simp add: has_room_def slot_addr_def)
qed

lemma compact_step_inv:
  assumes "core_wf p" and k: "k < unat (hdr_slot_count p)" and inv: "compact_inv p k tmp"
  shows "\<exists>tmp'. compact_step p k tmp = Some tmp' \<and> compact_inv p (Suc k) tmp'"
proof (cases "alive (slot_at p k)")
  case False
  then have "row_of p (slot_at p k) = None" by (simp add: row_of_def)
  then have "take (Suc k) (rows p) = take k (rows p) @ [None]"
    using k by (simp add: take_Suc_conv_app_nth)
  moreover have "live_bytes (take (Suc k) (slots_of p)) = live_bytes (take k (slots_of p))"
    using False k by (simp add: live_bytes_snoc)
  ultimately have "compact_inv p (Suc k) tmp"
    using inv by (simp add: compact_inv_def)
  then show ?thesis
    using False core_slot(1) [OF assms(1) k] by (simp add: compact_step_def get_slot_def)
next
  case True
  note sl = core_slot [OF assms(1) k] and b = core_bounds [OF assms(1)]
  have core: "core_wf tmp" using inv by (simp add: compact_inv_def)
  let ?len = "s_length (slot_at p k)"
  let ?row = "bslice p (unat (s_offset (slot_at p k))) (unat ?len)"
  have room: "has_room tmp ?len" by (rule compact_room [OF assms])
  have row: "length ?row = unat ?len" using sl b by simp
  note r = room_arith [OF core room]
  have "compact_step p k tmp = Some (place tmp ?row ?len)"
    using True sl b r row
    by (simp add: compact_step_def get_slot_def mem_read_def mem_write_def Let_def)
      (simp add: place_def Let_def put_slot_def slot_in_def slot_addr_def layout_defs
        length_blit frame_simps)
  moreover have "rows (place tmp ?row ?len) = filter (\<lambda>r. r \<noteq> None) (take (Suc k) (rows p))"
    using rows_place [OF core room row] inv k True
    by (simp add: compact_inv_def take_Suc_conv_app_nth row_of_def)
  moreover have "unat (hdr_free_end (place tmp ?row ?len)) + live_bytes (take (Suc k) (slots_of p)) = 4096"
    using place_raw(3) [OF core room row] r inv k True
    by (simp add: compact_inv_def live_bytes_snoc)
  ultimately show ?thesis
    using core_wf_place [OF core room row] place_raw(5) [OF core room row] inv
    by (simp add: compact_inv_def)
qed

lemma compact_loop_inv:
  assumes "core_wf p" and "k \<le> n" and "n \<le> unat (hdr_slot_count p)" and "compact_inv p k tmp"
  shows "\<exists>tmp'. compact_loop p [k ..< n] tmp = Some tmp' \<and> compact_inv p n tmp'"
  using assms(2-4)
proof (induction "n - k" arbitrary: k tmp)
  case 0
  then show ?case by simp
next
  case (Suc d)
  then have "k < unat (hdr_slot_count p)" and k: "k < n" by simp_all
  then obtain tmp1 where "compact_step p k tmp = Some tmp1" and inv: "compact_inv p (Suc k) tmp1"
    using compact_step_inv [OF assms(1) _ Suc.prems(3)] by blast
  moreover obtain tmp' where "compact_loop p [Suc k ..< n] tmp1 = Some tmp'" "compact_inv p n tmp'"
    using Suc.hyps(1) [of "Suc k" tmp1, OF _ _ Suc.prems(2) inv] Suc.hyps(2) k by force
  ultimately show ?case using k by (simp add: upt_conv_Cons)
qed

lemma page_compact_law:
  assumes "page_wf p"
  shows "\<exists>q. page_compact p = Some q \<and> page_wf q \<and>
           rows q = filter (\<lambda>r. r \<noteq> None) (rows p) \<and>
           unat (hdr_free_end q) = PAGE_SIZE - live_bytes (slots_of p) \<and>
           hdr_page_id q = hdr_page_id p"
proof -
  note core = page_wf_core [OF assms] note b = core_bounds [OF core]
  let ?t = "blit (replicate PAGE_SIZE 0) 0 (bslice p 0 PAGE_HEADER_SIZE)"
  let ?tmp = "set_free_end (set_free_start (set_slot_count ?t 0) (of_nat PAGE_HEADER_SIZE))
      (of_nat PAGE_SIZE)"
  have hd: "length ?tmp = 4096" "hdr_slot_count ?tmp = 0" "hdr_free_end ?tmp = 4096"
    "hdr_page_id ?tmp = hdr_page_id p"
    using b by (simp_all add: layout_defs length_blit frame_simps)
      (simp add: ld32_def bslice_blit_inside bslice_bslice)
  have "compact_inv p 0 ?tmp"
    using hd by (simp add: compact_inv_def core_wf_def rows_def slots_of_def live_bytes_def slot_addr_def)
  then obtain q where q: "compact_loop p [0 ..< unat (hdr_slot_count p)] ?tmp = Some q"
    and inv: "compact_inv p (unat (hdr_slot_count p)) q"
    using compact_loop_inv [OF core] by blast
  have cq: "core_wf q" using inv by (simp add: compact_inv_def)
  note fin = page_wf_set_free_start [OF cq] core_bounds [OF cq]
  have "unat (hdr_free_end q) = 4096 - live_bytes (slots_of p)"
    using inv by (auto simp: compact_inv_def)
  then show ?thesis
    using q inv fin by (simp add: page_compact_def Let_def compact_inv_def)
qed

text \<open>
  C20: \<open>page_compact\<close> of a well-formed page stays inside the page, keeps exactly the live rows
  in their order, renumbers their slots densely from 0, and returns every byte of the deleted
  rows to the free space.
\<close>

theorem page_compact_correct:
  assumes "page_wf p"
  shows "\<exists>q. page_compact p = Some q \<and> page_wf q \<and>
           rows q = filter (\<lambda>r. r \<noteq> None) (rows p) \<and>
           unat (hdr_free_end q) = PAGE_SIZE - live_bytes (slots_of p) \<and>
           hdr_page_id q = hdr_page_id p"
  using assms by (rule page_compact_law)

end
