(* ===== verification/PageDisk.thy ===== *)
theory PageDisk imports PageOps begin

text \<open>
  Pages on disk: what \<open>page_write_disk\<close> leaves in the file under every pattern of I/O
  failures, that \<open>page_read_disk\<close> gives it back, and exactly which corruptions of a stored
  page the checksum can and cannot see. The page file is seen as an array of blocks.
\<close>

definition block :: "bytes \<Rightarrow> nat \<Rightarrow> page option" where
  "block c i = (if (i + 1) * PAGE_SIZE \<le> length c then Some (bslice c (i * PAGE_SIZE) PAGE_SIZE) else None)"

definition stamp :: "page \<Rightarrow> page" where
  "stamp p = set_checksum p (page_checksum p)"

lemma page_checksum_cong:
  "bslice p 40 4056 = bslice q 40 4056 \<Longrightarrow> page_checksum p = page_checksum q"
  by (simp add: page_checksum_def page_covered_def)

lemma page_checksum_set [simp]:
  "length p = 4096 \<Longrightarrow> page_checksum (set_checksum p v) = page_checksum p"
  by (rule page_checksum_cong) simp

lemma set_checksum_twice [simp]:
  "length p = 4096 \<Longrightarrow> set_checksum (set_checksum p v) w = set_checksum p w"
  by (simp add: set_checksum_def st32_st32)

lemma set_checksum_own [simp]:
  "length p = 4096 \<Longrightarrow> set_checksum p (hdr_checksum p) = p"
  by (simp add: set_checksum_def hdr_checksum_def st32_ld32)

lemma stamp_simps [simp]:
  assumes "length p = 4096"
  shows "length (stamp p) = 4096" "hdr_page_id (stamp p) = hdr_page_id p"
    "hdr_checksum (stamp p) = page_checksum p" "page_checksum (stamp p) = page_checksum p"
    "stamp (stamp p) = stamp p" "hdr_slot_count (stamp p) = hdr_slot_count p"
  using assms by (simp_all add: stamp_def)

lemma stamp_wf [simp]: "page_wf p \<Longrightarrow> page_wf (stamp p)" "page_wf p \<Longrightarrow> rows (stamp p) = rows p"
  by (simp_all add: stamp_def)

lemma length_page_wf: "page_wf p \<Longrightarrow> length p = 4096"
  by (simp add: page_wf_def core_wf_def)

lemma block_file_put_same:
  "length p = 4096 \<Longrightarrow> block (file_put c (i * 4096) p) i = Some p"
  using bslice_file_put_same [of c "i * 4096" p]
  by (auto simp: block_def length_file_put)

lemma block_file_put_other:
  assumes "block c j = Some q" and "i \<noteq> j" and "length bs \<le> 4096"
  shows "block (file_put c (i * 4096) bs) j = Some q"
proof -
  have "j * 4096 + 4096 \<le> i * 4096 \<or> i * 4096 + length bs \<le> j * 4096"
    using assms(2,3) by (cases i j rule: linorder_cases) simp_all
  then show ?thesis
    using assms(1) bslice_file_put_other [of "j * 4096" 4096 c "i * 4096" bs]
    by (auto simp: block_def length_file_put split: if_splits)
qed

lemma length_block: "block c i = Some p \<Longrightarrow> length p = 4096"
  by (auto simp: block_def split: if_splits)

text \<open>
  What a page write does to the file, for every schedule of outcomes.
\<close>

lemma os_write_cases:
  assumes "os_write f bs = (n, f')"
  shows "(n = -1 \<and> fcontents f' = fcontents f) \<or>
         (\<exists>k \<le> length bs. n = int k \<and> fcontents f' = file_put (fcontents f) (foffset f) (take k bs))"
proof -
  obtain x g where d: "draw f = (x, g)" by (cases "draw f")
  have g: "fcontents g = fcontents f" "foffset g = foffset f" using d by simp_all
  show ?thesis
  proof (cases x)
    case IoOk
    then show ?thesis using assms d g
      by (intro disjI2 exI [of _ "length bs"]) (auto simp: os_write_def os_put_def)
  next
    case IoErr
    then show ?thesis using assms d g by (auto simp: os_write_def)
  next
    case (IoShort k)
    then show ?thesis using assms d g
      by (intro disjI2 exI [of _ "min k (length bs)"])
        (auto simp: os_write_def os_put_def min_def)
  qed
qed

lemma page_write_disk_cases:
  assumes "length p = 4096" and "page_write_disk p f = (r, p', f')"
  shows "p' = stamp p"
    and "(r = PAGE_OK \<and> fcontents f' = file_put (fcontents f) (unat (hdr_page_id p) * 4096) (stamp p)) \<or>
         (r = PAGE_ERROR \<and> (fcontents f' = fcontents f \<or>
            (\<exists>k < 4096. fcontents f' =
               file_put (fcontents f) (unat (hdr_page_id p) * 4096) (take k (stamp p)))))"
proof -
  obtain ok g where l: "os_lseek_set f (unat (hdr_page_id p) * 4096) = (ok, g)" by fastforce
  obtain n h where w: "os_write g (stamp p) = (n, h)" by fastforce
  have off: "ok \<Longrightarrow> foffset g = unat (hdr_page_id p) * 4096"
    using l os_lseek_set_offset by simp
  have e: "set_checksum (set_checksum p 0) (page_checksum (set_checksum p 0)) = stamp p"
    using assms(1) by (simp add: stamp_def)
  have st: "hdr_page_id (stamp p) = hdr_page_id p" "length (stamp p) = 4096"
    using assms(1) by simp_all
  have run: "page_write_disk p f =
      (if \<not> ok then (PAGE_ERROR, stamp p, g)
       else if n \<noteq> 4096 then (PAGE_ERROR, stamp p, h) else (PAGE_OK, stamp p, h))"
    using assms(1) l w st
    unfolding page_write_disk_def Let_def e by (cases ok) simp_all
  show "p' = stamp p" using assms(2) run by (auto split: if_splits)
  show "(r = PAGE_OK \<and> fcontents f' = file_put (fcontents f) (unat (hdr_page_id p) * 4096) (stamp p)) \<or>
         (r = PAGE_ERROR \<and> (fcontents f' = fcontents f \<or>
            (\<exists>k < 4096. fcontents f' =
               file_put (fcontents f) (unat (hdr_page_id p) * 4096) (take k (stamp p)))))"
  proof (cases ok)
    case False
    then show ?thesis using assms(2) run l by auto
  next
    case True
    from os_write_cases [OF w] show ?thesis
    proof (elim disjE exE conjE)
      assume "n = -1" "fcontents h = fcontents g"
      then show ?thesis using True assms(2) run l by auto
    next
      fix k assume k: "k \<le> length (stamp p)" "n = int k"
        "fcontents h = file_put (fcontents g) (foffset g) (take k (stamp p))"
      show ?thesis
      proof (cases "k = 4096")
        case True
        then show ?thesis using \<open>ok\<close> assms(2) run l k off st by auto
      next
        case False
        then have "k < 4096" using k(1) st by simp
        then show ?thesis using \<open>ok\<close> False assms(2) run l k off by auto
      qed
    qed
  qed
qed

lemma page_write_disk_quiet:
  assumes "length p = 4096" and "quiet f"
  shows "page_write_disk p f =
           (PAGE_OK, stamp p,
            f\<lparr>fcontents := file_put (fcontents f) (unat (hdr_page_id p) * 4096) (stamp p),
              foffset := unat (hdr_page_id p) * 4096 + 4096\<rparr>)"
  using assms by (simp add: page_write_disk_def Let_def os_put_def stamp_def)

lemma blit_whole: "length bs = length m \<Longrightarrow> blit m 0 bs = bs"
  by (simp add: blit_def)

lemma page_read_disk_quiet:
  assumes "length buf = 4096" and "quiet f" and "block (fcontents f) (unat n) = Some b"
  shows "page_read_disk buf f n =
           (if page_checksum b = hdr_checksum b then PAGE_OK else PAGE_ERROR, b,
            f\<lparr>foffset := unat n * 4096 + 4096\<rparr>)"
proof -
  have b: "bslice (fcontents f) (unat n * 4096) 4096 = b" "length b = 4096"
    using assms(3) by (auto simp: block_def split: if_splits)
  show ?thesis
    using assms(1,2) b
    by (simp add: page_read_disk_def os_get_def Let_def blit_whole)
qed

lemma page_disk_law:
  assumes "length p = PAGE_SIZE" and "page_write_disk p f = (PAGE_OK, p', f')"
    and "length buf = PAGE_SIZE" and "quiet g" and "fcontents g = fcontents f'"
  shows "p' = stamp p \<and>
         (\<exists>g'. page_read_disk buf g (hdr_page_id p) = (PAGE_OK, p', g') \<and>
               fcontents g' = fcontents g) \<and>
         (\<forall>j q. j \<noteq> unat (hdr_page_id p) \<longrightarrow> block (fcontents f) j = Some q \<longrightarrow>
                block (fcontents g) j = Some q)"
proof -
  have len: "length p = 4096" using assms(1) by simp
  note w = page_write_disk_cases [OF len assms(2)]
  have c: "fcontents g = file_put (fcontents f) (unat (hdr_page_id p) * 4096) (stamp p)"
    using w(2) assms(5) by simp
  have "block (fcontents g) (unat (hdr_page_id p)) = Some (stamp p)"
    using c len by (simp add: block_file_put_same)
  then show ?thesis
    using w(1) c len assms(3,4)
    by (simp add: page_read_disk_quiet block_file_put_other)
qed

text \<open>
  C17: whatever the kernel does to the calls, \<open>page_write_disk\<close> reports \<open>PAGE_OK\<close> only when
  all 4096 bytes of the page, stamped with their checksum, are in the file at the place of the
  page's id, and no other stored page changes; a later undisturbed \<open>page_read_disk\<close> then
  returns that page.
\<close>

theorem page_disk_roundtrip:
  assumes "length p = PAGE_SIZE" and "page_write_disk p f = (PAGE_OK, p', f')"
    and "length buf = PAGE_SIZE" and "quiet g" and "fcontents g = fcontents f'"
  shows "p' = stamp p \<and>
         (\<exists>g'. page_read_disk buf g (hdr_page_id p) = (PAGE_OK, p', g') \<and>
               fcontents g' = fcontents g) \<and>
         (\<forall>j q. j \<noteq> unat (hdr_page_id p) \<longrightarrow> block (fcontents f) j = Some q \<longrightarrow>
                block (fcontents g) j = Some q)"
  using assms by (rule page_disk_law)

text \<open>
  C33: the page checksum only covers the last 32 bytes of the page. A stored page that reads
  back fine still reads back as \<open>PAGE_OK\<close> after any change of its slot directory, of its
  header fields other than the checksum, and of every row byte before offset 4064.
\<close>

theorem page_checksum_blind:
  assumes "length buf = PAGE_SIZE" and "quiet f" and "length bad = PAGE_SIZE"
    and "page_read_disk buf f n = (PAGE_OK, p, f')"
    and "bslice bad 24 4 = bslice p 24 4" and "drop 4064 bad = drop 4064 p"
  shows "fst (page_read_disk buf
           (f\<lparr>fcontents := file_put (fcontents f) (unat n * PAGE_SIZE) bad\<rparr>) n) = PAGE_OK"
proof -
  obtain b where b: "block (fcontents f) (unat n) = Some b"
  proof (cases "block (fcontents f) (unat n)")
    case None
    then have "length (bslice (fcontents f) (unat n * 4096) 4096) < 4096"
      by (auto simp: block_def bslice_def split: if_splits)
    then have "fst (page_read_disk buf f n) = PAGE_ERROR"
      using assms(1,2) by (simp add: page_read_disk_def os_get_def Let_def)
    then show ?thesis using assms(4) by simp
  qed
  have p: "p = b" "page_checksum b = hdr_checksum b"
    using page_read_disk_quiet [OF _ assms(2) b] assms(1,4) by (auto split: if_splits)
  have len: "length p = 4096" using b p length_block by simp
  have split: "page_covered q = bslice q 40 4024 @ drop 4064 q" if "length q = 4096" for q
    using that append_take_drop_id [of 4024 "drop 40 q", symmetric]
    by (simp add: page_covered_def bslice_def del: append_take_drop_id)
  have "page_checksum bad = page_checksum p"
    using assms(3,6) len split [of bad] split [of p]
    by (intro page_sum.only_last_32_bytes [where ws = "drop 4064 p"]) auto
  moreover have "hdr_checksum bad = hdr_checksum p"
    using assms(5) by (simp add: hdr_checksum_def ld32_def)
  moreover have "block (file_put (fcontents f) (unat n * 4096) bad) (unat n) = Some bad"
    using assms(3) by (simp add: block_file_put_same)
  ultimately show ?thesis
    using page_read_disk_quiet [of buf "f\<lparr>fcontents := file_put (fcontents f) (unat n * 4096) bad\<rparr>" n bad]
      assms(1,2) p by simp
qed

text \<open>
  The other side of the checksum: when a page reads back fine and then one of its last 25
  bytes changes in the file, reading it again reports \<open>PAGE_ERROR\<close>.
\<close>

theorem page_checksum_detects:
  assumes "length buf = PAGE_SIZE" and "quiet f" and "length p = PAGE_SIZE"
    and "page_checksum p = hdr_checksum p" and "4071 \<le> k" and "k < PAGE_SIZE" and "v \<noteq> p ! k"
  shows "fst (page_read_disk buf
           (f\<lparr>fcontents := file_put (fcontents f) (unat n * PAGE_SIZE) (p[k := v])\<rparr>) n) = PAGE_ERROR"
proof -
  have len: "length p = 4096" "k < 4096" using assms(3,6) by simp_all
  let ?c = "drop 40 p" and ?i = "k - 40"
  have cov: "page_covered q = drop 40 q" if "length q = 4096" for q :: page
    using that by (simp add: page_covered_def bslice_def)
  have i: "?i < length ?c" "?c ! ?i = p ! k" using len assms(5) by simp_all
  have "drop 40 p = take ?i ?c @ p ! k # drop (Suc ?i) ?c"
    using id_take_nth_drop [OF i(1)] i(2) by simp
  moreover have "drop 40 (p[k := v]) = take ?i ?c @ v # drop (Suc ?i) ?c"
  proof -
    have "drop 40 (p[k := v]) = ?c[?i := v]" using assms(5) by (simp add: drop_update_swap)
    then show ?thesis using upd_conv_take_nth_drop [OF i(1), of v] by (simp only:)
  qed
  ultimately have "page_checksum (p[k := v]) \<noteq> page_checksum p"
    using len assms(5,7)
    by (intro page_sum.detects_late_byte [where xs = "take ?i ?c" and ys = "drop (Suc ?i) ?c"])
      (simp_all add: cov)
  moreover have "hdr_checksum (p[k := v]) = hdr_checksum p"
    using assms(5) by (simp add: hdr_checksum_def ld32_def bslice_def take_drop)
  moreover have "block (file_put (fcontents f) (unat n * 4096) (p[k := v])) (unat n) = Some (p[k := v])"
    using len by (simp add: block_file_put_same)
  ultimately show ?thesis
    using page_read_disk_quiet [of buf
        "f\<lparr>fcontents := file_put (fcontents f) (unat n * 4096) (p[k := v])\<rparr>" n "p[k := v]"]
      assms(1,2,4) by simp
qed

end
