(* ===== verification/PageWitness.thy ===== *)
theory PageWitness imports PageDisk begin

text \<open>
  The page properties at concrete inputs: a freshly allocated page, one row stored in it, and
  a page file of one block.
\<close>

definition blank :: "u32 \<Rightarrow> page" where
  "blank n = the (page_alloc True n)"

lemma blank_alloc: "page_alloc True n = Some (blank n)"
  by (simp add: blank_def page_alloc_def Let_def)

lemmas blank_header [simp] = alloc_header [OF blank_alloc]
lemmas blank_wf [simp] = page_alloc_wf [OF blank_alloc]

lemma blank_slots [simp]: "slots_of (blank n) = []"
  by (simp add: slots_of_def)

lemma blank_room: "unat len \<le> 4050 \<Longrightarrow> has_room (blank n) len"
  by (simp add: has_room_def slot_addr_def)

definition one_row :: "page" where
  "one_row = fst (the (page_insert (blank 7) [65, 66, 67, 0] 4))"

lemma one_row_wf [simp]: "page_wf one_row" "rows one_row = [Some [65, 66, 67, 0]]"
  "hdr_page_id one_row = 7"
  using page_insert_law [of "blank 7" 4 "[65, 66, 67, 0]"] blank_room [of 4]
  by (auto simp: one_row_def)

lemma one_row_length [simp]: "length one_row = 4096"
  by (rule length_page_wf) simp

theorem page_insert_witness:
  "\<exists>p'. page_insert (blank 7) [65, 66, 67, 0] 3 = Some (p', PAGE_OK, Some 0) \<and>
        page_wf p' \<and> rows p' = [Some [65, 66, 67]] \<and>
        page_insert (blank 7) (replicate 65535 65) 65535 = None"
  using page_insert_correct [of "blank 7" 3 "[65, 66, 67, 0]"] blank_room [of 3]
    page_insert_correct [of "blank 7" 65535 "replicate 65535 65"]
  by (auto simp: free_space_def)

theorem page_insert_length_wrap_witness: "page_insert (blank 7) [65] 65535 = None"
  by (rule page_insert_length_wrap) (simp_all add: free_space_def)

theorem page_read_witness:
  "page_read one_row 0 (replicate 4096 9) 4096 =
     Some (PAGE_OK, [65, 66, 67, 0] @ replicate 4092 9, Some 4)"
  using page_read_correct [of one_row "replicate 4096 9" 0] by simp

theorem page_delete_witness:
  "\<exists>p'. page_delete one_row 0 = Some (p', PAGE_OK) \<and> page_wf p' \<and> rows p' = [None]"
  using page_delete_correct [of one_row 0] by auto

theorem page_compact_witness:
  "\<exists>q. page_compact one_row = Some q \<and> page_wf q \<and> rows q = [Some [65, 66, 67, 0]]"
  using page_compact_correct [of one_row] by auto

definition empty_file :: osfile where
  "empty_file = \<lparr>fcontents = [], foffset = 0, fsched = []\<rparr>"

lemma empty_file_quiet [simp]: "quiet empty_file" "fcontents empty_file = []"
  by (simp_all add: empty_file_def quiet_def)

definition on_disk :: "page \<Rightarrow> osfile" where
  "on_disk p = snd (snd (page_write_disk p empty_file))"

lemma on_disk_simps [simp]:
  assumes "length p = 4096"
  shows "quiet (on_disk p)" "page_write_disk p empty_file = (PAGE_OK, stamp p, on_disk p)"
    "block (fcontents (on_disk p)) (unat (hdr_page_id p)) = Some (stamp p)"
  using assms page_write_disk_quiet [OF assms, of empty_file]
  by (simp_all add: on_disk_def block_file_put_same)

theorem page_disk_roundtrip_witness:
  "fst (page_read_disk (replicate 4096 1) (on_disk one_row) 7) = PAGE_OK"
  using page_disk_roundtrip [of one_row empty_file "stamp one_row" "on_disk one_row"
      "replicate 4096 1" "on_disk one_row"] by auto

lemma stored_read:
  "page_read_disk (replicate 4096 1) (on_disk one_row) 7 =
     (PAGE_OK, stamp one_row, (on_disk one_row)\<lparr>foffset := 32768\<rparr>)"
  using page_read_disk_quiet [of "replicate 4096 1" "on_disk one_row" 7 "stamp one_row"]
    on_disk_simps [of one_row] by simp

theorem page_checksum_blind_witness:
  "fst (page_read_disk (replicate 4096 1) ((on_disk one_row)
      \<lparr>fcontents := file_put (fcontents (on_disk one_row)) 28672 (set_slot_count (stamp one_row) 77)\<rparr>) 7) = PAGE_OK"
  using page_checksum_blind [OF _ _ _ stored_read, of "set_slot_count (stamp one_row) 77"]
  by (simp add: set_slot_count_def bslice_st_other) (simp add: st16_def drop_blit_before)

theorem page_checksum_detects_witness:
  "fst (page_read_disk (replicate 4096 1) ((on_disk one_row)
      \<lparr>fcontents := file_put (fcontents (on_disk one_row)) 28672
        ((stamp one_row)[4095 := stamp one_row ! 4095 + 1])\<rparr>) 7) = PAGE_ERROR"
  using page_checksum_detects [of "replicate 4096 1" "on_disk one_row" "stamp one_row" 4095
      "stamp one_row ! 4095 + 1" 7] by simp

end
