(* ===== verification/Index.thy ===== *)
theory Index imports Prelude begin

text \<open>
  The B+ tree of index/index.c: nodes, allocation, descent, insertion with leaf and inner
  splits, search, deletion and the walk along the leaf chain. A tree node owns its children,
  so a tree is a datatype; the only pointer with an alias is a leaf's \<open>next\<close>, so leaves carry
  their address. The arrays \<open>keys\<close>, \<open>locations\<close> and \<open>children\<close> are the lists of their first
  \<open>num_keys\<close> (or \<open>num_keys + 1\<close>) cells: the code never reads the others.
  A failed \<open>calloc\<close> during a split leaves \<open>new_key\<close> indeterminate and a null child in the
  parent; that outcome is \<open>None\<close>.
\<close>

record RowLocation =
  page_id :: u32
  slot_id :: u16

type_synonym entry = "int \<times> RowLocation"

datatype INDEXNode =
    Leaf nat "entry list" "nat option"
  | Inner "int list" "INDEXNode list"

datatype INDEXResult = INDEX_OK | INDEX_NOT_FOUND | INDEX_DUPLICATE | INDEX_ERROR

definition INDEX_ORDER :: nat where "INDEX_ORDER = 4"

lemma INDEX_ORDER_eq [simp]: "INDEX_ORDER = 4"
  by (simp add: INDEX_ORDER_def)

text \<open>
  The heap: the next free address, and how many more \<open>calloc\<close> calls succeed (\<open>None\<close> when
  memory does not run out).
\<close>

record heap =
  brk :: nat
  avail :: "nat option"

definition calloc :: "heap \<Rightarrow> (nat \<times> heap) option" where
  "calloc h =
     (case avail h of
        None \<Rightarrow> Some (brk h, h\<lparr>brk := brk h + 1\<rparr>)
      | Some 0 \<Rightarrow> None
      | Some (Suc n) \<Rightarrow> Some (brk h, h\<lparr>brk := brk h + 1, avail := Some n\<rparr>))"

record INDEX =
  root :: INDEXNode
  node_count :: int

text \<open>
  \<open>while (i < num_keys && key >= keys[i]) i++\<close>: the child to descend into.
\<close>

fun child_index :: "int list \<Rightarrow> int \<Rightarrow> nat" where
  "child_index [] key = 0"
| "child_index (k # ks) key = (if key \<ge> k then Suc (child_index ks key) else 0)"

text \<open>
  \<open>i = num_keys - 1; while (i >= 0 && keys[i] > key) \{ shift cell i to i + 1; i-- \}\<close>: the
  cell \<open>i + 1\<close> that becomes free.
\<close>

fun shift_from :: "int list \<Rightarrow> nat \<Rightarrow> int \<Rightarrow> nat" where
  "shift_from ks 0 key = 0"
| "shift_from ks (Suc i) key = (if ks ! i > key then shift_from ks i key else Suc i)"

definition insert_at :: "nat \<Rightarrow> 'a \<Rightarrow> 'a list \<Rightarrow> 'a list" where
  "insert_at p x xs = take p xs @ x # drop p xs"

lemma size_child [termination_simp]: "i < length cs \<Longrightarrow> size (cs ! i) < Suc (size_list size cs)"
  by (metis less_SucI nth_mem size_list_estimation' le_imp_less_Suc order_refl)

function find_leaf :: "INDEXNode \<Rightarrow> int \<Rightarrow> INDEXNode option" where
  "find_leaf (Leaf a es nx) key = Some (Leaf a es nx)"
| "find_leaf (Inner ks cs) key =
     (if child_index ks key < length cs then find_leaf (cs ! child_index ks key) key else None)"
  by pat_completeness auto
termination
  by (relation "measure (\<lambda>(t, key). size t)") (auto simp: termination_simp size_child)

text \<open>
  \<open>split_leaf\<close> on the overfull leaf \<open>left\<close> and \<open>split_internal\<close> on an overfull inner node:
  the node that stays, the key to promote and the new right node.
\<close>

definition split_leaf ::
  "heap \<Rightarrow> nat \<Rightarrow> entry list \<Rightarrow> nat option \<Rightarrow> (INDEXNode \<times> int \<times> INDEXNode \<times> heap) option" where
  "split_leaf h a es nx =
     (case calloc h of
        None \<Rightarrow> None
      | Some (b, h') \<Rightarrow>
          (let mid = INDEX_ORDER div 2;
               right = drop mid es
           in Some (Leaf a (take mid es) (Some b), fst (right ! 0), Leaf b right nx, h')))"

definition split_internal ::
  "heap \<Rightarrow> int list \<Rightarrow> INDEXNode list \<Rightarrow> (INDEXNode \<times> int \<times> INDEXNode \<times> heap) option" where
  "split_internal h ks cs =
     (case calloc h of
        None \<Rightarrow> None
      | Some (b, h') \<Rightarrow>
          (let mid = INDEX_ORDER div 2
           in Some (Inner (take mid ks) (take (mid + 1) cs), ks ! mid,
                    Inner (drop (mid + 1) ks) (drop (mid + 1) cs), h')))"

text \<open>
  \<open>insert_recursive\<close>: the node after the insertion, the \<open>InsertResult\<close> (promoted key and
  right child, when the node split) and the heap.
\<close>

function insert_recursive ::
  "heap \<Rightarrow> INDEXNode \<Rightarrow> int \<Rightarrow> RowLocation \<Rightarrow>
     (INDEXNode \<times> (int \<times> INDEXNode) option \<times> heap) option" where
  "insert_recursive h (Leaf a es nx) key loc =
     (let p = shift_from (map fst es) (length es) key;
          es' = insert_at p (key, loc) es
      in if length es' = INDEX_ORDER
         then (case split_leaf h a es' nx of
                 None \<Rightarrow> None
               | Some (left, new_key, right, h') \<Rightarrow> Some (left, Some (new_key, right), h'))
         else Some (Leaf a es' nx, None, h))"
| "insert_recursive h (Inner ks cs) key loc =
     (let i = child_index ks key in
      if i < length cs
      then (case insert_recursive h (cs ! i) key loc of
              None \<Rightarrow> None
            | Some (c, None, h') \<Rightarrow> Some (Inner ks (cs[i := c]), None, h')
            | Some (c, Some (promoted, right), h') \<Rightarrow>
                (let p = shift_from ks (length ks) promoted;
                     ks' = insert_at p promoted ks;
                     cs' = insert_at (p + 1) right (cs[i := c])
                 in if length ks' = INDEX_ORDER
                    then (case split_internal h' ks' cs' of
                            None \<Rightarrow> None
                          | Some (left, new_key, rt, h'') \<Rightarrow> Some (left, Some (new_key, rt), h''))
                    else Some (Inner ks' cs', None, h')))
      else None)"
  by pat_completeness auto
termination
  by (relation "measure (\<lambda>(h, t, key, loc). size t)") (auto simp: termination_simp size_child)

definition INDEX_create :: "heap \<Rightarrow> (INDEX option \<times> heap)" where
  "INDEX_create h =
     (case calloc h of
        None \<Rightarrow> (None, h)
      | Some (_, h1) \<Rightarrow>
          (case calloc h1 of
             None \<Rightarrow> (None, h1)
           | Some (a, h2) \<Rightarrow> (Some \<lparr>root = Leaf a [] None, node_count = 1\<rparr>, h2)))"

definition INDEX_insert ::
  "heap \<Rightarrow> INDEX \<Rightarrow> int \<Rightarrow> RowLocation \<Rightarrow> (INDEX \<times> INDEXResult \<times> heap) option" where
  "INDEX_insert h tree key loc =
     (case insert_recursive h (root tree) key loc of
        None \<Rightarrow> None
      | Some (t, None, h') \<Rightarrow>
          Some (tree\<lparr>root := t, node_count := node_count tree + 1\<rparr>, INDEX_OK, h')
      | Some (t, Some (promoted, right), h') \<Rightarrow>
          (case calloc h' of
             None \<Rightarrow> Some (tree\<lparr>root := t\<rparr>, INDEX_ERROR, h')
           | Some (_, h'') \<Rightarrow>
               Some (tree\<lparr>root := Inner [promoted] [t, right],
                          node_count := node_count tree + 1 + 1\<rparr>, INDEX_OK, h'')))"

text \<open>\<open>for (i = 0; i < num_keys; i++) if (keys[i] == key) ...\<close>: the first match in a leaf.\<close>

fun scan_leaf :: "entry list \<Rightarrow> int \<Rightarrow> nat \<Rightarrow> nat option" where
  "scan_leaf [] key i = None"
| "scan_leaf (e # es) key i = (if fst e = key then Some i else scan_leaf es key (Suc i))"

definition INDEX_search ::
  "INDEX \<Rightarrow> int \<Rightarrow> (INDEXResult \<times> RowLocation option) option" where
  "INDEX_search tree key =
     (case find_leaf (root tree) key of
        Some (Leaf a es nx) \<Rightarrow>
          (case scan_leaf es key 0 of
             Some i \<Rightarrow> Some (INDEX_OK, Some (snd (es ! i)))
           | None \<Rightarrow> Some (INDEX_NOT_FOUND, None))
      | _ \<Rightarrow> None)"

text \<open>
  \<open>INDEX_delete\<close> changes the leaf that \<open>find_leaf\<close> returns in place. \<open>at_leaf\<close> descends the
  same way and puts the changed leaf back.
\<close>

function at_leaf ::
  "(entry list \<Rightarrow> entry list \<times> INDEXResult) \<Rightarrow> INDEXNode \<Rightarrow> int \<Rightarrow> (INDEXNode \<times> INDEXResult) option" where
  "at_leaf f (Leaf a es nx) key = (case f es of (es', r) \<Rightarrow> Some (Leaf a es' nx, r))"
| "at_leaf f (Inner ks cs) key =
     (let i = child_index ks key in
      if i < length cs
      then (case at_leaf f (cs ! i) key of
              None \<Rightarrow> None
            | Some (c, r) \<Rightarrow> Some (Inner ks (cs[i := c]), r))
      else None)"
  by pat_completeness auto
termination
  by (relation "measure (\<lambda>(f, t, key). size t)") (auto simp: termination_simp size_child)

text \<open>The shift loop \<open>for (j = i; j < num_keys - 1; j++)\<close> removes cell \<open>i\<close>.\<close>

definition remove_at :: "nat \<Rightarrow> 'a list \<Rightarrow> 'a list" where
  "remove_at i xs = take i xs @ drop (Suc i) xs"

definition delete_in_leaf :: "int \<Rightarrow> entry list \<Rightarrow> entry list \<times> INDEXResult" where
  "delete_in_leaf key es =
     (case scan_leaf es key 0 of
        Some i \<Rightarrow> (remove_at i es, INDEX_OK)
      | None \<Rightarrow> (es, INDEX_NOT_FOUND))"

definition INDEX_delete :: "INDEX \<Rightarrow> int \<Rightarrow> (INDEX \<times> INDEXResult) option" where
  "INDEX_delete tree key =
     (case at_leaf (delete_in_leaf key) (root tree) key of
        None \<Rightarrow> None
      | Some (t, r) \<Rightarrow> Some (tree\<lparr>root := t\<rparr>, r))"

text \<open>
  \<open>INDEX_print_leaves\<close>: descend to the leftmost leaf, then follow \<open>next\<close>. A \<open>next\<close> that
  names no leaf of the tree is a dangling pointer. The result is what is printed: the keys
  of each leaf passed.
\<close>

fun leaves :: "INDEXNode \<Rightarrow> (nat \<times> entry list \<times> nat option) list" where
  "leaves (Leaf a es nx) = [(a, es, nx)]"
| "leaves (Inner ks cs) = concat (map leaves cs)"

fun leftmost :: "INDEXNode \<Rightarrow> nat option" where
  "leftmost (Leaf a es nx) = Some a"
| "leftmost (Inner ks []) = None"
| "leftmost (Inner ks (c # cs)) = leftmost c"

partial_function (option) walk_leaves ::
  "(nat \<times> entry list \<times> nat option) list \<Rightarrow> nat option \<Rightarrow> int list list \<Rightarrow> int list list option" where
  "walk_leaves ls p out =
     (case p of
        None \<Rightarrow> Some out
      | Some a \<Rightarrow>
          (case map_of ls a of
             None \<Rightarrow> None
           | Some (es, nx) \<Rightarrow> walk_leaves ls nx (out @ [map fst es])))"

definition INDEX_print_leaves :: "INDEX \<Rightarrow> int list list option" where
  "INDEX_print_leaves tree =
     (case leftmost (root tree) of
        None \<Rightarrow> None
      | Some a \<Rightarrow> walk_leaves (leaves (root tree)) (Some a) [])"

end
