(* ===== verification/IndexInv.thy ===== *)
theory IndexInv imports Index begin

text \<open>
  The invariant of the B+ tree and what each operation does to the tree's entries. The
  invariant is the search-tree order with strict separators, node sizes below the order,
  equal depth of all leaves, and a leaf chain that lists the leaves from left to right.
\<close>

text \<open>Positions: both linear searches find the same place in a sorted array.\<close>

lemma shift_from_filter:
  "sorted_wrt (<) ks \<Longrightarrow> i \<le> length ks \<Longrightarrow>
     shift_from ks i m = length (filter (\<lambda>k. k \<le> m) (take i ks))"
proof (induction i)
  case (Suc i)
  then have i: "i < length ks" by simp
  show ?case
  proof (cases "ks ! i > m")
    case True
    then show ?thesis using Suc by (simp add: take_Suc_conv_app_nth)
  next
    case False
    have "k \<le> m" if k: "k \<in> set (take i ks)" for k
    proof -
      obtain j where "j < i" "k = ks ! j" using k i by (auto simp: in_set_conv_nth)
      then have "k < ks ! i" using Suc.prems(1) i by (simp add: sorted_wrt_nth_less)
      then show ?thesis using False by simp
    qed
    then have "filter (\<lambda>k. k \<le> m) (take i ks) = take i ks" by (simp add: filter_id_conv)
    then show ?thesis using False i by (simp add: take_Suc_conv_app_nth)
  qed
qed simp

lemma child_index_filter:
  "sorted_wrt (<) ks \<Longrightarrow> child_index ks m = length (filter (\<lambda>k. k \<le> m) ks)"
proof (induction ks)
  case (Cons k ks)
  have "filter (\<lambda>k. k \<le> m) ks = []" if "\<not> k \<le> m"
    using Cons.prems that by (auto simp: filter_empty_conv)
  then show ?case using Cons by auto
qed simp

lemma shift_from_child_index:
  "sorted_wrt (<) ks \<Longrightarrow> shift_from ks (length ks) m = child_index ks m"
  by (simp add: shift_from_filter child_index_filter)

lemma child_index_le: "child_index ks m \<le> length ks"
  by (induction ks) auto

text \<open>
  Bounds. \<open>None\<close> is no bound. The entries of a subtree lie in \<open>[lo, hi)\<close>, and separators
  strictly between.
\<close>

definition above :: "int option \<Rightarrow> int \<Rightarrow> bool" where
  "above lo x \<longleftrightarrow> (case lo of None \<Rightarrow> True | Some l \<Rightarrow> l \<le> x)"

definition strictly_above :: "int option \<Rightarrow> int \<Rightarrow> bool" where
  "strictly_above lo x \<longleftrightarrow> (case lo of None \<Rightarrow> True | Some l \<Rightarrow> l < x)"

definition below :: "int \<Rightarrow> int option \<Rightarrow> bool" where
  "below x hi \<longleftrightarrow> (case hi of None \<Rightarrow> True | Some h \<Rightarrow> x < h)"

lemma bound_simps [simp]:
  "above None x" "above (Some l) x \<longleftrightarrow> l \<le> x"
  "strictly_above None x" "strictly_above (Some l) x \<longleftrightarrow> l < x"
  "below x None" "below x (Some h) \<longleftrightarrow> x < h"
  by (simp_all add: above_def strictly_above_def below_def)

lemma bound_trans:
  "above lo x \<Longrightarrow> x \<le> y \<Longrightarrow> above lo y" "above lo x \<Longrightarrow> x < y \<Longrightarrow> strictly_above lo y"
  "below y hi \<Longrightarrow> x \<le> y \<Longrightarrow> below x hi" "strictly_above lo x \<Longrightarrow> x \<le> y \<Longrightarrow> strictly_above lo y"
  "strictly_above lo x \<Longrightarrow> above lo x"
  by (cases lo; cases hi; simp)+

fun kids :: "(int option \<Rightarrow> INDEXNode \<Rightarrow> int option \<Rightarrow> bool) \<Rightarrow>
    int option \<Rightarrow> int list \<Rightarrow> INDEXNode list \<Rightarrow> int option \<Rightarrow> bool" where
  "kids P lo [] [c] hi \<longleftrightarrow> P lo c hi"
| "kids P lo (k # ks) (c # cs) hi \<longleftrightarrow>
     strictly_above lo k \<and> below k hi \<and> P lo c (Some k) \<and> kids P (Some k) ks cs hi"
| "kids P lo ks cs hi \<longleftrightarrow> False"

primrec tree_inv :: "nat \<Rightarrow> int option \<Rightarrow> INDEXNode \<Rightarrow> int option \<Rightarrow> bool" where
  "tree_inv 0 = (\<lambda>lo t hi. case t of
     Leaf a es nx \<Rightarrow> length es < INDEX_ORDER \<and> sorted_wrt (<) (map fst es) \<and>
                      (\<forall>e \<in> set es. above lo (fst e) \<and> below (fst e) hi)
   | Inner ks cs \<Rightarrow> False)"
| "tree_inv (Suc d) = (\<lambda>lo t hi. case t of
     Leaf a es nx \<Rightarrow> False
   | Inner ks cs \<Rightarrow> ks \<noteq> [] \<and> length ks < INDEX_ORDER \<and> kids (tree_inv d) lo ks cs hi)"

definition flat :: "INDEXNode \<Rightarrow> entry list" where
  "flat t = concat (map (\<lambda>(a, es, nx). es) (leaves t))"

lemma flat_simps [simp]:
  "flat (Leaf a es nx) = es" "flat (Inner ks cs) = concat (map flat cs)"
proof -
  show "flat (Inner ks cs) = concat (map flat cs)"
    by (induction cs) (simp_all add: flat_def)
qed (simp add: flat_def)

lemma kids_length: "kids P lo ks cs hi \<Longrightarrow> length cs = Suc (length ks)"
  by (induction P lo ks cs hi rule: kids.induct) auto

lemma kids_keys:
  "kids P lo ks cs hi \<Longrightarrow>
     sorted_wrt (<) ks \<and> (\<forall>k \<in> set ks. strictly_above lo k \<and> below k hi)"
proof (induction P lo ks cs hi rule: kids.induct)
  case (2 P lo k ks c cs hi)
  then show ?case by (auto intro: bound_trans)
qed auto

text \<open>
  Descending to the child for a key, with the bounds that hold there; the child can be
  replaced, or split in two around a new separator.
\<close>

lemma kids_focus:
  assumes "kids P lo ks cs hi" and "above lo key" and "below key hi"
  shows "\<exists>lo' hi'. child_index ks key < length cs \<and> P lo' (cs ! child_index ks key) hi' \<and> above lo' key \<and> below key hi' \<and>
           (\<forall>c. P lo' c hi' \<longrightarrow> kids P lo ks (cs[child_index ks key := c]) hi) \<and>
           (\<forall>c m r. P lo' c (Some m) \<longrightarrow> P (Some m) r hi' \<longrightarrow> strictly_above lo' m \<longrightarrow> below m hi' \<longrightarrow>
              child_index ks m = child_index ks key \<and>
              kids P lo (insert_at (child_index ks key) m ks) (insert_at (Suc (child_index ks key)) r (cs[child_index ks key := c])) hi)"
  using assms
proof (induction P lo ks cs hi rule: kids.induct)
  case (1 P lo c hi)
  then show ?case
    by - (rule exI [of _ lo], rule exI [of _ hi], simp add: insert_at_def)
next
  case (2 P lo k ks c cs hi)
  show ?case
  proof (cases "k \<le> key")
    case False
    note pr = "2.prems" [simplified]
    show ?thesis using pr False
      by - (rule exI [of _ lo], rule exI [of _ "Some k"],
        auto simp: insert_at_def intro: bound_trans)
  next
    case True
    let ?j = "child_index ks key"
    obtain lo' hi' where IH: "?j < length cs" "P lo' (cs ! ?j) hi'" "above lo' key" "below key hi'"
      "\<And>c. P lo' c hi' \<Longrightarrow> kids P (Some k) ks (cs[?j := c]) hi"
      "\<And>c m r. P lo' c (Some m) \<Longrightarrow> P (Some m) r hi' \<Longrightarrow> strictly_above lo' m \<Longrightarrow> below m hi' \<Longrightarrow>
          child_index ks m = ?j \<and> kids P (Some k) (insert_at ?j m ks) (insert_at (Suc ?j) r (cs[?j := c])) hi"
      using "2.IH" "2.prems" True by auto
    have km: "k \<le> m" if "P lo' c (Some m)" "P (Some m) r hi'" "strictly_above lo' m" "below m hi'"
      for c m r
    proof -
      have "kids P (Some k) (insert_at ?j m ks) (insert_at (Suc ?j) r (cs[?j := c])) hi"
        using IH(6) [OF that] by simp
      then have "\<forall>x \<in> set (insert_at ?j m ks). k < x" using kids_keys by fastforce
      then show ?thesis by (simp add: insert_at_def)
    qed
    show ?thesis using IH True "2.prems" km
      by - (rule exI [of _ lo'], rule exI [of _ hi'], auto simp: insert_at_def)
  qed
qed auto

lemma tree_inv_flat:
  "tree_inv d lo t hi \<Longrightarrow>
     sorted_wrt (<) (map fst (flat t)) \<and> (\<forall>e \<in> set (flat t). above lo (fst e) \<and> below (fst e) hi)"
proof (induction d arbitrary: lo t hi)
  case 0
  then show ?case by (auto split: INDEXNode.splits)
next
  case (Suc d)
  then obtain ks cs where t: "t = Inner ks cs" "kids (tree_inv d) lo ks cs hi"
    by (auto split: INDEXNode.splits)
  have "sorted_wrt (<) (map fst (concat (map flat cs))) \<and>
      (\<forall>e \<in> set (concat (map flat cs)). above lo (fst e) \<and> below (fst e) hi)"
    if "kids P lo ks cs hi" "P = tree_inv d" for P lo ks cs hi
    using that
  proof (induction P lo ks cs hi rule: kids.induct)
    case (1 P lo c hi)
    then show ?case using Suc.IH by simp
  next
    case (2 P lo k ks c cs hi)
    have c: "sorted_wrt (<) (map fst (flat c))" "\<And>e. e \<in> set (flat c) \<Longrightarrow> above lo (fst e) \<and> fst e < k"
      using Suc.IH [of lo c "Some k"] "2.prems" by auto
    have r: "sorted_wrt (<) (map fst (concat (map flat cs)))"
      "\<And>e. e \<in> set (concat (map flat cs)) \<Longrightarrow> k \<le> fst e \<and> below (fst e) hi"
      using "2.IH" "2.prems" by auto
    have "fst x < fst y" if "x \<in> set (flat c)" "y \<in> set (concat (map flat cs))" for x y
      using c(2) [OF that(1)] r(2) [OF that(2)] by simp
    then show ?case using c r "2.prems"
      by (auto simp: sorted_wrt_append intro: bound_trans) (meson bound_trans less_imp_le)+
  qed auto
  then show ?case using t by simp
qed

text \<open>
  The abstract insertion into a sorted list of entries, and where the leaf array and the
  subtrees before and after the chosen child stand to it.
\<close>

definition ins_entry :: "entry \<Rightarrow> entry list \<Rightarrow> entry list" where
  "ins_entry x es = takeWhile (\<lambda>e. fst e < fst x) es @ x # dropWhile (\<lambda>e. fst e < fst x) es"

lemma ins_entry_middle:
  assumes "\<And>e. e \<in> set xs \<Longrightarrow> fst e < fst x" and "\<And>e. e \<in> set zs \<Longrightarrow> fst x \<le> fst e"
  shows "ins_entry x (xs @ ys @ zs) = xs @ ins_entry x ys @ zs"
proof -
  let ?P = "\<lambda>e. fst e < fst x"
  have z: "takeWhile ?P zs = []" "dropWhile ?P zs = zs"
    using assms(2) by (cases zs; fastforce)+
  have "takeWhile ?P (ys @ zs) = takeWhile ?P ys" "dropWhile ?P (ys @ zs) = dropWhile ?P ys @ zs"
    using z by (induction ys) auto
  moreover have "takeWhile ?P (xs @ ws) = xs @ takeWhile ?P ws"
    "dropWhile ?P (xs @ ws) = dropWhile ?P ws" for ws
    using assms(1) by (auto simp: takeWhile_append2 dropWhile_append2)
  ultimately show ?thesis by (simp add: ins_entry_def)
qed

lemma ins_entry_set [simp]: "set (ins_entry x es) = insert x (set es)"
  by (simp add: ins_entry_def)
    (metis set_append takeWhile_dropWhile_id)

lemma length_ins_entry [simp]: "length (ins_entry x es) = Suc (length es)"
  by (simp add: ins_entry_def)
    (metis length_append takeWhile_dropWhile_id)

lemma sorted_ins_entry:
  assumes "sorted_wrt (<) (map fst es)" and "fst x \<notin> fst ` set es"
  shows "sorted_wrt (<) (map fst (ins_entry x es))"
  using assms
proof (induction es)
  case (Cons e es)
  then show ?case
    by (cases "fst e < fst x") (auto simp: ins_entry_def dest!: set_takeWhileD set_dropWhileD)
qed (simp add: ins_entry_def)

lemma leaf_insert_at:
  assumes "sorted_wrt (<) (map fst es)" and "key \<notin> fst ` set es"
  shows "insert_at (shift_from (map fst es) (length es) key) (key, loc) es = ins_entry (key, loc) es"
proof -
  have "child_index (map fst es) key = length (takeWhile (\<lambda>e. fst e < key) es)"
    using assms(2) by (induction es) auto
  then have "shift_from (map fst es) (length es) key = length (takeWhile (\<lambda>e. fst e < key) es)"
    using shift_from_child_index [OF assms(1), of key] by simp
  then show ?thesis
    by (simp add: insert_at_def ins_entry_def takeWhile_eq_take [symmetric] dropWhile_eq_drop [symmetric])
qed

text \<open>
  The leaf chain: each leaf points to the next one and the last to \<open>e\<close>. An insertion keeps
  the first address, keeps the chain, and only adds addresses from \<open>calloc\<close>.
\<close>

type_synonym leaf_info = "nat \<times> entry list \<times> nat option"

definition first_addr :: "leaf_info list \<Rightarrow> nat option \<Rightarrow> nat option" where
  "first_addr ls e = (case ls of [] \<Rightarrow> e | l # _ \<Rightarrow> Some (fst l))"

fun linked :: "leaf_info list \<Rightarrow> nat option \<Rightarrow> bool" where
  "linked [] e \<longleftrightarrow> True"
| "linked ((a, es, nx) # ls) e \<longleftrightarrow> nx = first_addr ls e \<and> linked ls e"

definition fresh_for :: "heap \<Rightarrow> leaf_info list \<Rightarrow> bool" where
  "fresh_for h ls \<longleftrightarrow> distinct (map fst ls) \<and> (\<forall>l \<in> set ls. fst l < brk h)"

definition leaf_ext :: "heap \<Rightarrow> leaf_info list \<Rightarrow> leaf_info list \<Rightarrow> heap \<Rightarrow> bool" where
  "leaf_ext h L L' h' \<longleftrightarrow>
     (\<forall>e. first_addr L' e = first_addr L e) \<and> (\<forall>e. linked L e \<longrightarrow> linked L' e) \<and>
     brk h \<le> brk h' \<and> fst ` set L' \<subseteq> fst ` set L \<union> {brk h ..< brk h'} \<and>
     (fresh_for h L \<longrightarrow> distinct (map fst L'))"

lemma first_addr_append [simp]: "first_addr (xs @ ys) e = first_addr xs (first_addr ys e)"
  by (cases xs) (simp_all add: first_addr_def)

lemma linked_append [simp]:
  "linked (xs @ ys) e \<longleftrightarrow> linked xs (first_addr ys e) \<and> linked ys e"
  by (induction xs) auto

lemma leaf_ext_context:
  assumes "leaf_ext h M M' h'"
  shows "leaf_ext h (X @ M @ Y) (X @ M' @ Y) h'"
proof -
  have "distinct (map fst (X @ M' @ Y))" if f: "fresh_for h (X @ M @ Y)"
  proof -
    have m: "distinct (map fst M')" using assms f by (auto simp: leaf_ext_def fresh_for_def)
    have xy: "distinct (map fst X)" "distinct (map fst Y)" "fst ` set X \<inter> fst ` set Y = {}"
      and old: "(fst ` set X \<union> fst ` set Y) \<inter> fst ` set M = {}"
      and lt: "fst ` set X \<union> fst ` set Y \<subseteq> {..< brk h}"
      using f by (auto simp: fresh_for_def)
    have "fst ` set M' \<subseteq> fst ` set M \<union> {brk h ..< brk h'}"
      using assms by (simp add: leaf_ext_def)
    moreover have "{..< brk h} \<inter> {brk h ..< brk h'} = {}" by auto
    ultimately have "(fst ` set X \<union> fst ` set Y) \<inter> fst ` set M' = {}"
      using old lt by blast
    then show ?thesis using m xy by (simp add: Int_Un_distrib2 Int_Un_distrib) blast
  qed
  then show ?thesis using assms unfolding leaf_ext_def by auto
qed

lemma leaf_ext_mono:
  assumes "leaf_ext h L L' h'" and "brk h' \<le> brk h''"
  shows "leaf_ext h L L' h''"
proof -
  have "{brk h ..< brk h'} \<subseteq> {brk h ..< brk h''}" using assms(2) by auto
  then show ?thesis using assms unfolding leaf_ext_def by (meson le_trans Un_mono order_refl subset_trans)
qed

lemma leaf_ext_fresh:
  "leaf_ext h L L' h' \<Longrightarrow> fresh_for h L \<Longrightarrow> fresh_for h' L'"
  unfolding leaf_ext_def fresh_for_def by (auto; fastforce)

lemma calloc_Some:
  "calloc h = Some (b, h') \<Longrightarrow> b = brk h \<and> brk h' = Suc (brk h) \<and> (avail h = None \<longrightarrow> avail h' = None)"
  "calloc h = None \<Longrightarrow> avail h \<noteq> None"
  by (auto simp: calloc_def split: option.splits nat.splits)

text \<open>What \<open>insert_recursive\<close> promises on a subtree within \<open>[lo, hi)\<close>.\<close>

definition insert_post ::
  "nat \<Rightarrow> int option \<Rightarrow> int option \<Rightarrow> heap \<Rightarrow> INDEXNode \<Rightarrow> entry \<Rightarrow>
     (INDEXNode \<times> (int \<times> INDEXNode) option \<times> heap) option \<Rightarrow> bool" where
  "insert_post d lo hi h t x res \<longleftrightarrow>
     (case res of
        None \<Rightarrow> avail h \<noteq> None
      | Some (t', None, h') \<Rightarrow>
          tree_inv d lo t' hi \<and> flat t' = ins_entry x (flat t) \<and>
          leaf_ext h (leaves t) (leaves t') h' \<and> (avail h = None \<longrightarrow> avail h' = None)
      | Some (t', Some (m, r), h') \<Rightarrow>
          tree_inv d lo t' (Some m) \<and> tree_inv d (Some m) r hi \<and>
          strictly_above lo m \<and> below m hi \<and> flat t' @ flat r = ins_entry x (flat t) \<and>
          leaf_ext h (leaves t) (leaves t' @ leaves r) h' \<and> (avail h = None \<longrightarrow> avail h' = None))"

lemma length4: "length xs = 4 \<Longrightarrow> \<exists>a b c d. xs = [a, b, c, d]"
  by (cases xs; cases "tl xs"; cases "tl (tl xs)"; cases "tl (tl (tl xs))"; auto)

lemma length5: "length xs = 5 \<Longrightarrow> \<exists>a b c d e. xs = [a, b, c, d, e]"
  using length4 [of "tl xs"] by (cases xs) auto

lemma split_leaf_post:
  assumes len: "length es' = 4" and sorted: "sorted_wrt (<) (map fst es')"
    and rng: "\<And>e. e \<in> set es' \<Longrightarrow> above lo (fst e) \<and> below (fst e) hi"
    and x: "es' = ins_entry x es"
  shows "insert_post 0 lo hi h (Leaf a es nx) x
           (case split_leaf h a es' nx of None \<Rightarrow> None
            | Some (left, new_key, right, h') \<Rightarrow> Some (left, Some (new_key, right), h'))"
proof (cases "calloc h")
  case None
  then show ?thesis by (simp add: split_leaf_def insert_post_def calloc_Some)
next
  case (Some bh)
  obtain b h' where bh: "calloc h = Some (b, h')" using Some by (cases bh) auto
  obtain e1 e2 e3 e4 where es: "es' = [e1, e2, e3, e4]" using length4 [OF len] by blast
  have "leaf_ext h [(a, es, nx)] [(a, [e1, e2], Some b), (b, [e3, e4], nx)] h'"
    using calloc_Some(1) [OF bh] by (auto simp: leaf_ext_def first_addr_def fresh_for_def)
  moreover have ord: "fst e1 < fst e2" "fst e2 < fst e3" "fst e1 < fst e3" "fst e3 < fst e4"
    using sorted by (simp_all add: es)
  moreover have bd: "above lo (fst e1)" "above lo (fst e2)" "below (fst e3) hi" "below (fst e4) hi"
    using rng [of e1] rng [of e2] rng [of e3] rng [of e4] by (simp_all add: es)
  moreover have "strictly_above lo (fst e3)"
    using bd(1) ord(3) by (rule bound_trans)
  moreover have "split_leaf h a es' nx =
      Some (Leaf a [e1, e2] (Some b), fst e3, Leaf b [e3, e4] nx, h')"
    using bh by (simp add: split_leaf_def es)
  moreover have "ins_entry x es = [e1, e2, e3, e4]" using x es by simp
  ultimately show ?thesis
    using calloc_Some(1) [OF bh] by (simp add: insert_post_def)
qed

lemma insert_leaf_post:
  assumes "tree_inv 0 lo (Leaf a es nx) hi" and "above lo key" and "below key hi"
    and "key \<notin> fst ` set es"
  shows "insert_post 0 lo hi h (Leaf a es nx) (key, loc) (insert_recursive h (Leaf a es nx) key loc)"
proof -
  let ?es = "ins_entry (key, loc) es"
  have sorted: "sorted_wrt (<) (map fst es)" and len: "length es < 4"
    and rng: "\<And>e. e \<in> set es \<Longrightarrow> above lo (fst e) \<and> below (fst e) hi"
    using assms(1) by auto
  note s' = sorted_ins_entry [OF sorted, of "(key, loc)"]
  have run: "insert_recursive h (Leaf a es nx) key loc =
      (if length ?es = 4
       then (case split_leaf h a ?es nx of None \<Rightarrow> None
             | Some (left, new_key, right, h') \<Rightarrow> Some (left, Some (new_key, right), h'))
       else Some (Leaf a ?es nx, None, h))"
    unfolding insert_recursive.simps Let_def leaf_insert_at [OF sorted assms(4)] INDEX_ORDER_eq
    by (rule refl)
  have rng': "\<And>e. e \<in> set ?es \<Longrightarrow> above lo (fst e) \<and> below (fst e) hi"
    using rng assms(2,3) by auto
  show ?thesis
  proof (cases "length ?es = 4")
    case True
    then show ?thesis
      unfolding run using split_leaf_post [OF True _ rng'] s' assms(4) by simp
  next
    case False
    have "leaf_ext h [(a, es, nx)] [(a, ?es, nx)] h"
      by (auto simp: leaf_ext_def first_addr_def)
    then show ?thesis
      unfolding run using False len s' rng assms(2-4) by (simp add: insert_post_def)
  qed
qed

lemma kids_split_internal:
  assumes "kids P lo ks cs hi" and "length ks = 4"
  shows "kids P lo (take 2 ks) (take 3 cs) (Some (ks ! 2))"
    and "kids P (Some (ks ! 2)) (drop 3 ks) (drop 3 cs) hi"
    and "strictly_above lo (ks ! 2)" and "below (ks ! 2) hi"
proof -
  obtain a b c d where ks: "ks = [a, b, c, d]" using length4 [OF assms(2)] by blast
  obtain v w x y z where cs: "cs = [v, w, x, y, z]"
    using length5 [of cs] kids_length [OF assms(1)] assms(2) by auto
  show "kids P lo (take 2 ks) (take 3 cs) (Some (ks ! 2))"
    and "kids P (Some (ks ! 2)) (drop 3 ks) (drop 3 cs) hi"
    and "strictly_above lo (ks ! 2)" and "below (ks ! 2) hi"
    using assms(1) by (auto simp: ks cs intro: bound_trans)
qed

lemma kids_child:
  "kids P lo ks cs hi \<Longrightarrow> c \<in> set cs \<Longrightarrow> \<exists>l h. P l c h \<and> (\<forall>x. above l x \<longrightarrow> above lo x)"
proof (induction P lo ks cs hi rule: kids.induct)
  case (2 P lo k ks c' cs hi)
  show ?case
  proof (cases "c = c'")
    case True
    then show ?thesis using "2.prems" by auto
  next
    case False
    then obtain l h where "P l c h" "\<forall>x. above l x \<longrightarrow> k \<le> x" using "2.IH" "2.prems" by auto
    moreover have "above lo x" if "k \<le> x" for x
      using "2.prems" that by (auto intro: bound_trans)
    ultimately show ?thesis by blast
  qed
qed auto

text \<open>The subtrees left and right of the chosen child hold smaller and larger keys.\<close>

lemma kids_around:
  assumes "kids (tree_inv d) lo ks cs hi" and "above lo key" and "below key hi"
  defines "i \<equiv> child_index ks key"
  shows "e \<in> set (concat (map flat (take i cs))) \<Longrightarrow> fst e < key"
    and "e \<in> set (concat (map flat (drop (Suc i) cs))) \<Longrightarrow> key < fst e"
proof -
  have "(\<forall>e \<in> set (concat (map flat (take (child_index ks key) cs))). fst e < key) \<and>
        (\<forall>e \<in> set (concat (map flat (drop (Suc (child_index ks key)) cs))). key < fst e)"
    if "kids P lo ks cs hi" "P = tree_inv d" "above lo key" "below key hi" for P lo ks cs hi
    using that
  proof (induction P lo ks cs hi rule: kids.induct)
    case (2 P lo k ks c cs hi)
    show ?case
    proof (cases "k \<le> key")
      case True
      then have "\<forall>e \<in> set (flat c). fst e < key"
        using tree_inv_flat [of d lo c "Some k"] "2.prems" by fastforce
      then show ?thesis using "2.IH" "2.prems" True by auto
    next
      case False
      have "k \<le> fst e" if e: "e \<in> set (concat (map flat cs))" for e
      proof -
        obtain c' where "c' \<in> set cs" "e \<in> set (flat c')" using e by auto
        then show ?thesis
          using kids_child [of "tree_inv d" "Some k" ks cs hi c'] tree_inv_flat [of d _ c'] "2.prems"
          by fastforce
      qed
      then have "key < fst e" if "e \<in> set (concat (map flat cs))" for e
        using False that by fastforce
      then show ?thesis using False by simp
    qed
  qed auto
  from this [OF assms(1) refl assms(2,3)]
  show "e \<in> set (concat (map flat (take i cs))) \<Longrightarrow> fst e < key"
    and "e \<in> set (concat (map flat (drop (Suc i) cs))) \<Longrightarrow> key < fst e"
    unfolding i_def by blast+
qed

lemma list_focus: "i < length xs \<Longrightarrow> xs = take i xs @ xs ! i # drop (Suc i) xs"
  by (rule id_take_nth_drop)

lemma concat_map_focus:
  "i < length cs \<Longrightarrow>
     concat (map f cs) = concat (map f (take i cs)) @ f (cs ! i) @ concat (map f (drop (Suc i) cs))"
  by (subst (1) list_focus [of i cs]) simp_all

lemma concat_map_update:
  "i < length cs \<Longrightarrow>
     concat (map f (cs[i := c])) = concat (map f (take i cs)) @ f c @ concat (map f (drop (Suc i) cs))"
  by (simp add: upd_conv_take_nth_drop)

lemma concat_map_split:
  "i < length cs \<Longrightarrow>
     concat (map f (insert_at (Suc i) r (cs[i := c]))) =
       concat (map f (take i cs)) @ (f c @ f r) @ concat (map f (drop (Suc i) cs))"
  by (simp add: insert_at_def upd_conv_take_nth_drop take_Suc_conv_app_nth min_def)

lemma split_internal_post:
  assumes "kids (tree_inv d) lo ks cs hi" and "length ks = 4"
    and "concat (map flat cs) = ins_entry x (flat t)"
    and "leaf_ext h (leaves t) (concat (map leaves cs)) h'" and "avail h = None \<longrightarrow> avail h' = None"
  shows "insert_post (Suc d) lo hi h t x
           (case split_internal h' ks cs of None \<Rightarrow> None
            | Some (left, new_key, rt, h'') \<Rightarrow> Some (left, Some (new_key, rt), h''))"
proof (cases "calloc h'")
  case None
  then show ?thesis using assms(5) calloc_Some(2) [OF None]
    by (auto simp: split_internal_def insert_post_def)
next
  case (Some bh)
  obtain b h'' where bh: "calloc h' = Some (b, h'')" using Some by (cases bh) auto
  note k = kids_split_internal [OF assms(1,2)]
  let ?l = "Inner (take 2 ks) (take 3 cs)" and ?r = "Inner (drop 3 ks) (drop 3 cs)"
  have run: "split_internal h' ks cs = Some (?l, ks ! 2, ?r, h'')"
    using bh by (simp add: split_internal_def Let_def)
  have fl: "flat ?l @ flat ?r = ins_entry x (flat t)"
    using assms(3) by (simp add: concat_append [symmetric] map_append [symmetric] del: concat_append map_append)
  have "leaves ?l @ leaves ?r = concat (map leaves cs)"
    by (simp add: concat_append [symmetric] map_append [symmetric] del: concat_append map_append)
  then have "leaf_ext h (leaves t) (leaves ?l @ leaves ?r) h''"
    using leaf_ext_mono [OF assms(4)] calloc_Some(1) [OF bh] by simp
  moreover have "tree_inv (Suc d) lo ?l (Some (ks ! 2))" "tree_inv (Suc d) (Some (ks ! 2)) ?r hi"
    using k(1,2) assms(2) by auto
  moreover have "avail h = None \<longrightarrow> avail h'' = None"
    using assms(5) calloc_Some(1) [OF bh] by simp
  ultimately show ?thesis
    unfolding run using k(3,4) fl
    by (simp add: insert_post_def del: tree_inv.simps flat_simps leaves.simps)
qed

lemma flat_focus:
  assumes "kids (tree_inv d) lo ks cs hi" and "above lo key" and "below key hi"
  defines "i \<equiv> child_index ks key"
  assumes "i < length cs" and "ys = ins_entry (key, loc) (flat (cs ! i))"
  shows "concat (map flat (take i cs)) @ ys @ concat (map flat (drop (Suc i) cs)) =
           ins_entry (key, loc) (concat (map flat cs))"
proof -
  let ?L = "concat (map flat (take i cs))" and ?R = "concat (map flat (drop (Suc i) cs))"
  note around = kids_around [OF assms(1-3)]
  have "ins_entry (key, loc) (?L @ flat (cs ! i) @ ?R) = ?L @ ins_entry (key, loc) (flat (cs ! i)) @ ?R"
    using around by (intro ins_entry_middle) (auto simp: i_def less_imp_le)
  then show ?thesis using assms(5,6) concat_map_focus [of i cs flat] by simp
qed

lemma insert_recursive_post:
  assumes "tree_inv d lo t hi" and "above lo key" and "below key hi" and "key \<notin> fst ` set (flat t)"
  shows "insert_post d lo hi h t (key, loc) (insert_recursive h t key loc)"
  using assms
proof (induction d arbitrary: lo t hi)
  case 0
  then obtain a es nx where "t = Leaf a es nx" by (auto split: INDEXNode.splits)
  then show ?case using 0 insert_leaf_post [of lo a es nx hi key h loc] by simp
next
  case (Suc d)
  obtain ks cs where t: "t = Inner ks cs" and kids: "kids (tree_inv d) lo ks cs hi"
    and len: "ks \<noteq> []" "length ks < 4"
    using Suc.prems(1) by (auto split: INDEXNode.splits)
  let ?i = "child_index ks key"
  obtain lo' hi' where f: "?i < length cs" "tree_inv d lo' (cs ! ?i) hi'" "above lo' key" "below key hi'"
    and repl: "\<And>c. tree_inv d lo' c hi' \<Longrightarrow> kids (tree_inv d) lo ks (cs[?i := c]) hi"
    and spl: "\<And>c m r. tree_inv d lo' c (Some m) \<Longrightarrow> tree_inv d (Some m) r hi' \<Longrightarrow>
        strictly_above lo' m \<Longrightarrow> below m hi' \<Longrightarrow> child_index ks m = ?i \<and>
        kids (tree_inv d) lo (insert_at ?i m ks) (insert_at (Suc ?i) r (cs[?i := c])) hi"
    using kids_focus [OF kids Suc.prems(2,3)] by blast
  have "key \<notin> fst ` set (flat (cs ! ?i))"
    using Suc.prems(4) f(1) by (auto simp: t image_def intro: nth_mem)
  note IH = Suc.IH [OF f(2-4) this]
  note fl = flat_focus [OF kids Suc.prems(2,3) f(1)]
  have lv: "leaf_ext h (leaves t) (concat (map leaves (take ?i cs)) @ ls @
      concat (map leaves (drop (Suc ?i) cs))) h'" if "leaf_ext h (leaves (cs ! ?i)) ls h'" for ls h'
    using leaf_ext_context [OF that] f(1) by (simp add: t concat_map_focus [of ?i cs leaves])
  show ?case
  proof (cases "insert_recursive h (cs ! ?i) key loc")
    case None
    then show ?thesis using IH f(1) by (simp add: t Let_def insert_post_def)
  next
    case (Some res)
    obtain c s h' where res: "res = (c, s, h')" by (cases res) auto
    note sub = Some [unfolded res]
    show ?thesis
    proof (cases s)
      case None
      have p: "tree_inv d lo' c hi'" "flat c = ins_entry (key, loc) (flat (cs ! ?i))"
        "leaf_ext h (leaves (cs ! ?i)) (leaves c) h'" "avail h = None \<longrightarrow> avail h' = None"
        using IH sub None by (auto simp: insert_post_def)
      have "insert_recursive h t key loc = Some (Inner ks (cs[?i := c]), None, h')"
        using sub None f(1) by (simp add: t Let_def)
      moreover have "tree_inv (Suc d) lo (Inner ks (cs[?i := c])) hi"
        using repl [OF p(1)] len by simp
      moreover have "flat (Inner ks (cs[?i := c])) = ins_entry (key, loc) (flat t)"
        using fl [OF p(2)] f(1) by (simp add: t concat_map_update)
      moreover have "leaf_ext h (leaves t) (leaves (Inner ks (cs[?i := c]))) h'"
        using lv [OF p(3)] f(1) by (simp add: concat_map_update)
      ultimately show ?thesis
        using p(4) by (simp add: insert_post_def del: tree_inv.simps flat_simps leaves.simps)
    next
      case (Some mr)
      obtain m r where mr: "s = Some (m, r)" using Some by (cases mr) auto
      have p: "tree_inv d lo' c (Some m)" "tree_inv d (Some m) r hi'" "strictly_above lo' m" "below m hi'"
        "flat c @ flat r = ins_entry (key, loc) (flat (cs ! ?i))"
        "leaf_ext h (leaves (cs ! ?i)) (leaves c @ leaves r) h'" "avail h = None \<longrightarrow> avail h' = None"
        using IH sub mr by (auto simp: insert_post_def)
      let ?ks = "insert_at ?i m ks" and ?cs = "insert_at (Suc ?i) r (cs[?i := c])"
      have pos: "shift_from ks (length ks) m = ?i"
        using shift_from_child_index [of ks m] kids_keys [OF kids] spl [OF p(1-4)] by simp
      have k: "kids (tree_inv d) lo ?ks ?cs hi" using spl [OF p(1-4)] by simp
      have run: "insert_recursive h t key loc =
          (if length ?ks = 4
           then (case split_internal h' ?ks ?cs of None \<Rightarrow> None
                 | Some (left, new_key, rt, h'') \<Rightarrow> Some (left, Some (new_key, rt), h''))
           else Some (Inner ?ks ?cs, None, h'))"
        using sub mr f(1) by (simp add: t Let_def pos)
      have fc: "concat (map flat ?cs) = ins_entry (key, loc) (flat t)"
        using fl [OF p(5)] f(1) by (simp add: t concat_map_split)
      have lc: "leaf_ext h (leaves t) (concat (map leaves ?cs)) h'"
        using lv [OF p(6)] f(1) by (simp add: concat_map_split)
      show ?thesis
      proof (cases "length ?ks = 4")
        case True
        then show ?thesis unfolding run using split_internal_post [OF k True fc lc p(7)] by simp
      next
        case False
        have "length ?ks < 4" using False len child_index_le [of ks key] by (simp add: insert_at_def)
        moreover have "?ks \<noteq> []" by (simp add: insert_at_def)
        ultimately have "tree_inv (Suc d) lo (Inner ?ks ?cs) hi" using k by simp
        then show ?thesis
          unfolding run using False fc lc p(7)
          by (simp add: insert_post_def del: tree_inv.simps)
      qed
    qed
  qed
qed

end
