(* ===== verification/IndexOps.thy ===== *)
theory IndexOps imports IndexInv begin

text \<open>
  The contract of the index as a map from keys to row locations: insertion of a new key,
  search and deletion, the leaf chain, the balance of the tree and the answers of a whole
  sequence of calls; and the interface \<open>key_map\<close> through which the table layer uses it.
\<close>

definition index_inv :: "heap \<Rightarrow> INDEX \<Rightarrow> bool" where
  "index_inv h tree \<longleftrightarrow>
     (\<exists>d. tree_inv d None (root tree) None) \<and> linked (leaves (root tree)) None \<and>
     fresh_for h (leaves (root tree))"

definition content :: "INDEX \<Rightarrow> int \<Rightarrow> RowLocation option" where
  "content tree = map_of (flat (root tree))"

lemma dom_content: "content tree key = None \<longleftrightarrow> key \<notin> fst ` set (flat (root tree))"
  by (simp add: content_def map_of_eq_None_iff)

lemma map_of_ins_entry:
  assumes "fst x \<notin> fst ` set es"
  shows "map_of (ins_entry x es) = (map_of es)(fst x \<mapsto> snd x)"
  using assms
proof (induction es)
  case (Cons e es)
  then show ?case
    by (cases "fst e < fst x") (auto simp: ins_entry_def fun_upd_twist)
qed (simp add: ins_entry_def)

lemma index_create_inv:
  assumes "avail h = None"
  shows "\<exists>tree h'. INDEX_create h = (Some tree, h') \<and> avail h' = None \<and> index_inv h' tree \<and>
           content tree = Map.empty"
  using assms
  by (auto simp: INDEX_create_def calloc_def index_inv_def content_def fresh_for_def first_addr_def
      intro: exI [of _ 0])

lemma insert_law:
  assumes "index_inv h tree" and "content tree key = None" and "avail h = None"
  shows "\<exists>tree' h'. INDEX_insert h tree key loc = Some (tree', INDEX_OK, h') \<and>
           index_inv h' tree' \<and> avail h' = None \<and>
           flat (root tree') = ins_entry (key, loc) (flat (root tree)) \<and>
           content tree' = (content tree)(key \<mapsto> loc)"
proof -
  obtain d where d: "tree_inv d None (root tree) None"
    and lk: "linked (leaves (root tree)) None" and fr: "fresh_for h (leaves (root tree))"
    using assms(1) by (auto simp: index_inv_def)
  have key: "key \<notin> fst ` set (flat (root tree))" using assms(2) by (simp add: dom_content)
  have post: "insert_post d None None h (root tree) (key, loc) (insert_recursive h (root tree) key loc)"
    using insert_recursive_post [OF d _ _ key] by simp
  obtain t s h1 where run: "insert_recursive h (root tree) key loc = Some (t, s, h1)"
    using post assms(3) by (cases "insert_recursive h (root tree) key loc") (auto simp: insert_post_def)
  have cont: "map_of (ins_entry (key, loc) (flat (root tree))) = (content tree)(key \<mapsto> loc)"
    using map_of_ins_entry [of "(key, loc)"] key by (simp add: content_def)
  show ?thesis
  proof (cases s)
    case None
    then show ?thesis
      using post run lk fr assms(3) cont leaf_ext_fresh
      by (auto simp: insert_post_def INDEX_insert_def index_inv_def content_def leaf_ext_def)
  next
    case (Some mr)
    obtain m r where mr: "s = Some (m, r)" using Some by (cases mr) auto
    have p: "tree_inv d None t (Some m)" "tree_inv d (Some m) r None"
      "flat t @ flat r = ins_entry (key, loc) (flat (root tree))"
      "leaf_ext h (leaves (root tree)) (leaves t @ leaves r) h1" "avail h1 = None"
      using post run mr assms(3) by (auto simp: insert_post_def)
    obtain b h2 where b: "calloc h1 = Some (b, h2)" "avail h2 = None" "brk h1 \<le> brk h2"
      using p(5) by (simp add: calloc_def)
    let ?t = "Inner [m] [t, r]"
    have "tree_inv (Suc d) None ?t None" using p(1,2) by simp
    moreover have "linked (leaves ?t) None" using p(4) lk by (simp add: leaf_ext_def)
    moreover have "fresh_for h2 (leaves ?t)"
      using leaf_ext_fresh [OF leaf_ext_mono [OF p(4) b(3)] fr] by simp
    ultimately show ?thesis
      using run mr b p(3) cont
      by (auto simp: INDEX_insert_def index_inv_def content_def simp del: tree_inv.simps)
  qed
qed

text \<open>
  C2: inserting a key the index does not hold, with memory available, succeeds and keeps
  the B+ tree invariant (strict search order, node sizes below the order 4, all leaves at one
  depth, leaf chain from left to right); the entries in leaf order are the old ones with the
  new one at its sorted place.
\<close>

theorem INDEX_insert_correct:
  assumes "index_inv h tree" and "content tree key = None" and "avail h = None"
  shows "\<exists>tree' h'. INDEX_insert h tree key loc = Some (tree', INDEX_OK, h') \<and>
           index_inv h' tree' \<and> avail h' = None \<and>
           flat (root tree') = ins_entry (key, loc) (flat (root tree)) \<and>
           content tree' = (content tree)(key \<mapsto> loc)"
  using assms by (rule insert_law)

text \<open>Search.\<close>

lemma scan_leaf_Some:
  "scan_leaf es key n = Some i \<Longrightarrow> n \<le> i \<and> i < n + length es \<and> fst (es ! (i - n)) = key"
proof (induction es arbitrary: n)
  case (Cons e es)
  show ?case
  proof (cases "fst e = key")
    case False
    then have "Suc n \<le> i \<and> i < Suc n + length es \<and> fst (es ! (i - Suc n)) = key"
      using Cons.IH [of "Suc n"] Cons.prems by simp
    then show ?thesis by (simp add: nth_Cons')
  qed (use Cons.prems in simp)
qed simp

lemma scan_leaf_map_of:
  "map_of es key = map_option (\<lambda>i. snd (es ! (i - n))) (scan_leaf es key n)"
proof (induction es arbitrary: n)
  case (Cons e es)
  show ?case
  proof (cases "fst e = key")
    case False
    have "snd (es ! (i - Suc n)) = snd ((e # es) ! (i - n))"
      if "scan_leaf es key (Suc n) = Some i" for i
      using scan_leaf_Some [OF that] by (simp add: nth_Cons')
    then show ?thesis
      using False Cons.IH [of "Suc n"] by (cases "scan_leaf es key (Suc n)") auto
  qed (cases e; simp)
qed simp

lemma map_of_around:
  assumes "key \<notin> fst ` set xs" and "key \<notin> fst ` set zs"
  shows "map_of (xs @ ys @ zs) key = map_of ys key"
proof -
  have "map_of xs key = None" "map_of zs key = None"
    using assms by (simp_all add: map_of_eq_None_iff)
  then show ?thesis by (simp add: map_add_def split: option.splits)
qed

lemma find_leaf_post:
  assumes "tree_inv d lo t hi" and "above lo key" and "below key hi"
  shows "\<exists>a es nx. find_leaf t key = Some (Leaf a es nx) \<and> map_of es key = map_of (flat t) key"
  using assms
proof (induction d arbitrary: lo t hi)
  case 0
  then show ?case by (auto split: INDEXNode.splits)
next
  case (Suc d)
  obtain ks cs where t: "t = Inner ks cs" and kids: "kids (tree_inv d) lo ks cs hi"
    using Suc.prems(1) by (auto split: INDEXNode.splits)
  let ?i = "child_index ks key"
  obtain lo' hi' where f: "?i < length cs" "tree_inv d lo' (cs ! ?i) hi'" "above lo' key" "below key hi'"
    using kids_focus [OF kids Suc.prems(2,3)] by blast
  have "map_of (flat t) key = map_of (flat (cs ! ?i)) key"
    using kids_around [OF kids Suc.prems(2,3)] f(1)
    by (simp only: t flat_simps concat_map_focus [OF f(1)]) (rule map_of_around; fastforce)
  then show ?case using Suc.IH [OF f(2-4)] f(1) by (simp add: t)
qed

lemma search_law:
  assumes "index_inv h tree"
  shows "INDEX_search tree key =
           Some (case content tree key of
                   Some loc \<Rightarrow> (INDEX_OK, Some loc)
                 | None \<Rightarrow> (INDEX_NOT_FOUND, None))"
proof -
  obtain d where "tree_inv d None (root tree) None" using assms by (auto simp: index_inv_def)
  then obtain a es nx where "find_leaf (root tree) key = Some (Leaf a es nx)"
    and m: "map_of es key = content tree key"
    using find_leaf_post [of d None "root tree" None key] by (auto simp: content_def)
  then show ?thesis
    using scan_leaf_map_of [of es key 0]
    by (cases "scan_leaf es key 0"; cases "content tree key") (simp_all add: INDEX_search_def)
qed

text \<open>
  C26: \<open>INDEX_search\<close> on a tree that satisfies the invariant finds exactly the location stored
  for the key, and answers \<open>INDEX_NOT_FOUND\<close> exactly when no leaf holds the key.
\<close>

theorem INDEX_search_correct:
  assumes "index_inv h tree"
  shows "INDEX_search tree key =
           Some (case content tree key of
                   Some loc \<Rightarrow> (INDEX_OK, Some loc)
                 | None \<Rightarrow> (INDEX_NOT_FOUND, None))"
  using assms by (rule search_law)

lemma fresh_for_addrs:
  "fresh_for h ls \<longleftrightarrow> distinct (map fst ls) \<and> (\<forall>a \<in> set (map fst ls). a < brk h)"
  by (auto simp: fresh_for_def)

text \<open>Deletion. The shape of the tree, the addresses and the chain do not change.\<close>

definition chain_of :: "leaf_info list \<Rightarrow> (nat \<times> nat option) list" where
  "chain_of ls = map (\<lambda>(a, es, nx). (a, nx)) ls"

lemma chain_of_simps [simp]:
  "chain_of [] = []" "chain_of ((a, es, nx) # ls) = (a, nx) # chain_of ls"
  "chain_of (xs @ ys) = chain_of xs @ chain_of ys"
  by (simp_all add: chain_of_def)

lemma chain_of_linked:
  "chain_of ls' = chain_of ls \<Longrightarrow>
     first_addr ls' e = first_addr ls e \<and> linked ls' e = linked ls e \<and> map fst ls' = map fst ls"
proof (induction ls arbitrary: ls')
  case (Cons l ls)
  obtain a es nx where l: "l = (a, es, nx)" by (cases l) auto
  obtain l' ks where ls': "ls' = l' # ks" using Cons.prems by (cases ls') (simp_all add: chain_of_def)
  obtain a' es' nx' where l': "l' = (a', es', nx')" by (cases l') auto
  have "a' = a" "nx' = nx" "chain_of ks = chain_of ls"
    using Cons.prems by (simp_all add: l ls' l')
  then show ?case using Cons.IH [of ks] by (simp add: l ls' l' first_addr_def)
qed (auto simp: chain_of_def)

lemma delete_in_leaf_filter:
  assumes "sorted_wrt (<) (map fst es)"
  shows "delete_in_leaf key es =
           (filter (\<lambda>e. fst e \<noteq> key) es, if key \<in> fst ` set es then INDEX_OK else INDEX_NOT_FOUND)"
proof (cases "scan_leaf es key 0")
  case None
  then have "key \<notin> fst ` set es"
    using scan_leaf_map_of [of es key 0] by (simp add: map_of_eq_None_iff)
  moreover from this have "filter (\<lambda>e. fst e \<noteq> key) es = es" by (auto simp: filter_id_conv)
  ultimately show ?thesis using None by (simp add: delete_in_leaf_def)
next
  case (Some i)
  have i: "i < length es" "fst (es ! i) = key" using scan_leaf_Some [OF Some] by simp_all
  let ?L = "take i es" and ?R = "drop (Suc i) es"
  have es: "?L @ es ! i # ?R = es" using list_focus [OF i(1)] by (rule sym)
  have "sorted_wrt (<) (map fst (?L @ es ! i # ?R))" using assms by (simp only: es)
  then have "\<forall>e \<in> set ?L. fst e \<noteq> key" "\<forall>e \<in> set ?R. fst e \<noteq> key"
    using i(2) by (auto simp: sorted_wrt_append)
  then have "filter (\<lambda>e. fst e \<noteq> key) (?L @ es ! i # ?R) = ?L @ ?R"
    using i(2) by (simp add: filter_id_conv)
  then have "filter (\<lambda>e. fst e \<noteq> key) es = ?L @ ?R" by (simp only: es)
  moreover have "key \<in> fst ` set es" using i by (metis image_eqI nth_mem)
  ultimately show ?thesis using Some by (simp add: delete_in_leaf_def remove_at_def)
qed

lemma sorted_filter_keys:
  "sorted_wrt (<) (map fst es) \<Longrightarrow> sorted_wrt (<) (map fst (filter P es))"
  by (induction es) auto

lemma filter_around:
  assumes "key \<notin> fst ` set xs" and "key \<notin> fst ` set zs"
  shows "filter (\<lambda>e. fst e \<noteq> key) (xs @ ys @ zs) = xs @ filter (\<lambda>e. fst e \<noteq> key) ys @ zs"
proof -
  have "filter (\<lambda>e. fst e \<noteq> key) xs = xs" "filter (\<lambda>e. fst e \<noteq> key) zs = zs"
    using assms by (auto simp: filter_id_conv)
  then show ?thesis by simp
qed

lemma at_leaf_delete:
  assumes "tree_inv d lo t hi" and "above lo key" and "below key hi"
  shows "\<exists>t'. at_leaf (delete_in_leaf key) t key =
             Some (t', if key \<in> fst ` set (flat t) then INDEX_OK else INDEX_NOT_FOUND) \<and>
           tree_inv d lo t' hi \<and> flat t' = filter (\<lambda>e. fst e \<noteq> key) (flat t) \<and>
           chain_of (leaves t') = chain_of (leaves t)"
  using assms
proof (induction d arbitrary: lo t hi)
  case 0
  then obtain a es nx where t: "t = Leaf a es nx" by (auto split: INDEXNode.splits)
  have "length es < 4" using 0 by (simp add: t)
  with length_filter_le have "length (filter (\<lambda>e. fst e \<noteq> key) es) < 4" by (rule le_less_trans)
  then show ?case
    using 0 delete_in_leaf_filter [of es key] sorted_filter_keys [of es] by (auto simp: t)
next
  case (Suc d)
  obtain ks cs where t: "t = Inner ks cs" and kids: "kids (tree_inv d) lo ks cs hi"
    and len: "ks \<noteq> []" "length ks < 4"
    using Suc.prems(1) by (auto split: INDEXNode.splits)
  let ?i = "child_index ks key"
  obtain lo' hi' where f: "?i < length cs" "tree_inv d lo' (cs ! ?i) hi'" "above lo' key" "below key hi'"
    and repl: "\<And>c. tree_inv d lo' c hi' \<Longrightarrow> kids (tree_inv d) lo ks (cs[?i := c]) hi"
    using kids_focus [OF kids Suc.prems(2,3)] by blast
  let ?r = "\<lambda>t. if key \<in> fst ` set (flat t) then INDEX_OK else INDEX_NOT_FOUND"
  let ?L = "concat (map flat (take ?i cs))" and ?R = "concat (map flat (drop (Suc ?i) cs))"
  obtain c where c: "at_leaf (delete_in_leaf key) (cs ! ?i) key = Some (c, ?r (cs ! ?i))"
    "tree_inv d lo' c hi'" "flat c = filter (\<lambda>e. fst e \<noteq> key) (flat (cs ! ?i))"
    "chain_of (leaves c) = chain_of (leaves (cs ! ?i))"
    using Suc.IH [OF f(2-4)] by blast
  have out: "key \<notin> fst ` set ?L" "key \<notin> fst ` set ?R"
    using kids_around [OF kids Suc.prems(2,3)] by fastforce+
  have fl: "flat t = ?L @ flat (cs ! ?i) @ ?R"
    using concat_map_focus [OF f(1), of flat] by (simp add: t)
  have "?r t = ?r (cs ! ?i)" using out by (simp add: fl image_Un)
  then have "at_leaf (delete_in_leaf key) t key = Some (Inner ks (cs[?i := c]), ?r t)"
    using c(1) f(1) by (simp add: t Let_def)
  moreover have "flat (Inner ks (cs[?i := c])) = filter (\<lambda>e. fst e \<noteq> key) (flat t)"
    using filter_around [OF out] c(3) concat_map_update [OF f(1), of flat c] by (simp add: fl)
  moreover have "chain_of (leaves (Inner ks (cs[?i := c]))) = chain_of (leaves t)"
    using c(4) concat_map_update [OF f(1), of leaves c] concat_map_focus [OF f(1), of leaves]
    by (simp add: t)
  moreover have "tree_inv (Suc d) lo (Inner ks (cs[?i := c])) hi"
    using repl [OF c(2)] len by simp
  ultimately show ?case by blast
qed

lemma map_of_filter_key: "map_of (filter (\<lambda>e. fst e \<noteq> key) es) = (map_of es)(key := None)"
  by (induction es) (auto simp: fun_eq_iff)

lemma delete_law:
  assumes "index_inv h tree"
  shows "\<exists>tree'. INDEX_delete tree key =
             Some (tree', if content tree key = None then INDEX_NOT_FOUND else INDEX_OK) \<and>
           index_inv h tree' \<and> content tree' = (content tree)(key := None) \<and>
           flat (root tree') = filter (\<lambda>e. fst e \<noteq> key) (flat (root tree))"
proof -
  obtain d where d: "tree_inv d None (root tree) None" using assms by (auto simp: index_inv_def)
  obtain t' where t': "at_leaf (delete_in_leaf key) (root tree) key =
        Some (t', if key \<in> fst ` set (flat (root tree)) then INDEX_OK else INDEX_NOT_FOUND)"
      "tree_inv d None t' None" "flat t' = filter (\<lambda>e. fst e \<noteq> key) (flat (root tree))"
      "chain_of (leaves t') = chain_of (leaves (root tree))"
    using at_leaf_delete [OF d, of key] by auto
  have "linked (leaves t') None" "map fst (leaves t') = map fst (leaves (root tree))"
    using chain_of_linked [OF t'(4), of None] assms by (simp_all add: index_inv_def)
  then have "index_inv h (tree\<lparr>root := t'\<rparr>)"
    using assms t'(2) by (auto simp: index_inv_def fresh_for_addrs)
  then show ?thesis
    using t' dom_content [of tree key]
    by (intro exI [of _ "tree\<lparr>root := t'\<rparr>"])
      (simp add: INDEX_delete_def content_def map_of_filter_key)
qed

text \<open>
  C27: \<open>INDEX_delete\<close> removes exactly the entry of the key, reports whether there was one,
  and keeps the invariant; the order of the other entries does not change.
\<close>

theorem INDEX_delete_correct:
  assumes "index_inv h tree"
  shows "\<exists>tree'. INDEX_delete tree key =
             Some (tree', if content tree key = None then INDEX_NOT_FOUND else INDEX_OK) \<and>
           index_inv h tree' \<and> content tree' = (content tree)(key := None) \<and>
           flat (root tree') = filter (\<lambda>e. fst e \<noteq> key) (flat (root tree))"
  using assms by (rule delete_law)

text \<open>The walk along the leaf chain.\<close>

lemma leftmost_first:
  "tree_inv d lo t hi \<Longrightarrow> leftmost t = first_addr (leaves t) e \<and> leaves t \<noteq> []"
proof (induction d arbitrary: lo t hi)
  case 0
  then show ?case by (auto simp: first_addr_def split: INDEXNode.splits)
next
  case (Suc d)
  then obtain ks cs where t: "t = Inner ks cs" and k: "kids (tree_inv d) lo ks cs hi" "ks \<noteq> []"
    by (auto split: INDEXNode.splits)
  then obtain c cs' k0 where "cs = c # cs'" "tree_inv d lo c (Some k0)"
    by (cases ks; cases cs) auto
  then show ?case using Suc.IH [of lo c "Some k0"] by (cases "leaves c") (auto simp: t first_addr_def)
qed

lemma walk_leaves_run:
  assumes "linked (xs @ ys) None" and "distinct (map fst (xs @ ys))"
  shows "walk_leaves (xs @ ys) (first_addr ys None) out = Some (out @ map (\<lambda>(a, es, nx). map fst es) ys)"
  using assms
proof (induction ys arbitrary: xs out)
  case Nil
  then show ?case by (simp add: walk_leaves.simps first_addr_def)
next
  case (Cons y ys)
  obtain a es nx where y: "y = (a, es, nx)" by (cases y) auto
  have "map_of (xs @ y # ys) a = Some (es, nx)"
    using Cons.prems(2) by (intro map_of_is_SomeI) (auto simp: y)
  moreover have "nx = first_addr ys None" using Cons.prems(1) by (simp add: y)
  moreover have "walk_leaves (xs @ y # ys) (first_addr ys None) (out @ [map fst es]) =
      Some ((out @ [map fst es]) @ map (\<lambda>(a, es, nx). map fst es) ys)"
    using Cons.IH [of "xs @ [y]" "out @ [map fst es]"] Cons.prems by simp
  ultimately show ?case
    by (subst walk_leaves.simps) (simp add: y first_addr_def)
qed

text \<open>
  Following the \<open>next\<close> pointers from the leftmost leaf terminates at the end of the chain
  and passes every leaf of the tree once, so the keys come out complete and in strictly
  ascending order.
\<close>

theorem INDEX_print_leaves_correct:
  assumes "index_inv h tree"
  shows "\<exists>out. INDEX_print_leaves tree = Some out \<and>
           concat out = map fst (flat (root tree)) \<and> sorted_wrt (<) (concat out) \<and>
           set (concat out) = dom (content tree)"
proof -
  obtain d where d: "tree_inv d None (root tree) None" using assms by (auto simp: index_inv_def)
  let ?ls = "leaves (root tree)"
  have "INDEX_print_leaves tree = Some (map (\<lambda>(a, es, nx). map fst es) ?ls)"
    using assms leftmost_first [OF d, of None] walk_leaves_run [of "[]" ?ls "[]"]
    by (cases ?ls) (auto simp: INDEX_print_leaves_def index_inv_def fresh_for_def first_addr_def)
  moreover have "concat (map (\<lambda>(a, es, nx). map fst es) ls) = map fst (concat (map (\<lambda>(a, es, nx). es) ls))"
    for ls :: "leaf_info list"
    by (induction ls) auto
  then have "concat (map (\<lambda>(a, es, nx). map fst es) ?ls) = map fst (flat (root tree))"
    by (simp only: flat_def)
  moreover have "set (map fst (flat (root tree))) = dom (content tree)"
    by (simp only: content_def dom_map_of_conv_image_fst set_map)
  ultimately show ?thesis using tree_inv_flat [OF d] by metis
qed

text \<open>
  Balance: the depth of each leaf, from left to right.
\<close>

fun leaf_depths :: "INDEXNode \<Rightarrow> nat list" where
  "leaf_depths (Leaf a es nx) = [0]"
| "leaf_depths (Inner ks cs) = map Suc (concat (map leaf_depths cs))"

lemma sum_list_ge: "(\<And>x. x \<in> set xs \<Longrightarrow> m \<le> f x) \<Longrightarrow> length xs * m \<le> (\<Sum>x\<leftarrow>xs. f x :: nat)"
  by (induction xs) (auto intro: add_mono)

lemma tree_inv_depths:
  "tree_inv d lo t hi \<Longrightarrow> set (leaf_depths t) = {d} \<and> 2 ^ d \<le> length (leaf_depths t)"
proof (induction d arbitrary: lo t hi)
  case 0
  then show ?case by (auto split: INDEXNode.splits)
next
  case (Suc d)
  then obtain ks cs where t: "t = Inner ks cs" and k: "kids (tree_inv d) lo ks cs hi" "ks \<noteq> []"
    by (auto split: INDEXNode.splits)
  have cs: "\<And>c. c \<in> set cs \<Longrightarrow> set (leaf_depths c) = {d} \<and> 2 ^ d \<le> length (leaf_depths c)"
    using kids_child [OF k(1)] Suc.IH by blast
  have l: "2 \<le> length cs" using kids_length [OF k(1)] k(2) by (cases ks) auto
  then obtain c where "c \<in> set cs" by (cases cs) auto
  have "set (leaf_depths t) = Suc ` (\<Union>c \<in> set cs. set (leaf_depths c))" by (simp add: t)
  also have "\<dots> = Suc ` (\<Union>c \<in> set cs. {d})" using cs by simp
  also have "\<dots> = {Suc d}" using \<open>c \<in> set cs\<close> by blast
  finally have "set (leaf_depths t) = {Suc d}" .
  moreover have "2 * 2 ^ d \<le> length cs * 2 ^ d" using mult_le_mono1 [OF l] .
  moreover have "length cs * 2 ^ d \<le> length (leaf_depths t)"
    using sum_list_ge [of cs "2 ^ d" "\<lambda>c. length (leaf_depths c)"] cs
    by (simp add: t length_concat comp_def)
  ultimately show ?case by (metis le_trans power_Suc)
qed

text \<open>
  The number of leaves: an insertion adds at most one, however many nodes it splits, and a
  deletion none.
\<close>

abbreviation leaf_count :: "INDEXNode \<Rightarrow> nat" where
  "leaf_count t \<equiv> length (leaf_depths t)"

lemma leaf_count_Inner: "leaf_count (Inner ks cs) = (\<Sum>c\<leftarrow>cs. leaf_count c)"
  by (simp add: length_concat comp_def)

lemma sum_list_put:
  assumes "i < length cs"
  shows "(\<Sum>c\<leftarrow>cs[i := x]. f c) + f (cs ! i) = (\<Sum>c\<leftarrow>cs. f c) + (f x :: nat)"
  using assms
proof (induction cs arbitrary: i)
  case (Cons c cs)
  then show ?case by (cases i) (auto simp: algebra_simps)
qed simp

lemma sum_list_take_drop: "(\<Sum>c\<leftarrow>take n cs. f c) + (\<Sum>c\<leftarrow>drop n cs. f c) = (\<Sum>c\<leftarrow>cs. f c :: nat)"
  by (metis append_take_drop_id map_append sum_list_append)

lemma sum_list_insert_at: "(\<Sum>c\<leftarrow>insert_at p x cs. f c) = f x + (\<Sum>c\<leftarrow>cs. f c :: nat)"
  using sum_list_take_drop [of f p cs] by (simp add: insert_at_def)

lemma insert_recursive_leaf_count:
  "insert_recursive h t key loc = Some (t', sp, h') \<Longrightarrow>
     leaf_count t' + (case sp of None \<Rightarrow> 0 | Some (k, r) \<Rightarrow> leaf_count r) \<le> leaf_count t + 1"
proof (induction h t key loc arbitrary: t' sp h' rule: insert_recursive.induct)
  case (1 h a es nx key loc)
  then show ?case by (auto simp: Let_def split_leaf_def split: if_splits option.splits prod.splits)
next
  case (2 h ks cs key loc)
  define i where "i = child_index ks key"
  have i: "i < length cs" using 2(2) by (simp add: i_def Let_def split: if_splits)
  obtain c sc h1 where rc: "insert_recursive h (cs ! i) key loc = Some (c, sc, h1)"
    using 2(2) i by (auto simp: i_def [symmetric] Let_def split: option.splits)
  have ih: "leaf_count c + (case sc of None \<Rightarrow> 0 | Some (k, r) \<Rightarrow> leaf_count r) \<le> leaf_count (cs ! i) + 1"
    using 2(1) [OF i_def _ rc] i by simp
  note put = sum_list_put [OF i, of leaf_count c]
  show ?case
  proof (cases sc)
    case None
    then show ?thesis using 2(2) i rc ih put
      by (auto simp: i_def [symmetric] Let_def leaf_count_Inner simp del: leaf_depths.simps)
  next
    case (Some pr)
    obtain promoted right where pr: "pr = (promoted, right)" by fastforce
    have tot: "(\<Sum>x\<leftarrow>insert_at q right (cs[i := c]). leaf_count x) \<le> leaf_count (Inner ks cs) + 1" for q
      using ih put unfolding sum_list_insert_at leaf_count_Inner Some pr by simp
    show ?thesis
      using 2(2) i rc sum_list_take_drop [of leaf_count] tot
      by (auto simp: i_def [symmetric] Some pr Let_def split_internal_def leaf_count_Inner
          simp del: leaf_depths.simps split: if_splits option.splits prod.splits)
  qed
qed

lemma INDEX_insert_leaf_count:
  assumes "INDEX_insert h tree key loc = Some (tree', r, h')"
  shows "leaf_count (root tree') \<le> leaf_count (root tree) + 1"
proof -
  obtain t sp h1 where rc: "insert_recursive h (root tree) key loc = Some (t, sp, h1)"
    using assms by (auto simp: INDEX_insert_def split: option.splits)
  show ?thesis
    using assms insert_recursive_leaf_count [OF rc] rc
    by (auto simp: INDEX_insert_def leaf_count_Inner simp del: leaf_depths.simps split: option.splits prod.splits)
qed

lemma at_leaf_leaf_count: "at_leaf f t key = Some (t', r) \<Longrightarrow> leaf_count t' = leaf_count t"
proof (induction f t key arbitrary: t' r rule: at_leaf.induct)
  case (1 f a es nx key)
  then show ?case by (auto split: prod.splits)
next
  case (2 f ks cs key)
  define i where "i = child_index ks key"
  have i: "i < length cs" using 2(2) by (simp add: i_def Let_def split: if_splits)
  obtain c r1 where rc: "at_leaf f (cs ! i) key = Some (c, r1)"
    using 2(2) i by (auto simp: i_def [symmetric] Let_def split: option.splits)
  have "leaf_count c = leaf_count (cs ! i)" using 2(1) [OF i_def _ rc] i by simp
  then show ?case using 2(2) i rc sum_list_put [OF i, of leaf_count c]
    by (auto simp: i_def [symmetric] Let_def leaf_count_Inner simp del: leaf_depths.simps)
qed

lemma INDEX_delete_leaf_count:
  assumes "INDEX_delete tree key = Some (tree', r)"
  shows "leaf_count (root tree') = leaf_count (root tree)"
  using assms by (auto simp: INDEX_delete_def dest: at_leaf_leaf_count split: option.splits)

text \<open>
  Any sequence of calls, with their answers, and the map it is meant to keep.
\<close>

datatype index_op = Insert int RowLocation | Search int | Delete int

fun index_call :: "index_op \<Rightarrow> INDEX \<times> heap \<Rightarrow> ((INDEX \<times> heap) \<times> INDEXResult \<times> RowLocation option) option" where
  "index_call (Insert key loc) (tree, h) =
     do { (tree, r, h) \<leftarrow> INDEX_insert h tree key loc; Some ((tree, h), r, None) }"
| "index_call (Search key) (tree, h) =
     do { (r, found) \<leftarrow> INDEX_search tree key; Some ((tree, h), r, found) }"
| "index_call (Delete key) (tree, h) =
     do { (tree, r) \<leftarrow> INDEX_delete tree key; Some ((tree, h), r, None) }"

fun index_calls ::
  "index_op list \<Rightarrow> INDEX \<times> heap \<Rightarrow> ((INDEX \<times> heap) \<times> (INDEXResult \<times> RowLocation option) list) option" where
  "index_calls [] s = Some (s, [])"
| "index_calls (x # xs) s =
     do { (s, r) \<leftarrow> index_call x s; (s, rs) \<leftarrow> index_calls xs s; Some (s, r # rs) }"

fun map_call :: "index_op \<Rightarrow> (int \<Rightarrow> RowLocation option) \<Rightarrow> int \<Rightarrow> RowLocation option" where
  "map_call (Insert key loc) m = m(key \<mapsto> loc)"
| "map_call (Search key) m = m"
| "map_call (Delete key) m = m(key := None)"

fun map_answer :: "index_op \<Rightarrow> (int \<Rightarrow> RowLocation option) \<Rightarrow> INDEXResult \<times> RowLocation option" where
  "map_answer (Insert key loc) m = (INDEX_OK, None)"
| "map_answer (Search key) m =
     (case m key of Some loc \<Rightarrow> (INDEX_OK, Some loc) | None \<Rightarrow> (INDEX_NOT_FOUND, None))"
| "map_answer (Delete key) m = (if m key = None then INDEX_NOT_FOUND else INDEX_OK, None)"

fun map_answers :: "index_op list \<Rightarrow> (int \<Rightarrow> RowLocation option) \<Rightarrow> (INDEXResult \<times> RowLocation option) list" where
  "map_answers [] m = []"
| "map_answers (x # xs) m = map_answer x m # map_answers xs (map_call x m)"

text \<open>No key is inserted while it is in the map; and the number of insertions.\<close>

fun new_keys :: "index_op list \<Rightarrow> (int \<Rightarrow> RowLocation option) \<Rightarrow> bool" where
  "new_keys [] m \<longleftrightarrow> True"
| "new_keys (x # xs) m \<longleftrightarrow>
     (case x of Insert key loc \<Rightarrow> m key = None | _ \<Rightarrow> True) \<and> new_keys xs (map_call x m)"

definition inserts :: "index_op list \<Rightarrow> nat" where
  "inserts xs = length (filter (\<lambda>x. case x of Insert key loc \<Rightarrow> True | _ \<Rightarrow> False) xs)"

lemma index_call_law:
  assumes "index_inv h tree" and "avail h = None" and "new_keys [x] (content tree)"
  shows "\<exists>tree' h'. index_call x (tree, h) = Some ((tree', h'), map_answer x (content tree)) \<and>
           index_inv h' tree' \<and> avail h' = None \<and> content tree' = map_call x (content tree) \<and>
           leaf_count (root tree') \<le> leaf_count (root tree) + inserts [x]"
proof (cases x)
  case (Insert key loc)
  then show ?thesis
    using insert_law [OF assms(1) _ assms(2), of key loc] assms(3) INDEX_insert_leaf_count [of h tree key loc]
    by (auto simp: inserts_def)
next
  case (Search key)
  then show ?thesis using search_law [OF assms(1), of key] assms by (auto simp: inserts_def split: option.splits)
next
  case (Delete key)
  then show ?thesis
    using delete_law [OF assms(1), of key] assms INDEX_delete_leaf_count [of tree key] by (auto simp: inserts_def)
qed

lemma index_calls_law:
  assumes "index_inv h tree" and "avail h = None" and "new_keys xs (content tree)"
  shows "\<exists>tree' h'. index_calls xs (tree, h) = Some ((tree', h'), map_answers xs (content tree)) \<and>
           index_inv h' tree' \<and> avail h' = None \<and> content tree' = fold map_call xs (content tree) \<and>
           leaf_count (root tree') \<le> leaf_count (root tree) + inserts xs"
  using assms
proof (induction xs arbitrary: tree h)
  case Nil
  then show ?case by (simp add: inserts_def)
next
  case (Cons x xs)
  have n: "new_keys [x] (content tree)" "new_keys xs (map_call x (content tree))" using Cons.prems(3) by simp_all
  obtain t1 h1 where c: "index_call x (tree, h) = Some ((t1, h1), map_answer x (content tree))"
      "index_inv h1 t1" "avail h1 = None" "content t1 = map_call x (content tree)"
      "leaf_count (root t1) \<le> leaf_count (root tree) + inserts [x]"
    using index_call_law [OF Cons.prems(1,2) n(1)] by blast
  obtain t2 h2 where "index_calls xs (t1, h1) = Some ((t2, h2), map_answers xs (content t1))"
      "index_inv h2 t2" "avail h2 = None" "content t2 = fold map_call xs (content t1)"
      "leaf_count (root t2) \<le> leaf_count (root t1) + inserts xs"
    using Cons.IH [OF c(2,3)] n(2) c(4) by auto
  moreover have "inserts (x # xs) = inserts [x] + inserts xs" by (simp add: inserts_def)
  ultimately show ?case using c by (intro exI [of _ t2] exI [of _ h2]) simp
qed

text \<open>
  C32: the index through its whole life. From \<open>INDEX_create\<close> on, any sequence of insertions,
  searches and deletions that inserts no key twice without deleting it in between runs to its
  end when memory is available, and every call answers what a finite map would. The tree
  stays balanced all the while: its leaves are at one depth, and that depth is at
  most the binary logarithm of one more than the number of insertions, so every descent is
  logarithmic, whatever was deleted.
\<close>

theorem INDEX_trace_correct:
  assumes "INDEX_create h = (Some tree, h1)" and "avail h = None" and "new_keys xs Map.empty"
  shows "\<exists>tree' h'. index_calls xs (tree, h1) = Some ((tree', h'), map_answers xs Map.empty) \<and>
           content tree' = fold map_call xs Map.empty \<and>
           (\<exists>d. set (leaf_depths (root tree')) = {d} \<and> 2 ^ d \<le> 1 + inserts xs)"
proof -
  have cr: "avail h1 = None" "index_inv h1 tree" "content tree = Map.empty" "leaf_count (root tree) = 1"
    using index_create_inv [OF assms(2)] assms(1) by (auto simp: INDEX_create_def split: option.splits prod.splits)
  obtain tree' h' where run: "index_calls xs (tree, h1) = Some ((tree', h'), map_answers xs Map.empty)"
      "index_inv h' tree'" "content tree' = fold map_call xs Map.empty"
      "leaf_count (root tree') \<le> leaf_count (root tree) + inserts xs"
    using index_calls_law [OF cr(2,1), unfolded cr(3), OF assms(3)] by blast
  obtain d where "tree_inv d None (root tree') None" using run(2) by (auto simp: index_inv_def)
  then have "set (leaf_depths (root tree')) = {d}" "2 ^ d \<le> leaf_count (root tree')"
    using tree_inv_depths by blast+
  then show ?thesis using run cr(3,4) by (intro exI [of _ tree'] exI [of _ h']) auto
qed

text \<open>
  The interface the table layer relies on: a finite map with insertion of new keys, look-up
  and removal over a state that the operations thread.
\<close>

locale key_map =
  fixes inv :: "'s \<Rightarrow> bool"
    and cont :: "'s \<Rightarrow> 'k \<Rightarrow> 'v option"
    and ins :: "'s \<Rightarrow> 'k \<Rightarrow> 'v \<Rightarrow> 's option"
    and find :: "'s \<Rightarrow> 'k \<Rightarrow> 'v option option"
    and del :: "'s \<Rightarrow> 'k \<Rightarrow> 's option"
  assumes ins_law: "inv s \<Longrightarrow> cont s k = None \<Longrightarrow>
      \<exists>s'. ins s k v = Some s' \<and> inv s' \<and> cont s' = (cont s)(k \<mapsto> v)"
    and find_law: "inv s \<Longrightarrow> find s k = Some (cont s k)"
    and del_law: "inv s \<Longrightarrow> \<exists>s'. del s k = Some s' \<and> inv s' \<and> cont s' = (cont s)(k := None)"
begin

lemma load_all:
  assumes "inv s" and "distinct (map fst kvs)" and "\<And>k. k \<in> fst ` set kvs \<Longrightarrow> cont s k = None"
  shows "\<exists>s'. fold_opt (\<lambda>s (k, v). ins s k v) s kvs = Some s' \<and> inv s' \<and>
           cont s' = cont s ++ map_of kvs"
  using assms
proof (induction kvs arbitrary: s)
  case (Cons kv kvs)
  obtain k v where kv: "kv = (k, v)" by (cases kv)
  obtain s1 where s1: "ins s k v = Some s1" "inv s1" "cont s1 = (cont s)(k \<mapsto> v)"
    using ins_law [of s k v] Cons.prems by (auto simp: kv)
  have "cont s1 x = None" if "x \<in> fst ` set kvs" for x
    using that Cons.prems s1(3) by (auto simp: kv)
  then obtain s' where "fold_opt (\<lambda>s (k, v). ins s k v) s1 kvs = Some s'" "inv s'"
    "cont s' = cont s1 ++ map_of kvs"
    using Cons.IH [of s1] Cons.prems s1(2) by auto
  moreover have "map_of kvs k = None"
    using Cons.prems(2) by (simp add: kv map_of_eq_None_iff)
  ultimately show ?case
    using s1 by (auto simp: kv map_add_def fun_eq_iff split: option.splits)
qed simp

lemma find_loaded:
  assumes "inv s" and "cont s = Map.empty" and "distinct (map fst kvs)"
  shows "\<exists>s'. fold_opt (\<lambda>s (k, v). ins s k v) s kvs = Some s' \<and> inv s' \<and>
           (\<forall>k. find s' k = Some (map_of kvs k))"
  using load_all [of s kvs] assms find_law by fastforce

lemma rekey:
  assumes "inv s" and "cont s k' = None \<or> k' = k"
  shows "\<exists>s1 s2. del s k = Some s1 \<and> ins s1 k' v = Some s2 \<and> inv s2 \<and>
           (\<forall>x. find s2 x = Some (if x = k' then Some v else if x = k then None else cont s x))"
proof -
  obtain s1 where s1: "del s k = Some s1" "inv s1" "cont s1 = (cont s)(k := None)"
    using del_law [OF assms(1)] by blast
  have "cont s1 k' = None" using s1(3) assms(2) by auto
  then obtain s2 where s2: "ins s1 k' v = Some s2" "inv s2" "cont s2 = (cont s1)(k' \<mapsto> v)"
    using ins_law [OF s1(2)] by blast
  then show ?thesis using s1 find_law [OF s2(2)] by (intro exI [of _ s1] exI [of _ s2]) auto
qed

end

text \<open>The index with its heap provides that interface.\<close>

definition idx_ok :: "INDEX \<times> heap \<Rightarrow> bool" where
  "idx_ok s \<longleftrightarrow> index_inv (snd s) (fst s) \<and> avail (snd s) = None"

definition idx_ins :: "INDEX \<times> heap \<Rightarrow> int \<Rightarrow> RowLocation \<Rightarrow> (INDEX \<times> heap) option" where
  "idx_ins s k v = map_option (\<lambda>(t, r, h). (t, h)) (INDEX_insert (snd s) (fst s) k v)"

definition idx_find :: "INDEX \<times> heap \<Rightarrow> int \<Rightarrow> RowLocation option option" where
  "idx_find s k = map_option snd (INDEX_search (fst s) k)"

definition idx_del :: "INDEX \<times> heap \<Rightarrow> int \<Rightarrow> (INDEX \<times> heap) option" where
  "idx_del s k = map_option (\<lambda>(t, r). (t, snd s)) (INDEX_delete (fst s) k)"

interpretation idx: key_map idx_ok "\<lambda>s. content (fst s)" idx_ins idx_find idx_del
proof
  fix s k v assume "idx_ok s" "content (fst s) k = None"
  then show "\<exists>s'. idx_ins s k v = Some s' \<and> idx_ok s' \<and> content (fst s') = (content (fst s))(k \<mapsto> v)"
    using insert_law [of "snd s" "fst s" k v] by (auto simp: idx_ins_def idx_ok_def)
next
  fix s k assume "idx_ok s"
  then show "idx_find s k = Some (content (fst s) k)"
    using search_law [of "snd s" "fst s" k] by (auto simp: idx_find_def idx_ok_def split: option.splits)
next
  fix s k assume "idx_ok s"
  then show "\<exists>s'. idx_del s k = Some s' \<and> idx_ok s' \<and> content (fst s') = (content (fst s))(k := None)"
    using delete_law [of "snd s" "fst s" k] by (auto simp: idx_del_def idx_ok_def)
qed

end
