(* ===== verification/IndexWitness.thy ===== *)
theory IndexWitness imports IndexOps begin

text \<open>
  The index properties at a concrete tree, loaded with eight keys so that leaves and inner
  nodes have split; rebuilding an index from a list of rows; and what happens when a key is
  inserted twice.
\<close>

definition empty_idx :: "INDEX \<times> heap" where
  "empty_idx = (\<lparr>root = Leaf 1 [] None, node_count = 1\<rparr>, \<lparr>brk = 2, avail = None\<rparr>)"

lemma empty_idx_created: "INDEX_create \<lparr>brk = 0, avail = None\<rparr> = (Some (fst empty_idx), snd empty_idx)"
  by (simp add: INDEX_create_def calloc_def empty_idx_def)

lemma empty_idx_ok: "idx_ok empty_idx" "content (fst empty_idx) = Map.empty"
  using index_create_inv [of "\<lparr>brk = 0, avail = None\<rparr>"]
  by (simp_all add: empty_idx_created idx_ok_def)

definition loc :: "nat \<Rightarrow> RowLocation" where
  "loc n = \<lparr>page_id = 0, slot_id = of_nat n\<rparr>"

definition load :: "(int \<times> RowLocation) list \<Rightarrow> (INDEX \<times> heap) option" where
  "load kvs = fold_opt (\<lambda>s (k, v). idx_ins s k v) empty_idx kvs"

text \<open>
  rebuilding an index from the rows of a table, one \<open>INDEX_insert\<close> per row into a fresh
  index, succeeds for rows with distinct keys, and afterwards \<open>INDEX_search\<close> answers every
  key of the table with its row's location and every other key with \<open>INDEX_NOT_FOUND\<close>.
\<close>

theorem index_rebuild_correct:
  assumes "distinct (map fst kvs)"
  shows "\<exists>s. load kvs = Some s \<and> index_inv (snd s) (fst s) \<and>
           (\<forall>key. INDEX_search (fst s) key =
              Some (case map_of kvs key of
                      Some l \<Rightarrow> (INDEX_OK, Some l) | None \<Rightarrow> (INDEX_NOT_FOUND, None)))"
proof -
  obtain s where s: "load kvs = Some s" "idx_ok s" "content (fst s) = map_of kvs"
    using idx.load_all [OF empty_idx_ok(1) assms] empty_idx_ok(2) by (auto simp: load_def)
  then show ?thesis
    using search_law [of "snd s" "fst s"] by (auto simp: idx_ok_def intro!: exI [of _ s])
qed

definition sample_rows :: "(int \<times> RowLocation) list" where
  "sample_rows = [(5, loc 0), (1, loc 1), (9, loc 2), (3, loc 3), (7, loc 4), (-2, loc 5), (4, loc 6), (8, loc 7)]"

definition sample :: "INDEX \<times> heap" where
  "sample = the (load sample_rows)"

lemma sample_ok: "idx_ok sample" "content (fst sample) = map_of sample_rows"
proof -
  have "distinct (map fst sample_rows)" by (simp add: sample_rows_def)
  then have "idx_ok sample \<and> content (fst sample) = map_of sample_rows"
    using idx.load_all [OF empty_idx_ok(1), of sample_rows] empty_idx_ok(2)
    by (auto simp: sample_def load_def)
  then show "idx_ok sample" "content (fst sample) = map_of sample_rows" by simp_all
qed

lemma sample_inv: "index_inv (snd sample) (fst sample)" "avail (snd sample) = None"
  using sample_ok(1) by (simp_all add: idx_ok_def)

theorem INDEX_insert_witness:
  "\<exists>tree' h'. INDEX_insert (snd sample) (fst sample) 6 (loc 8) = Some (tree', INDEX_OK, h') \<and>
      index_inv h' tree' \<and> content tree' 6 = Some (loc 8) \<and> content tree' 7 = Some (loc 4)"
  using INDEX_insert_correct [OF sample_inv(1) _ sample_inv(2), of 6 "loc 8"]
  by (auto simp: sample_ok(2) sample_rows_def)

theorem INDEX_search_witness:
  "INDEX_search (fst sample) 7 = Some (INDEX_OK, Some (loc 4)) \<and>
   INDEX_search (fst sample) 6 = Some (INDEX_NOT_FOUND, None)"
  using INDEX_search_correct [OF sample_inv(1)] by (simp add: sample_ok(2) sample_rows_def)

theorem INDEX_delete_witness:
  "\<exists>tree'. INDEX_delete (fst sample) 7 = Some (tree', INDEX_OK) \<and> content tree' 7 = None \<and>
      content tree' 8 = Some (loc 7)"
  using INDEX_delete_correct [OF sample_inv(1), of 7] by (auto simp: sample_ok(2) sample_rows_def)

theorem INDEX_print_leaves_witness:
  "\<exists>out. INDEX_print_leaves (fst sample) = Some out \<and> set (concat out) = {-2, 1, 3, 4, 5, 7, 8, 9}"
  using INDEX_print_leaves_correct [OF sample_inv(1)]
  by (auto simp: sample_ok(2) sample_rows_def dom_def split: if_splits)

text \<open>Five insertions that split a leaf, a deletion, and searches for a kept and a deleted key.\<close>

theorem INDEX_trace_witness:
  "\<exists>tree' h'. index_calls [Insert 5 (loc 0), Insert 1 (loc 1), Insert 9 (loc 2), Insert 3 (loc 3), Insert 7 (loc 4),
        Delete 5, Search 3, Search 5] empty_idx =
      Some ((tree', h'), [(INDEX_OK, None), (INDEX_OK, None), (INDEX_OK, None), (INDEX_OK, None), (INDEX_OK, None),
        (INDEX_OK, None), (INDEX_OK, Some (loc 3)), (INDEX_NOT_FOUND, None)]) \<and>
    (\<exists>d. set (leaf_depths (root tree')) = {d} \<and> 2 ^ d \<le> (6 :: nat))"
  using INDEX_trace_correct [OF empty_idx_created, of "[Insert 5 (loc 0), Insert 1 (loc 1), Insert 9 (loc 2),
      Insert 3 (loc 3), Insert 7 (loc 4), Delete 5, Search 3, Search 5]"]
  by (auto simp: inserts_def)

theorem index_rebuild_witness:
  "\<exists>s. load sample_rows = Some s \<and> INDEX_search (fst s) 4 = Some (INDEX_OK, Some (loc 6))"
  using index_rebuild_correct [of sample_rows] by (auto simp: sample_rows_def)

text \<open>
  The index does not reject a key it already holds, and a leaf split inside a run of equal
  keys promotes the repeated key, which hides the entries left of the split: after four
  inserts of key 5 and two deletions, all answered \<open>INDEX_OK\<close>, two entries for 5 remain in the
  leaf chain and \<open>INDEX_search\<close> answers \<open>INDEX_NOT_FOUND\<close>.
\<close>

theorem INDEX_duplicates_lost:
  "do {
     s \<leftarrow> load [(5, loc 0), (5, loc 1), (5, loc 2), (5, loc 3)];
     (t1, r1) \<leftarrow> INDEX_delete (fst s) 5;
     (t2, r2) \<leftarrow> INDEX_delete t1 5;
     r3 \<leftarrow> INDEX_search t2 5;
     Some (r1, r2, r3, content t2 5)
   } = Some (INDEX_OK, INDEX_OK, (INDEX_NOT_FOUND, None), Some (loc 0))"
  by code_simp

end
