(* ===== verification/RwLock.thy ===== *)
theory RwLock imports Prelude begin

text \<open>
  The reader-writer lock of concurrency/rwlock.c: a \<open>pthread_rwlock_t\<close> with two counters that
  are changed by separate atomic instructions. The sequential functions say what one call does
  when no other thread runs; the step relation \<open>rw_step\<close> interleaves the instructions of
  any number of threads, with the pthread call and the counter update as separate steps and
  with every pthread lock call free to fail.
  Memory cleared by \<open>memset\<close> is a free lock, as \<open>PTHREAD_RWLOCK_INITIALIZER\<close> is on the
  target.
\<close>

datatype RWLockResult = RWLOCK_OK | RWLOCK_ERROR

datatype pthread_rwlock = Free | RdHeld nat | WrHeld

record RWLock =
  lock :: pthread_rwlock
  readers :: int
  writers :: int

definition zero_lock :: RWLock where
  "zero_lock = \<lparr>lock = Free, readers = 0, writers = 0\<rparr>"

text \<open>
  The pthread calls: \<open>None\<close> when the caller would have to wait. \<open>pthread_unlock\<close> gives up
  one hold.
\<close>

fun pthread_rdlock :: "pthread_rwlock \<Rightarrow> pthread_rwlock option" where
  "pthread_rdlock Free = Some (RdHeld 1)"
| "pthread_rdlock (RdHeld n) = Some (RdHeld (Suc n))"
| "pthread_rdlock WrHeld = None"

fun pthread_wrlock :: "pthread_rwlock \<Rightarrow> pthread_rwlock option" where
  "pthread_wrlock Free = Some WrHeld"
| "pthread_wrlock (RdHeld n) = None"
| "pthread_wrlock WrHeld = None"

fun pthread_unlock :: "pthread_rwlock \<Rightarrow> pthread_rwlock" where
  "pthread_unlock Free = Free"
| "pthread_unlock (RdHeld n) = (if n \<le> 1 then Free else RdHeld (n - 1))"
| "pthread_unlock WrHeld = Free"

text \<open>
  Whether a pthread call of the only thread of the program succeeds, as the callers outside the
  concurrent tests make it. On an initialised lock the call fails with \<open>EDEADLK\<close> exactly when
  that thread holds the lock for writing already; a write lock behind a read lock of its own
  does not return (\<open>pthread_wrlock (RdHeld n) = None\<close>).
\<close>

fun rdlock_ok :: "pthread_rwlock \<Rightarrow> bool" where
  "rdlock_ok l = (l \<noteq> WrHeld)"

fun wrlock_ok :: "pthread_rwlock \<Rightarrow> bool" where
  "wrlock_ok l = (l \<noteq> WrHeld)"

text \<open>
  The routines on a lock that is not null. \<open>ok\<close> is whether the pthread call succeeds, and
  the result \<open>None\<close> of a lock call means that it does not return.
\<close>

definition rwlock_init :: "bool \<Rightarrow> RWLock \<Rightarrow> RWLockResult \<times> RWLock" where
  "rwlock_init ok rw =
     (let rw = zero_lock in
      if \<not> ok then (RWLOCK_ERROR, rw) else (RWLOCK_OK, rw\<lparr>readers := 0, writers := 0\<rparr>))"

lemma rwlock_init_zero [simp]: "snd (rwlock_init ok rw) = zero_lock"
  by (simp add: rwlock_init_def zero_lock_def Let_def)

definition rwlock_destroy :: "RWLock \<Rightarrow> RWLock" where
  "rwlock_destroy rw = rw\<lparr>readers := 0, writers := 0\<rparr>"

definition rwlock_read_lock :: "bool \<Rightarrow> RWLock \<Rightarrow> (RWLockResult \<times> RWLock) option" where
  "rwlock_read_lock ok rw =
     (if \<not> ok then Some (RWLOCK_ERROR, rw)
      else case pthread_rdlock (lock rw) of
             None \<Rightarrow> None
           | Some l \<Rightarrow> Some (RWLOCK_OK, rw\<lparr>lock := l, readers := readers rw + 1\<rparr>))"

definition rwlock_read_unlock :: "RWLock \<Rightarrow> RWLock" where
  "rwlock_read_unlock rw =
     (let rw = rw\<lparr>readers := readers rw - 1\<rparr> in rw\<lparr>lock := pthread_unlock (lock rw)\<rparr>)"

definition rwlock_write_lock :: "bool \<Rightarrow> RWLock \<Rightarrow> (RWLockResult \<times> RWLock) option" where
  "rwlock_write_lock ok rw =
     (if \<not> ok then Some (RWLOCK_ERROR, rw)
      else case pthread_wrlock (lock rw) of
             None \<Rightarrow> None
           | Some l \<Rightarrow> Some (RWLOCK_OK, rw\<lparr>lock := l, writers := writers rw + 1\<rparr>))"

definition rwlock_write_unlock :: "RWLock \<Rightarrow> RWLock" where
  "rwlock_write_unlock rw =
     (let rw = rw\<lparr>writers := writers rw - 1\<rparr> in rw\<lparr>lock := pthread_unlock (lock rw)\<rparr>)"

text \<open>
  Interleaved threads. Each thread is between two instructions of the four lock routines:
  \<open>RdAcquired\<close> is after \<open>pthread_rwlock_rdlock\<close> and before the increment of \<open>readers\<close>,
  \<open>RdLeaving\<close> after the decrement and before \<open>pthread_rwlock_unlock\<close>, and \<open>RdFailed\<close> behind
  a \<open>pthread_rwlock_rdlock\<close> that failed, with \<open>RWLOCK_ERROR\<close> as the result of
  \<open>rwlock_read_lock\<close>; the writing states likewise. A lock call may fail in every state. The
  parameter \<open>chk\<close> says what the callers do with the result: with \<open>True\<close> a thread whose call
  failed does not enter its section, with \<open>False\<close> it ignores the result, enters the section
  without the lock and unlocks behind it, as the callers in table.c are written.
\<close>

datatype thread = Idle | RdAcquired | RdFailed | Reading | RdLeaving
  | WrAcquired | WrFailed | Writing | WrLeaving

record rwstate =
  rw :: RWLock
  threads :: "thread list"

definition at :: "rwstate \<Rightarrow> nat \<Rightarrow> thread \<Rightarrow> bool" where
  "at s t pc \<longleftrightarrow> t < length (threads s) \<and> threads s ! t = pc"

definition go :: "rwstate \<Rightarrow> nat \<Rightarrow> thread \<Rightarrow> rwstate" where
  "go s t pc = s\<lparr>threads := (threads s)[t := pc]\<rparr>"

inductive rw_step :: "bool \<Rightarrow> rwstate \<Rightarrow> rwstate \<Rightarrow> bool" for chk where
  rdlock: "at s t Idle \<Longrightarrow> pthread_rdlock (lock (rw s)) = Some l \<Longrightarrow>
     rw_step chk s (go (s\<lparr>rw := (rw s)\<lparr>lock := l\<rparr>\<rparr>) t RdAcquired)"
| rd_fail: "at s t Idle \<Longrightarrow> rw_step chk s (go s t RdFailed)"
| rd_failed: "at s t RdFailed \<Longrightarrow> rw_step chk s (go s t (if chk then Idle else Reading))"
| rd_add: "at s t RdAcquired \<Longrightarrow>
     rw_step chk s (go (s\<lparr>rw := (rw s)\<lparr>readers := readers (rw s) + 1\<rparr>\<rparr>) t Reading)"
| rd_sub: "at s t Reading \<Longrightarrow>
     rw_step chk s (go (s\<lparr>rw := (rw s)\<lparr>readers := readers (rw s) - 1\<rparr>\<rparr>) t RdLeaving)"
| rd_unlock: "at s t RdLeaving \<Longrightarrow>
     rw_step chk s (go (s\<lparr>rw := (rw s)\<lparr>lock := pthread_unlock (lock (rw s))\<rparr>\<rparr>) t Idle)"
| wrlock: "at s t Idle \<Longrightarrow> pthread_wrlock (lock (rw s)) = Some l \<Longrightarrow>
     rw_step chk s (go (s\<lparr>rw := (rw s)\<lparr>lock := l\<rparr>\<rparr>) t WrAcquired)"
| wr_fail: "at s t Idle \<Longrightarrow> rw_step chk s (go s t WrFailed)"
| wr_failed: "at s t WrFailed \<Longrightarrow> rw_step chk s (go s t (if chk then Idle else Writing))"
| wr_add: "at s t WrAcquired \<Longrightarrow>
     rw_step chk s (go (s\<lparr>rw := (rw s)\<lparr>writers := writers (rw s) + 1\<rparr>\<rparr>) t Writing)"
| wr_sub: "at s t Writing \<Longrightarrow>
     rw_step chk s (go (s\<lparr>rw := (rw s)\<lparr>writers := writers (rw s) - 1\<rparr>\<rparr>) t WrLeaving)"
| wr_unlock: "at s t WrLeaving \<Longrightarrow>
     rw_step chk s (go (s\<lparr>rw := (rw s)\<lparr>lock := pthread_unlock (lock (rw s))\<rparr>\<rparr>) t Idle)"

lemma go_simps [simp]:
  "rw (go s t pc) = rw s" "threads (go s t pc) = (threads s)[t := pc]"
  by (simp_all add: go_def)

lemma go_go [simp]: "go (go s t a) t b = go s t b" "(go s t a)\<lparr>rw := l\<rparr> = go (s\<lparr>rw := l\<rparr>) t a"
  by (simp_all add: go_def)


lemma at_go [simp]:
  "t < length (threads s) \<Longrightarrow> at (go s t pc) u pc' \<longleftrightarrow> (if u = t then pc' = pc else at s u pc')"
  by (auto simp: at_def)

lemma at_rw [simp]: "at (s\<lparr>rw := l\<rparr>) t pc \<longleftrightarrow> at s t pc"
  by (simp add: at_def)

lemma at_bound [dest]: "at s t pc \<Longrightarrow> t < length (threads s)"
  by (simp add: at_def)

definition rw_start :: "nat \<Rightarrow> rwstate" where
  "rw_start n = \<lparr>rw = snd (rwlock_init True zero_lock), threads = replicate n Idle\<rparr>"

text \<open>The holders of the lock, and the invariant.\<close>

fun rd_holder :: "thread \<Rightarrow> bool" where
  "rd_holder t = (t = RdAcquired \<or> t = Reading \<or> t = RdLeaving)"

fun wr_holder :: "thread \<Rightarrow> bool" where
  "wr_holder t = (t = WrAcquired \<or> t = Writing \<or> t = WrLeaving)"

definition count_of :: "(thread \<Rightarrow> bool) \<Rightarrow> thread list \<Rightarrow> nat" where
  "count_of P ts = length (filter P ts)"

definition rw_inv :: "rwstate \<Rightarrow> bool" where
  "rw_inv s \<longleftrightarrow>
     (case lock (rw s) of
        Free \<Rightarrow> count_of rd_holder (threads s) = 0 \<and> count_of wr_holder (threads s) = 0
      | RdHeld n \<Rightarrow> 0 < n \<and> count_of rd_holder (threads s) = n \<and> count_of wr_holder (threads s) = 0
      | WrHeld \<Rightarrow> count_of rd_holder (threads s) = 0 \<and> count_of wr_holder (threads s) = 1) \<and>
     readers (rw s) = int (count_of (\<lambda>t. t = Reading) (threads s)) \<and>
     writers (rw s) = int (count_of (\<lambda>t. t = Writing) (threads s))"

lemma count_of_update:
  "t < length ts \<Longrightarrow>
     count_of P (ts[t := pc]) + (if P (ts ! t) then 1 else 0) = count_of P ts + (if P pc then 1 else 0)"
proof (induction ts arbitrary: t)
  case (Cons a ts)
  show ?case
  proof (cases t)
    case (Suc k)
    then show ?thesis using Cons.IH [of k] Cons.prems by (auto simp: count_of_def)
  qed (simp add: count_of_def)
qed simp

lemma count_of_mono: "(\<And>x. P x \<Longrightarrow> Q x) \<Longrightarrow> count_of P ts \<le> count_of Q ts"
  by (induction ts) (auto simp: count_of_def le_SucI)

lemma count_of_zero: "count_of P ts = 0 \<longleftrightarrow> (\<forall>t < length ts. \<not> P (ts ! t))"
  by (simp add: count_of_def filter_empty_conv all_set_conv_all_nth)

lemma rw_inv_start: "rw_inv (rw_start n)"
  by (simp add: rw_inv_def rw_start_def zero_lock_def count_of_def)

text \<open>A thread moving from \<open>pc0\<close> to \<open>pc\<close> changes each count by its own part.\<close>

lemma count_moved:
  assumes "at s t pc0"
  shows "count_of P ((threads s)[t := pc]) =
           (if P pc0 then count_of P (threads s) - 1 else count_of P (threads s)) + (if P pc then 1 else 0)"
    and "P pc0 \<Longrightarrow> 0 < count_of P (threads s)"
proof -
  have t: "t < length (threads s)" "threads s ! t = pc0" using assms by (simp_all add: at_def)
  show pos: "0 < count_of P (threads s)" if "P pc0"
    using that t count_of_zero [of P "threads s"] by (metis neq0_conv)
  show "count_of P ((threads s)[t := pc]) =
          (if P pc0 then count_of P (threads s) - 1 else count_of P (threads s)) + (if P pc then 1 else 0)"
    using count_of_update [OF t(1), of P pc] t(2) pos by auto
qed

text \<open>The threads that check the result keep the invariant in every step, failing ones included.\<close>

lemma rw_inv_step:
  assumes "rw_step True s s'" and "rw_inv s"
  shows "rw_inv s'"
  using assms(1)
proof cases
  case (rdlock t l)
  then show ?thesis using assms(2)
    by (cases "lock (rw s)") (auto simp: rw_inv_def count_moved(1) [OF rdlock(2)])
next
  case (rd_fail t)
  then show ?thesis using assms(2)
    by (cases "lock (rw s)") (auto simp: rw_inv_def count_moved(1) [OF rd_fail(2)])
next
  case (rd_failed t)
  then show ?thesis using assms(2)
    by (cases "lock (rw s)") (auto simp: rw_inv_def count_moved(1) [OF rd_failed(2)])
next
  case (rd_add t)
  have "0 < count_of rd_holder (threads s)" by (rule count_moved(2) [OF rd_add(2)]; simp)
  then show ?thesis using rd_add assms(2)
    by (cases "lock (rw s)") (auto simp: rw_inv_def count_moved(1) [OF rd_add(2)])
next
  case (rd_sub t)
  have "0 < count_of rd_holder (threads s)" "0 < count_of (\<lambda>t. t = Reading) (threads s)"
    by (rule count_moved(2) [OF rd_sub(2)]; simp)+
  then show ?thesis using rd_sub assms(2)
    by (cases "lock (rw s)") (auto simp: rw_inv_def count_moved(1) [OF rd_sub(2)])
next
  case (rd_unlock t)
  have "0 < count_of rd_holder (threads s)" by (rule count_moved(2) [OF rd_unlock(2)]; simp)
  then show ?thesis using rd_unlock assms(2)
    by (cases "lock (rw s)") (auto simp: rw_inv_def count_moved(1) [OF rd_unlock(2)])
next
  case (wrlock t l)
  then show ?thesis using assms(2)
    by (cases "lock (rw s)") (auto simp: rw_inv_def count_moved(1) [OF wrlock(2)])
next
  case (wr_fail t)
  then show ?thesis using assms(2)
    by (cases "lock (rw s)") (auto simp: rw_inv_def count_moved(1) [OF wr_fail(2)])
next
  case (wr_failed t)
  then show ?thesis using assms(2)
    by (cases "lock (rw s)") (auto simp: rw_inv_def count_moved(1) [OF wr_failed(2)])
next
  case (wr_add t)
  have "0 < count_of wr_holder (threads s)" by (rule count_moved(2) [OF wr_add(2)]; simp)
  then show ?thesis using wr_add assms(2)
    by (cases "lock (rw s)") (auto simp: rw_inv_def count_moved(1) [OF wr_add(2)])
next
  case (wr_sub t)
  have "0 < count_of wr_holder (threads s)" "0 < count_of (\<lambda>t. t = Writing) (threads s)"
    by (rule count_moved(2) [OF wr_sub(2)]; simp)+
  then show ?thesis using wr_sub assms(2)
    by (cases "lock (rw s)") (auto simp: rw_inv_def count_moved(1) [OF wr_sub(2)])
next
  case (wr_unlock t)
  have "0 < count_of wr_holder (threads s)" by (rule count_moved(2) [OF wr_unlock(2)]; simp)
  then show ?thesis using wr_unlock assms(2)
    by (cases "lock (rw s)") (auto simp: rw_inv_def count_moved(1) [OF wr_unlock(2)])
qed

lemma rw_inv_reachable: "(rw_step True)\<^sup>*\<^sup>* (rw_start n) s \<Longrightarrow> rw_inv s"
  by (induction rule: rtranclp_induct) (auto intro: rw_inv_start rw_inv_step)

lemma count_of_two:
  assumes "t < length ts" "u < length ts" "t \<noteq> u" "P (ts ! t)" "P (ts ! u)"
  shows "2 \<le> count_of P ts"
proof -
  have "card {t, u} \<le> card {i. i < length ts \<and> P (ts ! i)}"
    using assms by (intro card_mono) auto
  then show ?thesis using assms(3) by (simp add: count_of_def length_filter_conv_card)
qed

text \<open>
  C18: mutual exclusion for threads that check the result of the lock calls. In every state that
  any number of such threads can reach by interleaving the instructions of the lock routines,
  with any lock call free to fail, a thread in a writing section excludes every other
  reader and writer; the \<open>readers\<close> and \<open>writers\<close> counters are the numbers of threads in reading
  and writing sections, so \<open>writers\<close> is 0 or 1 and the two are never both positive.
\<close>

theorem rwlock_mutual_exclusion:
  assumes "(rw_step True)\<^sup>*\<^sup>* (rw_start n) s"
  shows "(\<forall>t u. at s t Writing \<longrightarrow> t \<noteq> u \<longrightarrow> \<not> at s u Writing \<and> \<not> at s u Reading) \<and>
         readers (rw s) = int (count_of (\<lambda>t. t = Reading) (threads s)) \<and>
         writers (rw s) = int (count_of (\<lambda>t. t = Writing) (threads s)) \<and>
         writers (rw s) \<le> 1 \<and> (writers (rw s) = 0 \<or> readers (rw s) = 0)"
proof -
  have inv: "rw_inv s" using rw_inv_reachable [OF assms] .
  have sub: "count_of (\<lambda>t. t = Reading) (threads s) \<le> count_of rd_holder (threads s)"
    "count_of (\<lambda>t. t = Writing) (threads s) \<le> count_of wr_holder (threads s)"
    by (rule count_of_mono; simp)+
  have excl: "\<not> at s u Writing \<and> \<not> at s u Reading" if "at s t Writing" "t \<noteq> u" for t u
  proof -
    have "0 < count_of wr_holder (threads s)" by (rule count_moved(2) [OF that(1)]) simp
    then have c: "count_of wr_holder (threads s) = 1" "count_of rd_holder (threads s) = 0"
      using inv by (auto simp: rw_inv_def split: pthread_rwlock.splits)
    have "\<not> at s u Writing"
      using count_of_two [of t "threads s" u wr_holder] that c(1) by (auto simp: at_def)
    moreover have "\<not> at s u Reading"
      using count_moved(2) [of s u Reading rd_holder] c(2) by auto
    ultimately show ?thesis by simp
  qed
  show ?thesis
    using excl inv sub by (auto simp: rw_inv_def split: pthread_rwlock.splits)
qed

text \<open>
  No deadlock. In every reachable state with at least one thread some thread can move on
  without a lock call failing: threads only ever wait for a holder, and a holder is never
  waiting.
\<close>

theorem rwlock_no_deadlock:
  assumes "(rw_step True)\<^sup>*\<^sup>* (rw_start n) s" and "threads s \<noteq> []"
  shows "\<exists>s' t pc. rw_step True s s' \<and> threads s' = (threads s)[t := pc] \<and> pc \<noteq> RdFailed \<and> pc \<noteq> WrFailed"
proof (cases "\<exists>t. t < length (threads s) \<and> threads s ! t \<noteq> Idle")
  case True
  then obtain t where "t < length (threads s)" "threads s ! t \<noteq> Idle" by blast
  then have "at s t (threads s ! t)" by (simp add: at_def)
  then show ?thesis using \<open>threads s ! t \<noteq> Idle\<close>
    by (cases "threads s ! t")
      (fastforce dest: rw_step.intros(3-6) [of s t True] rw_step.intros(9-12) [of s t True])+
next
  case False
  then have "count_of rd_holder (threads s) = 0" "count_of wr_holder (threads s) = 0"
    by (auto simp: count_of_zero)
  then have "lock (rw s) = Free"
    using rw_inv_reachable [OF assms(1)] by (auto simp: rw_inv_def split: pthread_rwlock.splits)
  then have "pthread_rdlock (lock (rw s)) = Some (RdHeld 1)" by simp
  moreover have "at s 0 Idle" using False assms(2) by (auto simp: at_def)
  ultimately show ?thesis by (fastforce dest: rw_step.rdlock [of s 0 _ True])
qed

text \<open>The sequential routines are the two instructions of one thread in a row.\<close>

lemma rwlock_read_lock_steps:
  assumes "at s t Idle" and "rwlock_read_lock True (rw s) = Some (RWLOCK_OK, l)"
  shows "(rw_step chk)\<^sup>*\<^sup>* s (go (s\<lparr>rw := l\<rparr>) t Reading)"
proof -
  obtain k where k: "pthread_rdlock (lock (rw s)) = Some k"
    "l = (rw s)\<lparr>lock := k, readers := readers (rw s) + 1\<rparr>"
    using assms(2) by (auto simp: rwlock_read_lock_def split: option.splits)
  let ?m = "go (s\<lparr>rw := (rw s)\<lparr>lock := k\<rparr>\<rparr>) t RdAcquired"
  have "rw_step chk s ?m" using assms(1) k(1) by (rule rw_step.rdlock)
  moreover have "at ?m t RdAcquired" using at_bound [OF assms(1)] by simp
  from rw_step.rd_add [OF this] have "rw_step chk ?m (go (s\<lparr>rw := l\<rparr>) t Reading)"
    by (simp add: k(2))
  ultimately show ?thesis by (meson converse_rtranclp_into_rtranclp r_into_rtranclp)
qed


text \<open>In a single thread a free lock is taken and given back without a failure.\<close>

lemma rwlock_write_pair:
  assumes "lock l = Free"
  shows "\<exists>l'. rwlock_write_lock (wrlock_ok (lock l)) l = Some (RWLOCK_OK, l') \<and> rwlock_write_unlock l' = l"
  using assms by (simp add: rwlock_write_lock_def rwlock_write_unlock_def Let_def)

lemma rwlock_read_pair:
  assumes "lock l = Free"
  shows "\<exists>l'. rwlock_read_lock (rdlock_ok (lock l)) l = Some (RWLOCK_OK, l') \<and> rwlock_read_unlock l' = l"
  using assms by (simp add: rwlock_read_lock_def rwlock_read_unlock_def Let_def)

theorem rwlock_mutual_exclusion_witness:
  "\<exists>s. (rw_step True)\<^sup>*\<^sup>* (rw_start 2) s \<and> at s 0 Reading \<and> at s 1 WrFailed \<and>
       readers (rw s) = 1 \<and> writers (rw s) = 0"
proof -
  let ?l = "\<lparr>lock = RdHeld 1, readers = 1, writers = 0\<rparr>"
  let ?m = "go ((rw_start 2)\<lparr>rw := ?l\<rparr>) 0 Reading"
  have "at (rw_start 2) 0 Idle" by (simp add: at_def rw_start_def)
  from rwlock_read_lock_steps [OF this, of ?l True]
  have "(rw_step True)\<^sup>*\<^sup>* (rw_start 2) ?m"
    by (simp add: rwlock_read_lock_def rw_start_def zero_lock_def)
  moreover have "rw_step True ?m (go ?m 1 WrFailed)"
    by (rule rw_step.wr_fail) (simp add: at_def rw_start_def)
  ultimately have r: "(rw_step True)\<^sup>*\<^sup>* (rw_start 2) (go ?m 1 WrFailed)" by simp
  have "at (go ?m 1 WrFailed) 0 Reading" "at (go ?m 1 WrFailed) 1 WrFailed"
    by (simp_all add: at_def rw_start_def)
  then show ?thesis using r rwlock_mutual_exclusion [OF r] by (intro exI [of _ "go ?m 1 WrFailed"]) simp
qed

theorem rwlock_no_deadlock_witness:
  "\<exists>s' t pc. rw_step True (rw_start 2) s' \<and> threads s' = (threads (rw_start 2))[t := pc] \<and>
     pc \<noteq> RdFailed \<and> pc \<noteq> WrFailed"
  by (rule rwlock_no_deadlock [of 2]) (simp_all add: rw_start_def)



end
