(* ===== verification/Buffer.thy ===== *)
theory Buffer imports PageDisk RwLock begin

text \<open>
  The buffer pool of storage/buffer/buffer.c: seven frames over the page file. A
  \<open>BufferFrame *\<close> is the index of the frame, a null pointer is \<open>None\<close>, and the page file
  that \<open>table_fd\<close> names is threaded next to the pool.
\<close>

definition BUFFER_POOL_SIZE :: nat where "BUFFER_POOL_SIZE = 7"
definition INVALID_PAGE_ID :: u32 where "INVALID_PAGE_ID = -1"

lemma BUFFER_POOL_SIZE_eq [simp]: "BUFFER_POOL_SIZE = 7"
  by (simp add: BUFFER_POOL_SIZE_def)

datatype BufResult = BUF_OK | BUF_ERROR | BUF_NOT_FOUND

record BufferFrame =
  fr_page :: "page option"
  fr_page_id :: u32
  fr_dirty :: bool
  fr_pin_count :: int
  fr_lru_rank :: u64
  fr_lock :: RWLock

record BufferPool =
  frames :: "BufferFrame list"
  clock :: u64

text \<open>The scans \<open>for (i = 0; i < BUFFER_POOL_SIZE; i++) if (...) return i; return -1;\<close>\<close>

fun first_from :: "('a \<Rightarrow> bool) \<Rightarrow> nat \<Rightarrow> 'a list \<Rightarrow> nat option" where
  "first_from P i [] = None"
| "first_from P i (x # xs) = (if P x then Some i else first_from P (Suc i) xs)"

definition find_frame :: "BufferPool \<Rightarrow> u32 \<Rightarrow> nat option" where
  "find_frame pool n = first_from (\<lambda>fr. fr_page_id fr = n \<and> fr_page fr \<noteq> None) 0 (frames pool)"

definition find_empty :: "BufferPool \<Rightarrow> nat option" where
  "find_empty pool = first_from (\<lambda>fr. fr_page fr = None) 0 (frames pool)"

fun find_lru_loop :: "BufferFrame list \<Rightarrow> nat \<Rightarrow> nat \<times> u64 \<Rightarrow> nat \<times> u64" where
  "find_lru_loop [] i best = best"
| "find_lru_loop (fr # frs) i (idx, rank) =
     find_lru_loop frs (Suc i) (if fr_lru_rank fr < rank then (i, fr_lru_rank fr) else (idx, rank))"

definition find_lru :: "BufferPool \<Rightarrow> nat" where
  "find_lru pool = fst (find_lru_loop (tl (frames pool)) 1 (0, fr_lru_rank (frames pool ! 0)))"

text \<open>
  Evicting a frame: a failed \<open>fsync\<close> is only reported on stderr. The frame keeps its pin
  count and its lock.
\<close>

definition upd_frame :: "BufferPool \<Rightarrow> nat \<Rightarrow> (BufferFrame \<Rightarrow> BufferFrame) \<Rightarrow> BufferPool" where
  "upd_frame pool i g = pool\<lparr>frames := (frames pool)[i := g (frames pool ! i)]\<rparr>"

definition evict_frame :: "BufferPool \<Rightarrow> osfile \<Rightarrow> nat \<Rightarrow> BufResult \<times> BufferPool \<times> osfile" where
  "evict_frame pool f idx =
     (let frame = frames pool ! idx;
          drop_page = \<lambda>fr. fr\<lparr>fr_page := None, fr_page_id := INVALID_PAGE_ID, fr_dirty := False,
                               fr_lru_rank := 0\<rparr>
      in case fr_page frame of
           None \<Rightarrow> (BUF_OK, pool, f)
         | Some p \<Rightarrow>
             if fr_dirty frame
             then (case page_write_disk p f of
                     (pr, p, f) \<Rightarrow>
                       let pool = upd_frame pool idx (\<lambda>fr. fr\<lparr>fr_page := Some p\<rparr>) in
                       if pr \<noteq> PAGE_OK then (BUF_ERROR, pool, f)
                       else (BUF_OK, upd_frame pool idx drop_page, snd (os_fsync f)))
             else (BUF_OK, upd_frame pool idx drop_page, f))"

definition buf_init :: "BufferPool" where
  "buf_init =
     \<lparr>frames = replicate BUFFER_POOL_SIZE
        \<lparr>fr_page = None, fr_page_id = INVALID_PAGE_ID, fr_dirty = False, fr_pin_count = 0,
         fr_lru_rank = 0, fr_lock = zero_lock\<rparr>,
      clock = 1\<rparr>"

text \<open>A free frame: an empty one, or the one the LRU policy gives up.\<close>

definition take_slot :: "BufferPool \<Rightarrow> osfile \<Rightarrow> nat option \<times> BufferPool \<times> osfile" where
  "take_slot pool f =
     (case find_empty pool of
        Some slot \<Rightarrow> (Some slot, pool, f)
      | None \<Rightarrow>
          (let slot = find_lru pool in
           case evict_frame pool f slot of
             (r, pool, f) \<Rightarrow> if r \<noteq> BUF_OK then (None, pool, f) else (Some slot, pool, f)))"

text \<open>
  \<open>buf_pin\<close> and \<open>buf_new_page\<close>; \<open>mem\<close> is whether \<open>page_alloc\<close> gets memory.
\<close>

definition buf_pin ::
  "bool \<Rightarrow> BufferPool \<Rightarrow> osfile \<Rightarrow> u32 \<Rightarrow> nat option \<times> BufferPool \<times> osfile" where
  "buf_pin mem pool f page_id =
     (case find_frame pool page_id of
        Some idx \<Rightarrow>
          (Some idx,
           (upd_frame pool idx (\<lambda>fr. fr\<lparr>fr_lru_rank := clock pool\<rparr>))\<lparr>clock := clock pool + 1\<rparr>, f)
      | None \<Rightarrow>
          (case take_slot pool f of
             (None, pool, f) \<Rightarrow> (None, pool, f)
           | (Some slot, pool, f) \<Rightarrow>
               (case page_alloc mem page_id of
                  None \<Rightarrow> (None, pool, f)
                | Some page \<Rightarrow>
                    (case page_read_disk page f page_id of
                       (pr, page, f) \<Rightarrow>
                         if pr \<noteq> PAGE_OK then (None, pool, f)
                         else
                           let pool = upd_frame pool slot (\<lambda>fr. fr\<lparr>fr_page := Some page,
                                        fr_page_id := page_id, fr_dirty := False,
                                        fr_lru_rank := clock pool\<rparr>);
                               pool = pool\<lparr>clock := clock pool + 1\<rparr>;
                               pool = upd_frame pool slot (\<lambda>fr. fr\<lparr>fr_lock :=
                                        snd (rwlock_init True (fr_lock fr))\<rparr>)
                           in (Some slot, pool, f)))))"

definition buf_new_page ::
  "bool \<Rightarrow> BufferPool \<Rightarrow> osfile \<Rightarrow> u32 \<Rightarrow> nat option \<times> BufferPool \<times> osfile" where
  "buf_new_page mem pool f page_id =
     (case take_slot pool f of
        (None, pool, f) \<Rightarrow> (None, pool, f)
      | (Some slot, pool, f) \<Rightarrow>
          (case page_alloc mem page_id of
             None \<Rightarrow> (None, pool, f)
           | Some page \<Rightarrow>
               (Some slot,
                (upd_frame pool slot (\<lambda>fr. fr\<lparr>fr_page := Some page, fr_page_id := page_id,
                    fr_dirty := True, fr_lru_rank := clock pool\<rparr>))\<lparr>clock := clock pool + 1\<rparr>, f)))"

definition buf_mark_dirty :: "BufferPool \<Rightarrow> nat option \<Rightarrow> BufferPool" where
  "buf_mark_dirty pool frame =
     (case frame of None \<Rightarrow> pool | Some i \<Rightarrow> upd_frame pool i (\<lambda>fr. fr\<lparr>fr_dirty := True\<rparr>))"

text \<open>
  \<open>buf_mark_clean\<close> returns early when the frame is \<^emph>\<open>not\<close> null and writes through it
  otherwise.
\<close>

definition buf_mark_clean :: "BufferPool \<Rightarrow> nat option \<Rightarrow> BufferPool option" where
  "buf_mark_clean pool frame = (case frame of Some i \<Rightarrow> Some pool | None \<Rightarrow> None)"

definition buf_unpin :: "BufferPool \<Rightarrow> nat option \<Rightarrow> BufferPool" where
  "buf_unpin pool frame =
     (case frame of
        None \<Rightarrow> pool
      | Some i \<Rightarrow> if fr_pin_count (frames pool ! i) > 0
                  then upd_frame pool i (\<lambda>fr. fr\<lparr>fr_pin_count := fr_pin_count fr - 1\<rparr>)
                  else pool)"

text \<open>\<open>buf_flush_all\<close>: one iteration, the loop and the final \<open>fsync\<close>.\<close>

definition flush_step :: "nat \<Rightarrow> BufResult \<times> BufferPool \<times> osfile \<Rightarrow> BufResult \<times> BufferPool \<times> osfile" where
  "flush_step i st =
     (case st of
        (result, pool, f) \<Rightarrow>
          (case fr_page (frames pool ! i) of
             None \<Rightarrow> st
           | Some p \<Rightarrow>
               if \<not> fr_dirty (frames pool ! i) then st
               else (case page_write_disk p f of
                       (pr, p, f) \<Rightarrow>
                         let pool = upd_frame pool i (\<lambda>fr. fr\<lparr>fr_page := Some p\<rparr>) in
                         if pr \<noteq> PAGE_OK then (BUF_ERROR, pool, f)
                         else (result, upd_frame pool i (\<lambda>fr. fr\<lparr>fr_dirty := False\<rparr>), f))))"

definition buf_flush_all :: "BufferPool \<Rightarrow> osfile \<Rightarrow> BufResult \<times> BufferPool \<times> osfile" where
  "buf_flush_all pool f =
     (case fold flush_step [0 ..< BUFFER_POOL_SIZE] (BUF_OK, pool, f) of
        (result, pool, f) \<Rightarrow> (result, pool, if result = BUF_OK then snd (os_fsync f) else f))"

definition buf_destroy :: "BufferPool \<Rightarrow> osfile \<Rightarrow> BufferPool \<times> osfile" where
  "buf_destroy pool f =
     (case buf_flush_all pool f of
        (result, pool, f) \<Rightarrow>
          (pool\<lparr>frames := map (\<lambda>fr. if fr_page fr \<noteq> None then fr\<lparr>fr_page := None\<rparr> else fr) (frames pool)\<rparr>, f))"

text \<open>Facts about the scans and about changing one frame.\<close>

lemma first_from_Some:
  "first_from P i xs = Some k \<longleftrightarrow>
     i \<le> k \<and> k < i + length xs \<and> P (xs ! (k - i)) \<and> (\<forall>j < k - i. \<not> P (xs ! j))"
proof (induction xs arbitrary: i)
  case (Cons x xs)
  show ?case
  proof (cases "P x")
    case True
    then show ?thesis by (auto simp: nth_Cons' split: if_splits)
  next
    case False
    then have "first_from P i (x # xs) = Some k \<longleftrightarrow>
        Suc i \<le> k \<and> k < Suc i + length xs \<and> P (xs ! (k - Suc i)) \<and> (\<forall>j < k - Suc i. \<not> P (xs ! j))"
      using Cons.IH [of "Suc i"] by simp
    also have "\<dots> \<longleftrightarrow> i \<le> k \<and> k < i + length (x # xs) \<and> P ((x # xs) ! (k - i)) \<and>
        (\<forall>j < k - i. \<not> P ((x # xs) ! j))"
    proof (cases "i < k")
      case True
      then obtain d where k: "k = Suc (i + d)" using less_imp_Suc_add by blast
      show ?thesis using False by (auto simp: k All_less_Suc2)
    qed (use False in \<open>auto simp: not_less\<close>)
    finally show ?thesis .
  qed
qed simp

lemma first_from_None: "first_from P i xs = None \<longleftrightarrow> (\<forall>x \<in> set xs. \<not> P x)"
  by (induction xs arbitrary: i) auto

lemma upd_frame_simps [simp]:
  "length (frames (upd_frame pool i g)) = length (frames pool)"
  "clock (upd_frame pool i g) = clock pool"
  "i < length (frames pool) \<Longrightarrow> frames (upd_frame pool i g) ! i = g (frames pool ! i)"
  "j \<noteq> i \<Longrightarrow> frames (upd_frame pool i g) ! j = frames pool ! j"
  "i < length (frames pool) \<Longrightarrow>
     upd_frame (upd_frame pool i g) i h = upd_frame pool i (\<lambda>fr. h (g fr))"
  by (auto simp: upd_frame_def)

lemma upd_frame_clock [simp]: "upd_frame (pool\<lparr>clock := k\<rparr>) i g = (upd_frame pool i g)\<lparr>clock := k\<rparr>"
  by (cases pool) (simp add: upd_frame_def)

lemma find_frame_Some:
  assumes "find_frame pool n = Some i"
  shows "i < length (frames pool)" and "fr_page_id (frames pool ! i) = n"
    and "fr_page (frames pool ! i) \<noteq> None"
  using assms by (auto simp: find_frame_def first_from_Some)

lemma find_empty_Some:
  assumes "find_empty pool = Some i"
  shows "i < length (frames pool)" and "fr_page (frames pool ! i) = None"
  using assms by (auto simp: find_empty_def first_from_Some)

lemma find_lru_loop_min:
  assumes "find_lru_loop frs i (idx, rank) = (k, r)"
  shows "((k, r) = (idx, rank) \<or> (i \<le> k \<and> k < i + length frs \<and> r = fr_lru_rank (frs ! (k - i)))) \<and>
         r \<le> rank \<and> (\<forall>fr \<in> set frs. r \<le> fr_lru_rank fr)"
  using assms
proof (induction frs arbitrary: i idx rank)
  case (Cons fr frs)
  show ?case
  proof (cases "fr_lru_rank fr < rank")
    case True
    then show ?thesis
      using Cons.IH [of "Suc i" i "fr_lru_rank fr"] Cons.prems
      by (auto simp: nth_Cons' Suc_diff_Suc split: if_splits)
  next
    case False
    then show ?thesis
      using Cons.IH [of "Suc i" idx rank] Cons.prems
      by (auto simp: nth_Cons' Suc_diff_Suc split: if_splits)
  qed
qed simp

lemma find_lru_min:
  assumes "frames pool \<noteq> []"
  shows "find_lru pool < length (frames pool)"
    and "j < length (frames pool) \<Longrightarrow>
           fr_lru_rank (frames pool ! find_lru pool) \<le> fr_lru_rank (frames pool ! j)"
proof -
  obtain fr frs where fr: "frames pool = fr # frs" using assms by (cases "frames pool") auto
  obtain k r where k: "find_lru_loop frs 1 (0, fr_lru_rank fr) = (k, r)" by fastforce
  note min = find_lru_loop_min [OF k]
  have lru: "find_lru pool = k" using k by (simp add: find_lru_def fr)
  show "find_lru pool < length (frames pool)" using min by (auto simp: lru fr)
  have "fr_lru_rank (frames pool ! k) = r" using min by (auto simp: fr nth_Cons')
  moreover have "r \<le> fr_lru_rank (frames pool ! j)" if "j < length (frames pool)"
    using min that by (cases j) (auto simp: fr)
  ultimately show "j < length (frames pool) \<Longrightarrow>
      fr_lru_rank (frames pool ! find_lru pool) \<le> fr_lru_rank (frames pool ! j)"
    by (simp add: lru)
qed

end
