(* ===== verification/BufferInv.thy ===== *)
theory BufferInv imports Buffer begin

text \<open>
  The specification of the buffer pool: with the file it is one map from page ids to pages.
  \<open>held\<close> is the partial map of the cached pages with their dirty flags, \<open>cache_view\<close> the page
  a client sees (up to the checksum field, which only a write to disk brings up to date),
  and \<open>cache_ok\<close> the coherence of cache and file. The effect of each elementary step on the
  pair of cache and file is proved here once.
\<close>

type_synonym cache = "u32 \<Rightarrow> (page \<times> bool) option"

definition held :: "BufferPool \<Rightarrow> cache" where
  "held pool n =
     (case find_frame pool n of
        None \<Rightarrow> None
      | Some i \<Rightarrow> map_option (\<lambda>p. (p, fr_dirty (frames pool ! i))) (fr_page (frames pool ! i)))"

definition cache_view :: "cache \<Rightarrow> bytes \<Rightarrow> u32 \<Rightarrow> page option" where
  "cache_view h c n = (case h n of Some (p, d) \<Rightarrow> Some (stamp p) | None \<Rightarrow> block c (unat n))"

text \<open>
  Coherence: a cached page is a page with its own id in the header; a clean one agrees with
  the file; below a cached page every page exists (so a write behind the end of the file
  leaves no unclaimed hole); and an uncached page of the file has its id and a checksum that
  fits.
\<close>

definition cache_ok :: "cache \<Rightarrow> bytes \<Rightarrow> bool" where
  "cache_ok h c \<longleftrightarrow>
     (\<forall>n p d. h n = Some (p, d) \<longrightarrow>
        length p = 4096 \<and> hdr_page_id p = n \<and> (\<not> d \<longrightarrow> block c (unat n) = Some (stamp p)) \<and>
        (\<forall>m < n. cache_view h c m \<noteq> None)) \<and>
     (\<forall>n b. h n = None \<longrightarrow> block c (unat n) = Some b \<longrightarrow> hdr_page_id b = n \<and> stamp b = b)"

definition frames_ok :: "BufferPool \<Rightarrow> bool" where
  "frames_ok pool \<longleftrightarrow>
     length (frames pool) = 7 \<and>
     (\<forall>i < 7. \<forall>j < 7. i \<noteq> j \<longrightarrow> fr_page (frames pool ! i) \<noteq> None \<longrightarrow> fr_page (frames pool ! j) \<noteq> None \<longrightarrow>
        fr_page_id (frames pool ! i) \<noteq> fr_page_id (frames pool ! j))"

definition pool_inv :: "BufferPool \<Rightarrow> bytes \<Rightarrow> bool" where
  "pool_inv pool c \<longleftrightarrow> frames_ok pool \<and> cache_ok (held pool) c"

definition view :: "BufferPool \<Rightarrow> bytes \<Rightarrow> u32 \<Rightarrow> page option" where
  "view pool c = cache_view (held pool) c"

text \<open>The cache map and the frame array.\<close>

lemma find_frame_unique:
  assumes "frames_ok pool" and "i < 7" and "fr_page (frames pool ! i) \<noteq> None"
  shows "find_frame pool (fr_page_id (frames pool ! i)) = Some i"
proof (cases "find_frame pool (fr_page_id (frames pool ! i))")
  case None
  then show ?thesis using assms by (auto simp: find_frame_def first_from_None frames_ok_def)
next
  case (Some j)
  then show ?thesis using find_frame_Some [OF Some] assms by (auto simp: frames_ok_def)
qed

lemma held_frame:
  assumes "frames_ok pool" and "i < 7" and "fr_page (frames pool ! i) = Some p"
  shows "held pool (fr_page_id (frames pool ! i)) = Some (p, fr_dirty (frames pool ! i))"
  using find_frame_unique [OF assms(1,2)] assms(3) by (simp add: held_def)

lemma held_SomeD:
  assumes "frames_ok pool" and "held pool n = Some (p, d)"
  obtains i where "find_frame pool n = Some i" and "i < 7" and "fr_page (frames pool ! i) = Some p"
    and "fr_page_id (frames pool ! i) = n" and "fr_dirty (frames pool ! i) = d"
proof -
  from assms(2) obtain i where i: "find_frame pool n = Some i"
    "fr_page (frames pool ! i) = Some p" "fr_dirty (frames pool ! i) = d"
    by (auto simp: held_def split: option.splits)
  then show ?thesis using that find_frame_Some [OF i(1)] assms(1) by (auto simp: frames_ok_def)
qed

lemma held_iff:
  assumes "frames_ok pool"
  shows "held pool n = Some (p, d) \<longleftrightarrow>
      (\<exists>j < 7. fr_page (frames pool ! j) = Some p \<and> fr_page_id (frames pool ! j) = n \<and>
               fr_dirty (frames pool ! j) = d)"
proof
  assume "held pool n = Some (p, d)"
  then show "\<exists>j < 7. fr_page (frames pool ! j) = Some p \<and> fr_page_id (frames pool ! j) = n \<and>
      fr_dirty (frames pool ! j) = d"
    by (rule held_SomeD [OF assms]) blast
next
  assume "\<exists>j < 7. fr_page (frames pool ! j) = Some p \<and> fr_page_id (frames pool ! j) = n \<and>
      fr_dirty (frames pool ! j) = d"
  then show "held pool n = Some (p, d)" using held_frame [OF assms] by blast
qed

lemma held_None: "held pool n = None \<longleftrightarrow> find_frame pool n = None"
  using find_frame_Some(3) [of pool n] by (auto simp: held_def split: option.splits)

text \<open>
  Replacing the content of frame \<open>i\<close>: the new frame is empty, keeps its page id, or takes the
  id of a page that is not cached.
\<close>

lemma held_upd:
  assumes fo: "frames_ok pool" and i: "i < 7"
    and new: "fr_page (g (frames pool ! i)) \<noteq> None \<Longrightarrow>
        held pool (fr_page_id (g (frames pool ! i))) = None \<or>
        fr_page (frames pool ! i) \<noteq> None \<and> fr_page_id (g (frames pool ! i)) = fr_page_id (frames pool ! i)"
  defines "old \<equiv> if fr_page (frames pool ! i) = None then held pool
                 else (held pool)(fr_page_id (frames pool ! i) := None)"
  shows "frames_ok (upd_frame pool i g)"
    and "held (upd_frame pool i g) =
           (case fr_page (g (frames pool ! i)) of
              None \<Rightarrow> old
            | Some q \<Rightarrow> old(fr_page_id (g (frames pool ! i)) \<mapsto> (q, fr_dirty (g (frames pool ! i)))))"
proof -
  let ?fr = "frames pool ! i" and ?pool = "upd_frame pool i g"
  have len: "length (frames pool) = 7" using fo by (simp add: frames_ok_def)
  have other: "fr_page_id (frames pool ! j) \<noteq> fr_page_id (g ?fr)"
    if "j < 7" "j \<noteq> i" "fr_page (frames pool ! j) \<noteq> None" "fr_page (g ?fr) \<noteq> None" for j
    using new [OF that(4)] held_frame [OF fo that(1)] that fo i
    by (auto simp: frames_ok_def)
  show fo': "frames_ok ?pool"
    unfolding frames_ok_def
  proof (intro conjI allI impI)
    fix j k assume jk: "j < 7" "k < 7" "j \<noteq> k"
      "fr_page (frames ?pool ! j) \<noteq> None" "fr_page (frames ?pool ! k) \<noteq> None"
    then show "fr_page_id (frames ?pool ! j) \<noteq> fr_page_id (frames ?pool ! k)"
      using other [of j] other [of k] fo len i
      by (cases "j = i"; cases "k = i") (auto simp: frames_ok_def)
  qed (simp add: len i)
  have at_i: "frames ?pool ! i = g ?fr" and ne: "\<And>j. j \<noteq> i \<Longrightarrow> frames ?pool ! j = frames pool ! j"
    using i len by simp_all
  note char = held_iff [OF fo'] and char0 = held_iff [OF fo]
  have oldchar: "old n = Some (p, d) \<longleftrightarrow>
      (\<exists>j < 7. j \<noteq> i \<and> fr_page (frames pool ! j) = Some p \<and> fr_page_id (frames pool ! j) = n \<and>
               fr_dirty (frames pool ! j) = d)" for n p d
  proof (cases "fr_page (frames pool ! i) = None \<or> n \<noteq> fr_page_id (frames pool ! i)")
    case True
    then have "old n = held pool n" by (auto simp: old_def)
    then show ?thesis using True by (auto simp: char0)
  next
    case False
    have "fr_page_id (frames pool ! j) \<noteq> n"
      if "j < 7" "j \<noteq> i" "fr_page (frames pool ! j) \<noteq> None" for j
      using False fo i that by (simp add: frames_ok_def)
    then show ?thesis using False by (auto simp: old_def)
  qed
  show "held ?pool = (case fr_page (g ?fr) of None \<Rightarrow> old
            | Some q \<Rightarrow> old(fr_page_id (g ?fr) \<mapsto> (q, fr_dirty (g ?fr))))"
  proof
    fix n
    show "held ?pool n = (case fr_page (g ?fr) of None \<Rightarrow> old
            | Some q \<Rightarrow> old(fr_page_id (g ?fr) \<mapsto> (q, fr_dirty (g ?fr)))) n"
    proof (cases "fr_page (g ?fr) \<noteq> None \<and> n = fr_page_id (g ?fr)")
      case True
      then obtain q where "fr_page (g ?fr) = Some q" by auto
      then show ?thesis using True held_frame [OF fo' i] i len by simp
    next
      case False
      have "held ?pool n = Some (p, d) \<longleftrightarrow> old n = Some (p, d)" for p d
      proof -
        have "held ?pool n = Some (p, d) \<longleftrightarrow>
            (\<exists>j < 7. j \<noteq> i \<and> fr_page (frames ?pool ! j) = Some p \<and> fr_page_id (frames ?pool ! j) = n \<and>
               fr_dirty (frames ?pool ! j) = d)"
          using False at_i char by auto
        then show ?thesis using ne by (auto simp: oldchar)
      qed
      then have "held ?pool n = old n"
        by (metis (no_types, lifting) not_Some_eq surj_pair)
      then show ?thesis using False by (auto split: option.splits)
    qed
  qed
qed

text \<open>Steps on the pair of cache and file.\<close>

lemma block_grow:
  assumes "block (file_put c (i * 4096) bs) j = Some q" and "block c j = None"
    and "i \<noteq> j" and "length bs \<le> 4096"
  shows "j < i"
proof (rule ccontr)
  assume "\<not> j < i"
  then have "i * 4096 + 4096 \<le> j * 4096" using assms(3) by simp
  then show False using assms by (auto simp: block_def length_file_put split: if_splits)
qed

lemma cache_write:
  assumes ok: "cache_ok h c" and n: "h n = Some (p, d)"
    and c': "c' = c \<or> (\<exists>bs. length bs \<le> 4096 \<and> c' = file_put c (unat n * 4096) bs)"
    and d': "d' \<or> block c' (unat n) = Some (stamp p)"
  shows "cache_ok (h(n \<mapsto> (stamp p, d'))) c'" and "cache_view (h(n \<mapsto> (stamp p, d'))) c' = cache_view h c"
proof -
  let ?h = "h(n \<mapsto> (stamp p, d'))"
  have p: "length p = 4096" "hdr_page_id p = n" and below: "\<And>m. m < n \<Longrightarrow> cache_view h c m \<noteq> None"
    using ok n by (auto simp: cache_ok_def)
  have keep: "block c' (unat m) = Some b" if "m \<noteq> n" "block c (unat m) = Some b" for m b
    using c' that block_file_put_other [of c "unat m" b "unat n"] by (auto simp: word_unat_eq_iff)
  have same: "block c' (unat m) = block c (unat m)" if m: "m \<noteq> n" "h m = None" for m
  proof (cases "block c (unat m)")
    case None
    then have "\<not> m < n" using below [of m] m by (auto simp: cache_view_def)
    then show ?thesis
      using None c' block_grow [of c "unat n" _ "unat m"] m(1)
      by (cases "block c' (unat m)") (auto simp: word_less_nat_alt word_unat_eq_iff)
  qed (use keep m in simp)
  show v: "cache_view ?h c' = cache_view h c"
    using n p(1) same by (auto simp: fun_eq_iff cache_view_def split: option.splits)
  show "cache_ok ?h c'"
    unfolding cache_ok_def v
  proof (intro conjI allI impI, goal_cases)
    case (5 m b)
    then have "block c (unat m) = Some b" "h m = None" using same [of m] by (auto split: if_splits)
    then show ?case using ok by (auto simp: cache_ok_def)
  next
    case (6 m b)
    then have "block c (unat m) = Some b" "h m = None" using same [of m] by (auto split: if_splits)
    then show ?case using ok by (auto simp: cache_ok_def)
  next
    case (3 m q e)
    then show ?case using ok keep d' p(1) by (auto simp: cache_ok_def split: if_splits)
  qed (use ok n p below in \<open>auto simp: cache_ok_def split: if_splits\<close>)
qed

lemma cache_drop:
  assumes ok: "cache_ok h c" and n: "h n = Some (p, False)"
  shows "cache_ok (h(n := None)) c" and "cache_view (h(n := None)) c = cache_view h c"
proof -
  have p: "length p = 4096" "hdr_page_id p = n" "block c (unat n) = Some (stamp p)"
    using ok n by (auto simp: cache_ok_def)
  show v: "cache_view (h(n := None)) c = cache_view h c"
    using n p by (auto simp: fun_eq_iff cache_view_def)
  show "cache_ok (h(n := None)) c"
    unfolding cache_ok_def v
    by (intro conjI allI impI) (use ok p in \<open>auto simp: cache_ok_def split: if_splits\<close>)
qed

lemma cache_put:
  assumes ok: "cache_ok h c" and "length p = 4096" and "hdr_page_id p = n"
    and "d \<or> block c (unat n) = Some (stamp p)"
    and "\<And>m. m < n \<Longrightarrow> cache_view h c m \<noteq> None"
  shows "cache_ok (h(n \<mapsto> (p, d))) c" and "cache_view (h(n \<mapsto> (p, d))) c = (cache_view h c)(n \<mapsto> stamp p)"
proof -
  show v: "cache_view (h(n \<mapsto> (p, d))) c = (cache_view h c)(n \<mapsto> stamp p)"
    by (auto simp: fun_eq_iff cache_view_def)
  show "cache_ok (h(n \<mapsto> (p, d))) c"
    unfolding cache_ok_def v
    by (intro conjI allI impI) (use assms in \<open>auto simp: cache_ok_def split: if_splits\<close>)
qed

lemma cache_below:
  assumes "cache_ok h c" and "block c (unat n) = Some b" and "m < n"
  shows "cache_view h c m \<noteq> None"
proof -
  have "(unat m + 1) * 4096 \<le> (unat n + 1) * 4096" using assms(3) by (simp add: word_less_nat_alt)
  then show ?thesis using assms(2) by (auto simp: cache_view_def block_def split: option.splits if_splits)
qed

lemma stamp_own: "length b = 4096 \<Longrightarrow> stamp b = b \<longleftrightarrow> page_checksum b = hdr_checksum b"
  by (metis stamp_def set_checksum_own stamp_simps(3))

end
