(* ===== verification/BufferOps.thy ===== *)
theory BufferOps imports BufferInv begin

text \<open>
  The buffer pool operations against the specification, for every schedule of I/O failures:
  the view of the pages never changes except where a client changes it, and the pool stays
  coherent with the file.
\<close>

lemma frames_ok_length [simp]: "frames_ok pool \<Longrightarrow> length (frames pool) = 7"
  by (simp add: frames_ok_def)

lemma block_at: "block c i = Some b \<Longrightarrow> bslice c (i * 4096) 4096 = b"
  by (auto simp: block_def split: if_splits)

lemma os_read_full:
  assumes "os_read f n = (int n, bs, f')"
  shows "bs = bslice (fcontents f) (foffset f) n \<and> length bs = n"
proof -
  obtain x g where d: "draw f = (x, g)" by (cases "draw f")
  have g: "fcontents g = fcontents f" "foffset g = foffset f" using d by simp_all
  have get: "os_get g k = (int n, bs, f') \<Longrightarrow> k \<le> n \<Longrightarrow>
      bs = bslice (fcontents f) (foffset f) n \<and> length bs = n" for k
    using g by (auto simp: os_get_def Let_def bslice_def min_def split: if_splits)
  show ?thesis using assms d get [of n] get [of "min k n" for k]
    by (cases x) (auto simp: os_read_def)
qed

lemma page_read_disk_cases:
  assumes "length buf = 4096" and "page_read_disk buf f n = (r, p, f')"
  shows "fcontents f' = fcontents f"
    and "r = PAGE_OK \<Longrightarrow> block (fcontents f) (unat n) = Some p \<and> stamp p = p"
proof -
  obtain ok g where l: "os_lseek_set f (unat n * 4096) = (ok, g)" by fastforce
  obtain k bs h where rd: "os_read g 4096 = (k, bs, h)" by (cases "os_read g 4096") auto
  have c: "fcontents g = fcontents f" "fcontents h = fcontents f" using l rd by simp_all
  show "fcontents f' = fcontents f"
    using assms(2) l rd c by (auto simp: page_read_disk_def Let_def split: bool.splits if_splits)
  assume r: "r = PAGE_OK"
  have ok: ok using assms(2) l r by (auto simp: page_read_disk_def split: bool.splits)
  have k: "k = 4096"
    using assms(2) l r rd ok by (auto simp: page_read_disk_def Let_def split: if_splits)
  have "foffset g = unat n * 4096" using l ok os_lseek_set_offset by simp
  moreover have "os_read g 4096 = (int 4096, bs, h)" using rd k by simp
  note os_read_full [OF this]
  ultimately have bs: "bs = bslice (fcontents f) (unat n * 4096) 4096" "length bs = 4096"
    using c(1) by argo+
  then have "block (fcontents f) (unat n) = Some bs"
    by (auto simp: block_def bslice_def min_def split: if_splits)
  moreover have run: "page_read_disk buf f n =
      (if page_checksum bs \<noteq> hdr_checksum bs then (PAGE_ERROR, bs, h) else (PAGE_OK, bs, h))"
    using l rd ok k assms(1) bs(2) by (simp add: page_read_disk_def Let_def blit_whole)
  then have "p = bs" "page_checksum bs = hdr_checksum bs"
    using assms(2) r run by (auto split: if_splits)
  ultimately show "block (fcontents f) (unat n) = Some p \<and> stamp p = p"
    using stamp_own bs(2) by simp
qed

lemma os_fsync_contents [simp]: "fcontents (snd (os_fsync f)) = fcontents f"
  using contents_ops(4) [of f "fst (os_fsync f)" "snd (os_fsync f)"] by simp

lemma write_effect:
  assumes "length p = 4096" and "hdr_page_id p = n" and "page_write_disk p f = (r, p', f')"
  shows "p' = stamp p"
    and "fcontents f' = fcontents f \<or>
           (\<exists>bs. length bs \<le> 4096 \<and> fcontents f' = file_put (fcontents f) (unat n * 4096) bs)"
    and "r = PAGE_OK \<Longrightarrow> block (fcontents f') (unat n) = Some (stamp p)"
proof -
  note w = page_write_disk_cases [OF assms(1,3)]
  show "p' = stamp p" by (rule w(1))
  have len: "length (stamp p) = 4096" using assms(1) by simp
  show "fcontents f' = fcontents f \<or>
      (\<exists>bs. length bs \<le> 4096 \<and> fcontents f' = file_put (fcontents f) (unat n * 4096) bs)"
    using w(2) assms(2) len
    by (metis le_refl length_take min.cobounded1)
  show "block (fcontents f') (unat n) = Some (stamp p)" if "r = PAGE_OK"
    using w(2) that assms(2) len by (auto simp: block_file_put_same)
qed

text \<open>One frame written out: what \<open>evict_frame\<close> and \<open>buf_flush_all\<close> share.\<close>

lemma frame_written:
  assumes inv: "pool_inv pool (fcontents f)" and i: "i < 7"
    and p: "fr_page (frames pool ! i) = Some p"
    and w: "page_write_disk p f = (r, p', f')"
    and d: "r = PAGE_OK \<or> fr_dirty (frames pool ! i) \<and> d"
  defines "pool' \<equiv> upd_frame pool i (\<lambda>fr. fr\<lparr>fr_page := Some p', fr_dirty := d\<rparr>)"
  shows "pool_inv pool' (fcontents f')" and "view pool' (fcontents f') = view pool (fcontents f)"
proof -
  let ?n = "fr_page_id (frames pool ! i)"
  have fo: "frames_ok pool" and co: "cache_ok (held pool) (fcontents f)"
    using inv by (simp_all add: pool_inv_def)
  have h: "held pool ?n = Some (p, fr_dirty (frames pool ! i))" using held_frame [OF fo i p] .
  have pp: "length p = 4096" "hdr_page_id p = ?n" using co h by (auto simp: cache_ok_def)
  note we = write_effect [OF pp w]
  have "d \<or> block (fcontents f') (unat ?n) = Some (stamp p)" using d we(3) by auto
  note cw = cache_write [OF co h we(2) this]
  have "frames_ok pool'" "held pool' = (held pool)(?n \<mapsto> (stamp p, d))"
    using held_upd [OF fo i, of "\<lambda>fr. fr\<lparr>fr_page := Some p', fr_dirty := d\<rparr>"] p we(1)
    by (simp_all add: pool'_def)
  then show "pool_inv pool' (fcontents f')" "view pool' (fcontents f') = view pool (fcontents f)"
    using cw by (simp_all add: pool_inv_def view_def)
qed

lemma frame_dropped:
  assumes inv: "pool_inv pool c" and i: "i < 7" and "fr_page (frames pool ! i) \<noteq> None"
    and "\<not> fr_dirty (frames pool ! i)" and g: "fr_page (g (frames pool ! i)) = None"
  shows "pool_inv (upd_frame pool i g) c" and "view (upd_frame pool i g) c = view pool c"
proof -
  let ?n = "fr_page_id (frames pool ! i)"
  obtain p where p: "fr_page (frames pool ! i) = Some p" using assms(3) by auto
  have fo: "frames_ok pool" and co: "cache_ok (held pool) c" using inv by (simp_all add: pool_inv_def)
  have h: "held pool ?n = Some (p, False)" using held_frame [OF fo i p] assms(4) by simp
  have "frames_ok (upd_frame pool i g)" "held (upd_frame pool i g) = (held pool)(?n := None)"
    using held_upd [OF fo i, of g] g p by simp_all
  then show "pool_inv (upd_frame pool i g) c" "view (upd_frame pool i g) c = view pool c"
    using cache_drop [OF co h] by (simp_all add: pool_inv_def view_def)
qed

lemma evict_frame_law:
  assumes inv: "pool_inv pool (fcontents f)" and i: "i < 7"
    and e: "evict_frame pool f i = (r, pool', f')"
  shows "pool_inv pool' (fcontents f')" and "view pool' (fcontents f') = view pool (fcontents f)"
    and "r = BUF_OK \<Longrightarrow> fr_page (frames pool' ! i) = None"
    and "clock pool' = clock pool"
proof -
  have len: "length (frames pool) = 7" using inv by (simp add: pool_inv_def)
  have "pool_inv pool' (fcontents f') \<and> view pool' (fcontents f') = view pool (fcontents f) \<and>
      (r = BUF_OK \<longrightarrow> fr_page (frames pool' ! i) = None) \<and> clock pool' = clock pool"
  proof (cases "fr_page (frames pool ! i)")
    case None
    then show ?thesis using e inv by (auto simp: evict_frame_def Let_def)
  next
    case (Some p)
    show ?thesis
    proof (cases "fr_dirty (frames pool ! i)")
      case False
      then show ?thesis
        using e inv Some i len frame_dropped [OF inv i _ False]
        by (auto simp: evict_frame_def Let_def)
    next
      case True
      obtain pr p' g where w: "page_write_disk p f = (pr, p', g)"
        by (cases "page_write_disk p f") auto
      let ?w = "\<lambda>d. upd_frame pool i (\<lambda>fr. fr\<lparr>fr_page := Some p', fr_dirty := d\<rparr>)"
      show ?thesis
      proof (cases "pr = PAGE_OK")
        case ok: True
        have fw: "pool_inv (?w False) (fcontents g)"
          "view (?w False) (fcontents g) = view pool (fcontents f)"
          using frame_written [OF inv i Some w, of False] ok by simp_all
        let ?z = "\<lambda>fr. fr\<lparr>fr_page := None, fr_page_id := INVALID_PAGE_ID, fr_dirty := False,
            fr_lru_rank := 0\<rparr>"
        have "pool' = upd_frame (?w False) i ?z" "r = BUF_OK" "fcontents f' = fcontents g"
          using e Some True w ok i len by (auto simp: evict_frame_def Let_def)
        then show ?thesis
          using frame_dropped [OF fw(1) i, of ?z] fw i len by simp
      next
        case False
        have "(frames pool ! i)\<lparr>fr_page := Some p', fr_dirty := True\<rparr> = (frames pool ! i)\<lparr>fr_page := Some p'\<rparr>"
          using True by (cases "frames pool ! i") simp
        then have "?w True = upd_frame pool i (\<lambda>fr. fr\<lparr>fr_page := Some p'\<rparr>)"
          by (simp only: upd_frame_def)
        then show ?thesis
          using e Some True w False frame_written [OF inv i Some w, of True]
          by (auto simp: evict_frame_def Let_def)
      qed
    qed
  qed
  then show "pool_inv pool' (fcontents f')" "view pool' (fcontents f') = view pool (fcontents f)"
    "r = BUF_OK \<Longrightarrow> fr_page (frames pool' ! i) = None" "clock pool' = clock pool" by simp_all
qed

lemma take_slot_law:
  assumes inv: "pool_inv pool (fcontents f)" and t: "take_slot pool f = (slot, pool', f')"
  shows "pool_inv pool' (fcontents f')" and "view pool' (fcontents f') = view pool (fcontents f)"
    and "slot = Some i \<Longrightarrow> i < 7 \<and> fr_page (frames pool' ! i) = None"
    and "clock pool' = clock pool"
proof -
  have len: "length (frames pool) = 7" using inv by (simp add: pool_inv_def)
  have "pool_inv pool' (fcontents f') \<and> view pool' (fcontents f') = view pool (fcontents f) \<and>
      (\<forall>i. slot = Some i \<longrightarrow> i < 7 \<and> fr_page (frames pool' ! i) = None) \<and> clock pool' = clock pool"
  proof (cases "find_empty pool")
    case (Some j)
    then show ?thesis using t inv find_empty_Some [OF Some] len by (auto simp: take_slot_def)
  next
    case None
    have v: "find_lru pool < 7" using find_lru_min(1) [of pool] len by fastforce
    obtain r p g where e: "evict_frame pool f (find_lru pool) = (r, p, g)"
      by (cases "evict_frame pool f (find_lru pool)") auto
    then show ?thesis
      using t None v evict_frame_law [OF inv v e] by (auto simp: take_slot_def split: if_splits)
  qed
  then show "pool_inv pool' (fcontents f')" "view pool' (fcontents f') = view pool (fcontents f)"
    "slot = Some i \<Longrightarrow> i < 7 \<and> fr_page (frames pool' ! i) = None" "clock pool' = clock pool"
    by simp_all
qed

text \<open>Making room does not bring a page into the pool.\<close>

lemma find_frame_cleared:
  assumes "find_frame pool n = None" and "fr_page (g (frames pool ! i)) = None"
  shows "find_frame (upd_frame pool i g) n = None"
proof -
  have "set (frames (upd_frame pool i g)) \<subseteq> insert (g (frames pool ! i)) (set (frames pool))"
    using set_update_subset_insert [of "frames pool" i "g (frames pool ! i)"]
    by (simp add: upd_frame_def)
  then show ?thesis using assms by (auto simp: find_frame_def first_from_None dest!: subsetD)
qed

lemma find_frame_same_id:
  assumes "find_frame pool n = None" and "fr_page_id (g (frames pool ! i)) = fr_page_id (frames pool ! i)"
    and "fr_page (frames pool ! i) \<noteq> None" and "i < length (frames pool)"
  shows "find_frame (upd_frame pool i g) n = None"
proof -
  have "frames pool ! i \<in> set (frames pool)" using assms(4) by simp
  then have "fr_page_id (frames pool ! i) \<noteq> n"
    using assms(1,3) by (auto simp: find_frame_def first_from_None)
  moreover have "set (frames (upd_frame pool i g)) \<subseteq> insert (g (frames pool ! i)) (set (frames pool))"
    using set_update_subset_insert [of "frames pool" i "g (frames pool ! i)"]
    by (simp add: upd_frame_def)
  ultimately show ?thesis
    using assms(1,2) by (auto simp: find_frame_def first_from_None dest!: subsetD)
qed

lemma evict_frame_absent:
  assumes "find_frame pool n = None" and "evict_frame pool f i = (r, pool', f')"
    and "i < length (frames pool)"
  shows "find_frame pool' n = None"
proof (cases "fr_page (frames pool ! i)")
  case None
  then show ?thesis using assms by (simp add: evict_frame_def Let_def)
next
  case (Some p)
  obtain pr q g where w: "page_write_disk p f = (pr, q, g)" by (cases "page_write_disk p f") auto
  show ?thesis
    using assms Some w find_frame_cleared [OF assms(1), of _ i] find_frame_same_id [OF assms(1), of _ i]
    by (auto simp: evict_frame_def Let_def split: if_splits)
qed

lemma take_slot_absent:
  assumes "pool_inv pool c" and "take_slot pool f = (slot, pool', f')" and "find_frame pool n = None"
  shows "find_frame pool' n = None"
proof -
  have "length (frames pool) = 7" using assms(1) by (simp add: pool_inv_def)
  then have v: "find_lru pool < length (frames pool)" using find_lru_min(1) [of pool] by fastforce
  obtain r p g where e: "evict_frame pool f (find_lru pool) = (r, p, g)"
    by (cases "evict_frame pool f (find_lru pool)") auto
  show ?thesis
    using assms e evict_frame_absent [OF assms(3) e v]
    by (auto simp: take_slot_def split: option.splits if_splits)
qed

text \<open>Changes of a frame that the specification does not see.\<close>

lemma held_clock [simp]: "held (pool\<lparr>clock := k\<rparr>) = held pool"
  by (rule ext) (simp add: held_def find_frame_def split: option.split)

lemma pool_inv_clock [simp]:
  "pool_inv (pool\<lparr>clock := k\<rparr>) c = pool_inv pool c" "view (pool\<lparr>clock := k\<rparr>) c = view pool c"
  by (simp_all add: pool_inv_def view_def) (simp add: frames_ok_def)

lemma frame_touched:
  assumes inv: "pool_inv pool c" and i: "i < 7"
    and g: "fr_page (g (frames pool ! i)) = fr_page (frames pool ! i)"
      "fr_page_id (g (frames pool ! i)) = fr_page_id (frames pool ! i)"
      "fr_dirty (g (frames pool ! i)) = fr_dirty (frames pool ! i)"
  shows "pool_inv (upd_frame pool i g) c" and "view (upd_frame pool i g) c = view pool c"
proof -
  have fo: "frames_ok pool" using inv by (simp add: pool_inv_def)
  have "held (upd_frame pool i g) = held pool \<and> frames_ok (upd_frame pool i g)"
    using held_upd [OF fo i, of g] held_frame [OF fo i] g
    by (cases "fr_page (frames pool ! i)") (auto simp: fun_upd_idem)
  then show "pool_inv (upd_frame pool i g) c" "view (upd_frame pool i g) c = view pool c"
    using inv by (simp_all add: pool_inv_def view_def)
qed

text \<open>A page put into an empty frame, or a held page changed by its client.\<close>

lemma frame_filled:
  assumes inv: "pool_inv pool c" and i: "i < 7"
    and free: "fr_page (frames pool ! i) = None" "find_frame pool n = None"
    and g: "fr_page (g (frames pool ! i)) = Some p" "fr_page_id (g (frames pool ! i)) = n"
    and p: "length p = 4096" "hdr_page_id p = n"
    and d: "fr_dirty (g (frames pool ! i)) \<or> block c (unat n) = Some (stamp p)"
    and below: "\<And>m. m < n \<Longrightarrow> view pool c m \<noteq> None"
  shows "pool_inv (upd_frame pool i g) c" and "view (upd_frame pool i g) c = (view pool c)(n \<mapsto> stamp p)"
proof -
  have fo: "frames_ok pool" and co: "cache_ok (held pool) c" using inv by (simp_all add: pool_inv_def)
  have "frames_ok (upd_frame pool i g)"
    "held (upd_frame pool i g) = (held pool)(n \<mapsto> (p, fr_dirty (g (frames pool ! i))))"
    using held_upd [OF fo i, of g] g free by (simp_all add: held_None)
  then show "pool_inv (upd_frame pool i g) c" "view (upd_frame pool i g) c = (view pool c)(n \<mapsto> stamp p)"
    using cache_put [OF co p d] below by (simp_all add: pool_inv_def view_def)
qed

lemma frame_changed:
  assumes inv: "pool_inv pool c" and i: "i < 7" and old: "fr_page (frames pool ! i) = Some p"
    and q: "length q = 4096" "hdr_page_id q = fr_page_id (frames pool ! i)"
  shows "pool_inv (buf_mark_dirty (upd_frame pool i (\<lambda>fr. fr\<lparr>fr_page := Some q\<rparr>)) (Some i)) c"
    and "view (buf_mark_dirty (upd_frame pool i (\<lambda>fr. fr\<lparr>fr_page := Some q\<rparr>)) (Some i)) c =
           (view pool c)(fr_page_id (frames pool ! i) \<mapsto> stamp q)"
proof -
  let ?n = "fr_page_id (frames pool ! i)" and ?g = "\<lambda>fr. fr\<lparr>fr_page := Some q, fr_dirty := True\<rparr>"
  have fo: "frames_ok pool" and co: "cache_ok (held pool) c" using inv by (simp_all add: pool_inv_def)
  have e: "buf_mark_dirty (upd_frame pool i (\<lambda>fr. fr\<lparr>fr_page := Some q\<rparr>)) (Some i) = upd_frame pool i ?g"
    using i fo by (simp add: buf_mark_dirty_def)
  have h: "held pool ?n = Some (p, fr_dirty (frames pool ! i))" using held_frame [OF fo i old] .
  then have "\<And>m. m < ?n \<Longrightarrow> cache_view (held pool) c m \<noteq> None" using co by (auto simp: cache_ok_def)
  note put = cache_put [OF co q disjI1 [OF TrueI] this]
  have "frames_ok (upd_frame pool i ?g)" "held (upd_frame pool i ?g) = (held pool)(?n \<mapsto> (q, True))"
    using held_upd [OF fo i, of ?g] old by simp_all
  then show "pool_inv (buf_mark_dirty (upd_frame pool i (\<lambda>fr. fr\<lparr>fr_page := Some q\<rparr>)) (Some i)) c"
    and "view (buf_mark_dirty (upd_frame pool i (\<lambda>fr. fr\<lparr>fr_page := Some q\<rparr>)) (Some i)) c =
           (view pool c)(?n \<mapsto> stamp q)"
    using put by (simp_all add: e pool_inv_def view_def)
qed

end
