(* ===== verification/BufferProps.thy ===== *)
theory BufferProps imports BufferOps begin

text \<open>
  The contract of the buffer pool: pinning is transparent under every pattern of I/O
  failures, pinning succeeds when the file works, new pages, flushing, and the two defects of
  the pin bookkeeping.
\<close>

lemma buf_init_inv:
  assumes "\<And>n b. block c (unat (n :: u32)) = Some b \<Longrightarrow> hdr_page_id b = n \<and> stamp b = b"
  shows "pool_inv buf_init c" and "view buf_init c n = block c (unat n)"
proof -
  have h: "held buf_init = Map.empty"
    by (rule ext) (simp add: held_None find_frame_def first_from_None buf_init_def)
  have "frames_ok buf_init" by (simp add: frames_ok_def buf_init_def)
  then show "pool_inv buf_init c" using assms by (simp add: pool_inv_def h cache_ok_def)
  show "view buf_init c n = block c (unat n)" by (simp add: view_def cache_view_def h)
qed

definition holds :: "BufferPool \<Rightarrow> nat \<Rightarrow> u32 \<Rightarrow> page \<Rightarrow> bool" where
  "holds pool i n p \<longleftrightarrow>
     i < 7 \<and> fr_page (frames pool ! i) = Some p \<and> fr_page_id (frames pool ! i) = n"

lemma holds_view:
  assumes "pool_inv pool c" and "holds pool i n p"
  shows "view pool c n = Some (stamp p)" and "length p = 4096" and "hdr_page_id p = n"
proof -
  have "held pool n = Some (p, fr_dirty (frames pool ! i))"
    using assms held_frame [of pool i p] by (simp add: pool_inv_def holds_def)
  then show "view pool c n = Some (stamp p)" "length p = 4096" "hdr_page_id p = n"
    using assms(1) by (auto simp: pool_inv_def view_def cache_view_def cache_ok_def)
qed

lemma view_below:
  assumes "pool_inv pool c" and "block c (unat n) = Some b" and "m < n"
  shows "view pool c m \<noteq> None"
  using cache_below [of "held pool" c n b m] assms by (simp add: pool_inv_def view_def)

lemma buf_pin_run:
  assumes inv: "pool_inv pool (fcontents f)" and run: "buf_pin mem pool f n = (r, pool', f')"
  shows "pool_inv pool' (fcontents f') \<and> view pool' (fcontents f') = view pool (fcontents f) \<and>
         (\<forall>i. r = Some i \<longrightarrow> (\<exists>p. holds pool' i n p))"
proof (cases "find_frame pool n")
  case (Some i)
  have len: "length (frames pool) = 7" using inv by (simp add: pool_inv_def)
  note ff = find_frame_Some [OF Some]
  let ?g = "\<lambda>fr. fr\<lparr>fr_lru_rank := clock pool\<rparr>"
  have "r = Some i" "pool' = (upd_frame pool i ?g)\<lparr>clock := clock pool + 1\<rparr>" "f' = f"
    using run Some by (simp_all add: buf_pin_def)
  then show ?thesis
    using frame_touched [OF inv, of i ?g] ff len by (auto simp: holds_def)
next
  case None
  obtain slot pool1 f1 where t: "take_slot pool f = (slot, pool1, f1)"
    by (cases "take_slot pool f") auto
  note ts = take_slot_law [OF inv t]
  have absent: "find_frame pool1 n = None" by (rule take_slot_absent [OF inv t None])
  show ?thesis
  proof (cases slot)
    case None
    then show ?thesis using run \<open>find_frame pool n = None\<close> t ts by (simp add: buf_pin_def)
  next
    case (Some j)
    note tj = ts(3) [OF Some]
    have len: "length (frames pool1) = 7" using ts(1) by (simp add: pool_inv_def)
    show ?thesis
    proof (cases mem)
      case False
      then show ?thesis
        using run None t Some ts by (simp add: buf_pin_def page_alloc_def)
    next
      case True
      obtain page where pa: "page_alloc True n = Some page" by (simp add: page_alloc_def Let_def)
      obtain pr q f2 where rd: "page_read_disk page f1 n = (pr, q, f2)"
        by (cases "page_read_disk page f1 n") auto
      note rdc = page_read_disk_cases [OF alloc_header(1) [OF pa] rd]
      show ?thesis
      proof (cases "pr = PAGE_OK")
        case False
        then show ?thesis
          using run None t Some ts True pa rd rdc by (simp add: buf_pin_def)
      next
        case ok: True
        let ?g = "\<lambda>fr. fr\<lparr>fr_page := Some q, fr_page_id := n, fr_dirty := False,
            fr_lru_rank := clock pool1, fr_lock := zero_lock\<rparr>"
        have blk: "block (fcontents f1) (unat n) = Some q" "stamp q = q" using rdc(2) [OF ok] by simp_all
        have "held pool1 n = None" using absent by (simp add: held_None)
        then have id: "length q = 4096" "hdr_page_id q = n"
          using ts(1) blk length_block by (auto simp: pool_inv_def cache_ok_def)
        have g: "fr_page (?g (frames pool1 ! j)) = Some q" "fr_page_id (?g (frames pool1 ! j)) = n"
          by simp_all
        have fill: "pool_inv (upd_frame pool1 j ?g) (fcontents f1)"
          "view (upd_frame pool1 j ?g) (fcontents f1) = (view pool1 (fcontents f1))(n \<mapsto> stamp q)"
          using frame_filled [OF ts(1) conjunct1 [OF tj] conjunct2 [OF tj] absent, of ?g q]
            id blk view_below [OF ts(1) blk(1)] by simp_all
        have "view pool1 (fcontents f1) n = Some (stamp q)"
          using \<open>held pool1 n = None\<close> blk by (simp add: view_def cache_view_def)
        then have v: "view (upd_frame pool1 j ?g) (fcontents f1) = view pool1 (fcontents f1)"
          using fill(2) by (simp add: fun_upd_idem)
        have "r = Some j" "f' = f2"
          "pool' = (upd_frame pool1 j ?g)\<lparr>clock := clock pool1 + 1\<rparr>"
          using run None t Some True pa rd ok tj len
          by (simp_all add: buf_pin_def Let_def)
        then show ?thesis
          using fill(1) v ts(2) rdc(1) tj len by (auto simp: holds_def)
      qed
    qed
  qed
qed

text \<open>
  C4: pinning is transparent. From any coherent pool and whatever the kernel does to the
  reads, writes and syncs, \<open>buf_pin\<close> changes no page as a client sees it and keeps pool and
  file coherent, also when it evicts a dirty page or fails half-way; when it returns a frame,
  that frame holds exactly the page that was asked for.
\<close>

theorem buf_pin_transparent:
  assumes "pool_inv pool (fcontents f)" and "buf_pin mem pool f n = (r, pool', f')"
  shows "pool_inv pool' (fcontents f') \<and> view pool' (fcontents f') = view pool (fcontents f) \<and>
         (\<forall>i. r = Some i \<longrightarrow>
            (\<exists>p. holds pool' i n p \<and> hdr_page_id p = n \<and> view pool (fcontents f) n = Some (stamp p)))"
  using buf_pin_run [OF assms] holds_view by metis

text \<open>When nothing fails, a page that exists can be pinned.\<close>

lemma evict_frame_quiet:
  assumes "pool_inv pool (fcontents f)" and "i < 7" and "quiet f"
    and "evict_frame pool f i = (r, pool', f')"
  shows "r = BUF_OK" and "quiet f'"
proof -
  have "length p = 4096" if "fr_page (frames pool ! i) = Some p" for p
    using that assms(1,2) holds_view(2) [of pool _ i _ p] by (auto simp: holds_def)
  then show "r = BUF_OK" "quiet f'"
    using assms(3,4)
    by (auto simp: evict_frame_def Let_def page_write_disk_quiet split: option.splits if_splits)
qed

lemma take_slot_quiet:
  assumes "pool_inv pool (fcontents f)" and "quiet f" and "take_slot pool f = (slot, pool', f')"
  shows "slot \<noteq> None" and "quiet f'"
proof -
  have "length (frames pool) = 7" using assms(1) by (simp add: pool_inv_def)
  then have v: "find_lru pool < 7" using find_lru_min(1) [of pool] by fastforce
  obtain r p g where e: "evict_frame pool f (find_lru pool) = (r, p, g)"
    by (cases "evict_frame pool f (find_lru pool)") auto
  have "slot \<noteq> None \<and> quiet f'"
  proof (cases "find_empty pool")
    case None
    then show ?thesis
      using assms(3) e evict_frame_quiet [OF assms(1) v assms(2) e] by (auto simp: take_slot_def)
  next
    case (Some i)
    then have "slot = Some i" "f' = f" using assms(3) by (simp_all add: take_slot_def)
    then show ?thesis using assms(2) by simp
  qed
  then show "slot \<noteq> None" "quiet f'" by simp_all
qed

lemma buf_pin_quiet:
  assumes inv: "pool_inv pool (fcontents f)" and q: "quiet f"
    and ex: "view pool (fcontents f) n = Some b"
  shows "\<exists>i pool' f'. buf_pin True pool f n = (Some i, pool', f') \<and> quiet f'"
proof (cases "find_frame pool n")
  case (Some i)
  then show ?thesis using q by (simp add: buf_pin_def)
next
  case None
  obtain slot pool1 f1 where t: "take_slot pool f = (slot, pool1, f1)"
    by (cases "take_slot pool f") auto
  note ts = take_slot_law [OF inv t] and tq = take_slot_quiet [OF inv q t]
  obtain j where j: "slot = Some j" using tq(1) by auto
  have "held pool1 n = None" using take_slot_absent [OF inv t None] by (simp add: held_None)
  moreover from this have "view pool1 (fcontents f1) n = block (fcontents f1) (unat n)"
    by (simp add: view_def cache_view_def)
  ultimately have blk: "block (fcontents f1) (unat n) = Some b" "stamp b = b"
    using ts(1,2) ex by (auto simp: pool_inv_def cache_ok_def)
  obtain page where pa: "page_alloc True n = Some page" by (simp add: page_alloc_def Let_def)
  have "page_checksum b = hdr_checksum b" using blk length_block stamp_own by metis
  then have "page_read_disk page f1 n = (PAGE_OK, b, f1\<lparr>foffset := unat n * 4096 + 4096\<rparr>)"
    using page_read_disk_quiet [OF alloc_header(1) [OF pa] tq(2) blk(1)] by simp
  then show ?thesis using None t j pa tq(2) by (simp add: buf_pin_def Let_def)
qed

text \<open>
  C36: when memory and the file work, \<open>buf_pin\<close> succeeds for every page that exists, with any
  mixture of clean and dirty pages in the pool.
\<close>

theorem buf_pin_succeeds:
  assumes "pool_inv pool (fcontents f)" and "quiet f" and "view pool (fcontents f) n \<noteq> None"
  shows "\<exists>i pool' f' p. buf_pin True pool f n = (Some i, pool', f') \<and> holds pool' i n p \<and>
           view pool (fcontents f) n = Some (stamp p)"
proof -
  obtain b where "view pool (fcontents f) n = Some b" using assms(3) by auto
  then obtain i pool' f' where r: "buf_pin True pool f n = (Some i, pool', f')"
    using buf_pin_quiet [OF assms(1,2)] by blast
  then show ?thesis using buf_pin_run [OF assms(1) r] holds_view by metis
qed

lemma buf_new_page_run:
  assumes inv: "pool_inv pool (fcontents f)" and run: "buf_new_page mem pool f n = (r, pool', f')"
    and fresh: "find_frame pool n = None" and below: "\<And>m. m < n \<Longrightarrow> view pool (fcontents f) m \<noteq> None"
  shows "pool_inv pool' (fcontents f') \<and>
         (case r of
            None \<Rightarrow> view pool' (fcontents f') = view pool (fcontents f)
          | Some i \<Rightarrow> \<exists>p. page_alloc True n = Some p \<and> holds pool' i n p \<and>
              view pool' (fcontents f') = (view pool (fcontents f))(n \<mapsto> stamp p))"
proof -
  obtain slot pool1 f1 where t: "take_slot pool f = (slot, pool1, f1)"
    by (cases "take_slot pool f") auto
  note ts = take_slot_law [OF inv t]
  have absent: "find_frame pool1 n = None" by (rule take_slot_absent [OF inv t fresh])
  show ?thesis
  proof (cases "slot = None \<or> \<not> mem")
    case True
    then show ?thesis
      using run t ts by (auto simp: buf_new_page_def page_alloc_def split: option.splits)
  next
    case False
    then obtain j where j: "slot = Some j" and mem by auto
    note tj = ts(3) [OF j]
    have len: "length (frames pool1) = 7" using ts(1) by (simp add: pool_inv_def)
    obtain p where p: "page_alloc True n = Some p" by (simp add: page_alloc_def Let_def)
    let ?g = "\<lambda>fr. fr\<lparr>fr_page := Some p, fr_page_id := n, fr_dirty := True, fr_lru_rank := clock pool1\<rparr>"
    have fill: "pool_inv (upd_frame pool1 j ?g) (fcontents f1)"
      "view (upd_frame pool1 j ?g) (fcontents f1) = (view pool1 (fcontents f1))(n \<mapsto> stamp p)"
      using frame_filled [OF ts(1) conjunct1 [OF tj] conjunct2 [OF tj] absent, of ?g p]
        alloc_header [OF p] below ts(2) by simp_all
    have "r = Some j" "f' = f1" "pool' = (upd_frame pool1 j ?g)\<lparr>clock := clock pool1 + 1\<rparr>"
      using run t j \<open>mem\<close> p by (simp_all add: buf_new_page_def)
    then show ?thesis using fill ts(2) tj len p by (auto simp: holds_def)
  qed
qed

text \<open>
  \<open>buf_new_page\<close> for the next page id adds one empty page with that id to the pages a
  client sees and changes no other, or fails and changes none, under every pattern of I/O
  failures.
\<close>

theorem buf_new_page_correct:
  assumes "pool_inv pool (fcontents f)" and "find_frame pool n = None"
    and "\<And>m. m < n \<Longrightarrow> view pool (fcontents f) m \<noteq> None"
    and "buf_new_page mem pool f n = (r, pool', f')"
  shows "pool_inv pool' (fcontents f') \<and>
         (case r of
            None \<Rightarrow> view pool' (fcontents f') = view pool (fcontents f)
          | Some i \<Rightarrow> \<exists>p. page_alloc True n = Some p \<and> holds pool' i n p \<and>
              view pool' (fcontents f') = (view pool (fcontents f))(n \<mapsto> stamp p))"
  using buf_new_page_run [OF assms(1,4,2)] assms(3) by blast

text \<open>Flushing.\<close>

definition flushed :: "BufferPool \<Rightarrow> nat set \<Rightarrow> bool" where
  "flushed pool I \<longleftrightarrow> (\<forall>i \<in> I. fr_page (frames pool ! i) \<noteq> None \<longrightarrow> \<not> fr_dirty (frames pool ! i))"

lemma flush_step_law:
  assumes inv: "pool_inv pool (fcontents f)" and i: "i < 7"
    and s: "flush_step i (r, pool, f) = (r', pool', f')"
  shows "pool_inv pool' (fcontents f')" and "view pool' (fcontents f') = view pool (fcontents f)"
    and "r' = BUF_OK \<Longrightarrow> r = BUF_OK \<and> (flushed pool I \<longrightarrow> flushed pool' (insert i I))"
    and "quiet f \<Longrightarrow> quiet f' \<and> r' = r"
proof -
  have len: "length (frames pool) = 7" using inv by (simp add: pool_inv_def)
  have "pool_inv pool' (fcontents f') \<and> view pool' (fcontents f') = view pool (fcontents f) \<and>
      (r' = BUF_OK \<longrightarrow> r = BUF_OK \<and> (flushed pool I \<longrightarrow> flushed pool' (insert i I))) \<and>
      (quiet f \<longrightarrow> quiet f' \<and> r' = r)"
  proof (cases "fr_page (frames pool ! i) = None \<or> \<not> fr_dirty (frames pool ! i)")
    case True
    then show ?thesis using s inv
      by (cases "fr_page (frames pool ! i)") (auto simp: flush_step_def flushed_def)
  next
    case False
    then obtain p where p: "fr_page (frames pool ! i) = Some p" and d: "fr_dirty (frames pool ! i)" by auto
    have pl: "length p = 4096" using holds_view(2) [OF inv] p i by (auto simp: holds_def)
    obtain pr q g where w: "page_write_disk p f = (pr, q, g)" by (cases "page_write_disk p f") auto
    show ?thesis
    proof (cases "pr = PAGE_OK")
      case True
      have "pool' = upd_frame pool i (\<lambda>fr. fr\<lparr>fr_page := Some q, fr_dirty := False\<rparr>)" "r' = r" "f' = g"
        using s p d w True i len by (simp_all add: flush_step_def Let_def)
      then show ?thesis
        using frame_written [OF inv i p w, of False] True w pl i len
        by (auto simp: flushed_def page_write_disk_quiet upd_frame_def nth_list_update)
    next
      case False
      have e: "(frames pool ! i)\<lparr>fr_page := Some q, fr_dirty := True\<rparr> = (frames pool ! i)\<lparr>fr_page := Some q\<rparr>"
        using d by (cases "frames pool ! i") simp
      have "pool' = upd_frame pool i (\<lambda>fr. fr\<lparr>fr_page := Some q, fr_dirty := True\<rparr>)"
        "r' = BUF_ERROR" "f' = g"
        using s p d w False by (simp_all add: flush_step_def Let_def upd_frame_def e)
      then show ?thesis
        using frame_written [OF inv i p w, of True] d False w pl by (auto simp: page_write_disk_quiet)
    qed
  qed
  then show "pool_inv pool' (fcontents f')" "view pool' (fcontents f') = view pool (fcontents f)"
    "r' = BUF_OK \<Longrightarrow> r = BUF_OK \<and> (flushed pool I \<longrightarrow> flushed pool' (insert i I))"
    "quiet f \<Longrightarrow> quiet f' \<and> r' = r" by blast+
qed

lemma flush_loop_law:
  assumes "pool_inv pool (fcontents f)" and "n \<le> 7"
    and "fold flush_step [0 ..< n] (BUF_OK, pool, f) = (r, pool', f')"
  shows "pool_inv pool' (fcontents f') \<and> view pool' (fcontents f') = view pool (fcontents f) \<and>
         (r = BUF_OK \<longrightarrow> flushed pool' {0 ..< n}) \<and> (quiet f \<longrightarrow> quiet f' \<and> r = BUF_OK)"
  using assms(2,3)
proof (induction n arbitrary: r pool' f')
  case 0
  then show ?case using assms(1) by (auto simp: flushed_def)
next
  case (Suc n)
  obtain r1 p1 f1 where s1: "fold flush_step [0 ..< n] (BUF_OK, pool, f) = (r1, p1, f1)"
    by (cases "fold flush_step [0 ..< n] (BUF_OK, pool, f)") auto
  have ih: "pool_inv p1 (fcontents f1)" "view p1 (fcontents f1) = view pool (fcontents f)"
    "r1 = BUF_OK \<longrightarrow> flushed p1 {0 ..< n}" "quiet f \<longrightarrow> quiet f1 \<and> r1 = BUF_OK"
    using Suc.IH [OF _ s1] Suc.prems(1) by simp_all
  have st: "flush_step n (r1, p1, f1) = (r, pool', f')" using Suc.prems(2) s1 by simp
  have n: "n < 7" using Suc.prems(1) by simp
  note law = flush_step_law [OF ih(1) n st]
  show ?case using law(1,2,4) law(3) [of "{0 ..< n}"] ih(2-4) by (auto simp: atLeast0_lessThan_Suc)
qed

lemma buf_flush_all_run:
  assumes inv: "pool_inv pool (fcontents f)" and run: "buf_flush_all pool f = (r, pool', f')"
  shows "pool_inv pool' (fcontents f')" and "view pool' (fcontents f') = view pool (fcontents f)"
    and "r = BUF_OK \<Longrightarrow> flushed pool' {0 ..< 7}" and "quiet f \<Longrightarrow> r = BUF_OK \<and> quiet f'"
proof -
  obtain r1 p1 f1 where s1: "fold flush_step [0 ..< 7] (BUF_OK, pool, f) = (r1, p1, f1)"
    by (cases "fold flush_step [0 ..< 7] (BUF_OK, pool, f)") auto
  have e: "r = r1" "pool' = p1" "fcontents f' = fcontents f1" and q: "quiet f1 \<Longrightarrow> quiet f'"
    using run s1 by (auto simp: buf_flush_all_def)
  have ll: "pool_inv p1 (fcontents f1)" "view p1 (fcontents f1) = view pool (fcontents f)"
    "r1 = BUF_OK \<Longrightarrow> flushed p1 {0 ..< 7}" "quiet f \<Longrightarrow> quiet f1 \<and> r1 = BUF_OK"
    using flush_loop_law [OF inv le_refl s1] by blast+
  show "pool_inv pool' (fcontents f')" "view pool' (fcontents f') = view pool (fcontents f)"
    "r = BUF_OK \<Longrightarrow> flushed pool' {0 ..< 7}" "quiet f \<Longrightarrow> r = BUF_OK \<and> quiet f'"
    unfolding e by (rule ll | assumption | (use ll(4) q in blast))+
qed

lemma flushed_on_disk:
  assumes inv: "pool_inv pool c" and fl: "flushed pool {0 ..< 7}"
  shows "block c (unat n) = view pool c n"
proof (cases "held pool n")
  case None
  then show ?thesis by (simp add: view_def cache_view_def)
next
  case (Some pd)
  obtain p d where pd: "pd = (p, d)" by (cases pd)
  have fo: "frames_ok pool" using inv by (simp add: pool_inv_def)
  obtain i where i: "i < 7" "fr_page (frames pool ! i) = Some p" "fr_dirty (frames pool ! i) = d"
    using held_SomeD [OF fo Some [unfolded pd]] by metis
  then have "\<not> d" using fl by (auto simp: flushed_def)
  then show ?thesis using inv Some pd by (auto simp: pool_inv_def cache_ok_def view_def cache_view_def)
qed

text \<open>
  C35: when \<open>buf_flush_all\<close> reports \<open>BUF_OK\<close>, every page as clients see it is in the file; with
  a working file it does report \<open>BUF_OK\<close>; and when some writes fail it still changes no page
  and the pool stays coherent, so the flush can be retried.
\<close>

theorem buf_flush_all_correct:
  assumes "pool_inv pool (fcontents f)" and "buf_flush_all pool f = (r, pool', f')"
  shows "pool_inv pool' (fcontents f') \<and> view pool' (fcontents f') = view pool (fcontents f) \<and>
         (r = BUF_OK \<longrightarrow> (\<forall>n. block (fcontents f') (unat n) = view pool (fcontents f) n)) \<and>
         (quiet f \<longrightarrow> r = BUF_OK)"
  using buf_flush_all_run [OF assms] flushed_on_disk [of pool' "fcontents f'"] by auto

text \<open>\<open>buf_destroy\<close> on a working file: the file alone shows every page.\<close>

lemma buf_destroy_run:
  assumes "pool_inv pool (fcontents f)" and "quiet f" and "buf_destroy pool f = (pool', f')"
  shows "block (fcontents f') (unat n) = view pool (fcontents f) n" and "quiet f'"
    and "\<forall>fr \<in> set (frames pool'). fr_page fr = None"
proof -
  obtain r p g where fl: "buf_flush_all pool f = (r, p, g)" by (cases "buf_flush_all pool f") auto
  have "f' = g" "frames pool' = map (\<lambda>fr. if fr_page fr \<noteq> None then fr\<lparr>fr_page := None\<rparr> else fr) (frames p)"
    using assms(3) fl by (auto simp: buf_destroy_def)
  then show "block (fcontents f') (unat n) = view pool (fcontents f) n" "quiet f'"
    "\<forall>fr \<in> set (frames pool'). fr_page fr = None"
    using buf_flush_all_run [OF assms(1) fl] flushed_on_disk [of p "fcontents g" n] assms(2) by auto
qed

end
