(* ===== verification/BufferLru.thy ===== *)
theory BufferLru imports BufferProps begin

text \<open>
  The replacement policy. The scan for the smallest \<open>lru_rank\<close> refines a queue of page ids in
  the order of their last use: pinning moves a page to the end of the queue, and a full pool
  gives up the page at its head.
\<close>

definition occupied :: "BufferPool \<Rightarrow> BufferFrame list" where
  "occupied pool = filter (\<lambda>fr. fr_page fr \<noteq> None) (frames pool)"

definition by_rank :: "BufferPool \<Rightarrow> BufferFrame list" where
  "by_rank pool = sort_key fr_lru_rank (occupied pool)"

definition recency :: "BufferPool \<Rightarrow> u32 list" where
  "recency pool = map fr_page_id (by_rank pool)"

definition lru_ok :: "BufferPool \<Rightarrow> bool" where
  "lru_ok pool \<longleftrightarrow>
     frames_ok pool \<and>
     (\<forall>i < 7. fr_page (frames pool ! i) \<noteq> None \<longrightarrow> fr_lru_rank (frames pool ! i) < clock pool) \<and>
     (\<forall>i < 7. \<forall>j < 7. i \<noteq> j \<longrightarrow> fr_page (frames pool ! i) \<noteq> None \<longrightarrow> fr_page (frames pool ! j) \<noteq> None \<longrightarrow>
        fr_lru_rank (frames pool ! i) \<noteq> fr_lru_rank (frames pool ! j))"

abbreviation ranked :: "BufferFrame list \<Rightarrow> bool" where
  "ranked \<equiv> sorted_wrt (\<lambda>a b. fr_lru_rank a < fr_lru_rank b)"

lemma distinct_map_filter:
  "(\<And>i j. i < length xs \<Longrightarrow> j < length xs \<Longrightarrow> i \<noteq> j \<Longrightarrow> P (xs ! i) \<Longrightarrow> P (xs ! j) \<Longrightarrow> f (xs ! i) \<noteq> f (xs ! j)) \<Longrightarrow>
     distinct (map f (filter P xs))"
proof (induction xs)
  case (Cons x xs)
  have "distinct (map f (filter P xs))"
  proof (rule Cons.IH)
    fix i j assume "i < length xs" "j < length xs" "i \<noteq> j" "P (xs ! i)" "P (xs ! j)"
    then show "f (xs ! i) \<noteq> f (xs ! j)" using Cons.prems [of "Suc i" "Suc j"] by simp
  qed
  moreover have "f y \<noteq> f x" if y: "P x" "y \<in> set xs" "P y" for y
  proof -
    obtain i where "i < length xs" "xs ! i = y" using y(2) by (auto simp: in_set_conv_nth)
    then show ?thesis using Cons.prems [of "Suc i" 0] y by simp
  qed
  then have "P x \<Longrightarrow> f x \<notin> f ` set (filter P xs)" by force
  ultimately show ?case by simp
qed simp

lemma ranked_unique:
  assumes "ranked xs" and "ranked ys" and "set xs = set ys"
  shows "xs = ys"
proof -
  have s: "sorted_wrt (<) (map fr_lru_rank xs)" "sorted_wrt (<) (map fr_lru_rank ys)"
    using assms(1,2) by (simp_all add: sorted_wrt_map)
  then have "map fr_lru_rank xs = map fr_lru_rank ys"
    using assms(3) by (intro strict_sorted_equal) (simp_all add: strict_sorted_iff)
  moreover have "inj_on fr_lru_rank (set xs \<union> set ys)"
    using s(1) assms(3) by (simp add: strict_sorted_iff distinct_map)
  ultimately show ?thesis by (rule map_inj_on)
qed

lemma by_rank_ranked:
  assumes "lru_ok pool"
  shows "ranked (by_rank pool)" and "set (by_rank pool) = set (occupied pool)"
proof -
  have "distinct (map fr_lru_rank (occupied pool))"
    unfolding occupied_def
    using assms by (intro distinct_map_filter) (auto simp: lru_ok_def)
  then have "distinct (map fr_lru_rank (by_rank pool))"
    by (simp add: by_rank_def distinct_map)
  moreover have "sorted (map fr_lru_rank (by_rank pool))" by (simp add: by_rank_def)
  ultimately have "sorted_wrt (<) (map fr_lru_rank (by_rank pool))"
    by (simp add: strict_sorted_iff)
  then show "ranked (by_rank pool)" by (simp add: sorted_wrt_map)
  show "set (by_rank pool) = set (occupied pool)" by (simp add: by_rank_def)
qed

lemma occupied_iff:
  assumes "frames_ok pool"
  shows "fr \<in> set (occupied pool) \<longleftrightarrow> (\<exists>i < 7. fr = frames pool ! i \<and> fr_page fr \<noteq> None)"
  using assms by (auto simp: occupied_def in_set_conv_nth)

lemma occupied_upd:
  assumes ok: "frames_ok pool" and i: "i < 7" and ok': "frames_ok (upd_frame pool i g)"
    and n: "fr_page (frames pool ! i) = None \<or> fr_page_id (frames pool ! i) = n"
    and absent: "fr_page (frames pool ! i) = None \<Longrightarrow> find_frame pool n = None"
  shows "set (occupied (upd_frame pool i g)) =
           {fr \<in> set (occupied pool). fr_page_id fr \<noteq> n} \<union>
           (if fr_page (g (frames pool ! i)) = None then {} else {g (frames pool ! i)})"
proof -
  have len: "length (frames pool) = 7" using ok by simp
  have id: "fr_page_id (frames pool ! j) \<noteq> n \<longleftrightarrow> j \<noteq> i"
    if "j < 7" "fr_page (frames pool ! j) \<noteq> None" for j
  proof (cases "fr_page (frames pool ! i) = None")
    case True
    then show ?thesis
      using absent that len by (auto simp: find_frame_def first_from_None all_set_conv_all_nth)
  next
    case False
    then show ?thesis using ok n that i by (auto simp: frames_ok_def)
  qed
  have id': "n = fr_page_id (frames pool ! j) \<longleftrightarrow> j = i"
    if "j < 7" "fr_page (frames pool ! j) \<noteq> None" for j
    using id [OF that] by auto
  have upd: "frames (upd_frame pool i g) ! j = (if j = i then g (frames pool ! i) else frames pool ! j)" for j
    using i len by simp
  show ?thesis
    by (rule set_eqI) (auto simp: occupied_iff [OF ok] occupied_iff [OF ok'] upd id id' i)
qed

text \<open>Changing one frame, in terms of the queue.\<close>

lemma by_rank_upd:
  assumes ok: "lru_ok pool" and i: "i < 7" and ok': "lru_ok (upd_frame pool i g)"
    and n: "fr_page (frames pool ! i) = None \<or> fr_page_id (frames pool ! i) = n"
    and absent: "fr_page (frames pool ! i) = None \<Longrightarrow> find_frame pool n = None"
    and top: "fr_page (g (frames pool ! i)) \<noteq> None \<Longrightarrow>
        fr_page_id (g (frames pool ! i)) = n \<and>
        (\<forall>fr \<in> set (occupied pool). fr_lru_rank fr < fr_lru_rank (g (frames pool ! i)))"
  shows "recency (upd_frame pool i g) =
           filter (\<lambda>m. m \<noteq> n) (recency pool) @ (if fr_page (g (frames pool ! i)) = None then [] else [n])"
proof -
  let ?new = "if fr_page (g (frames pool ! i)) = None then [] else [g (frames pool ! i)]"
  note br = by_rank_ranked [OF ok] and br' = by_rank_ranked [OF ok']
  have "ranked (filter (\<lambda>fr. fr_page_id fr \<noteq> n) (by_rank pool) @ ?new)"
    using br top by (auto simp: sorted_wrt_append sorted_wrt_filter)
  moreover have "set (by_rank (upd_frame pool i g)) =
      set (filter (\<lambda>fr. fr_page_id fr \<noteq> n) (by_rank pool) @ ?new)"
    using occupied_upd [OF _ i _ n absent, of g] ok ok' br(2) br'(2) by (auto simp: lru_ok_def)
  ultimately have "by_rank (upd_frame pool i g) = filter (\<lambda>fr. fr_page_id fr \<noteq> n) (by_rank pool) @ ?new"
    using ranked_unique [OF br'(1)] by blast
  then show ?thesis using top by (simp add: recency_def filter_map comp_def)
qed

lemma recency_clock [simp]: "recency (pool\<lparr>clock := k\<rparr>) = recency pool"
  by (simp add: recency_def by_rank_def occupied_def)

lemma lru_ok_clock: "lru_ok pool \<Longrightarrow> clock pool \<le> k \<Longrightarrow> lru_ok (pool\<lparr>clock := k\<rparr>)"
  by (auto simp: lru_ok_def frames_ok_def)

lemma lru_ok_upd:
  assumes ok: "lru_ok pool" and i: "i < 7" and ok': "frames_ok (upd_frame pool i g)"
    and rank: "fr_page (g (frames pool ! i)) = None \<or> fr_lru_rank (g (frames pool ! i)) = clock pool"
    and k: "clock pool < k"
  shows "lru_ok ((upd_frame pool i g)\<lparr>clock := k\<rparr>)"
proof -
  have len: "length (frames pool) = 7" using ok by (simp add: lru_ok_def)
  have upd: "frames (upd_frame pool i g) ! j = (if j = i then g (frames pool ! i) else frames pool ! j)" for j
    using i len by simp
  have old: "fr_lru_rank (frames pool ! j) < clock pool" if "j < 7" "fr_page (frames pool ! j) \<noteq> None" for j
    using ok that by (simp add: lru_ok_def)
  show ?thesis
    unfolding lru_ok_def
  proof (intro conjI allI impI, goal_cases)
    case 1
    show ?case using ok' by (simp add: frames_ok_def)
  next
    case (2 j)
    then show ?case using old [of j] rank k by (auto simp: upd split: if_splits intro: less_trans)
  next
    case (3 j l)
    then show ?case using old [of j] old [of l] rank ok
      by (cases "j = i"; cases "l = i") (auto simp: upd lru_ok_def)
  qed
qed

lemma recency_distinct:
  assumes "frames_ok pool"
  shows "distinct (recency pool)"
proof -
  have "distinct (map fr_page_id (occupied pool))"
    unfolding occupied_def using assms by (intro distinct_map_filter) (auto simp: frames_ok_def)
  then show ?thesis by (simp add: recency_def by_rank_def distinct_map)
qed

lemma recency_mem: "n \<in> set (recency pool) \<longleftrightarrow> find_frame pool n \<noteq> None"
  by (auto simp: recency_def by_rank_def occupied_def find_frame_def first_from_None)

lemma recency_room:
  assumes "frames_ok pool"
  shows "length (recency pool) < 7 \<longleftrightarrow> find_empty pool \<noteq> None"
proof -
  have len: "length (frames pool) = 7" using assms by simp
  show ?thesis
  proof (cases "find_empty pool")
    case None
    then have "occupied pool = frames pool"
      by (auto simp: occupied_def find_empty_def first_from_None filter_id_conv)
    then show ?thesis using None len by (simp add: recency_def by_rank_def)
  next
    case (Some i)
    then have "frames pool ! i \<in> set (frames pool)" "fr_page (frames pool ! i) = None"
      using find_empty_Some [OF Some] by simp_all
    then have "length (occupied pool) < length (frames pool)"
      unfolding occupied_def by (intro length_filter_less [of "frames pool ! i"]) simp_all
    then show ?thesis using Some len by (simp add: recency_def by_rank_def)
  qed
qed

lemma victim_first:
  assumes ok: "lru_ok pool" and full: "find_empty pool = None"
  shows "filter (\<lambda>m. m \<noteq> fr_page_id (frames pool ! find_lru pool)) (recency pool) = tl (recency pool)"
proof -
  have fo: "frames_ok pool" and len: "length (frames pool) = 7" using ok by (simp_all add: lru_ok_def)
  let ?v = "frames pool ! find_lru pool"
  have v: "find_lru pool < 7" using find_lru_min(1) [of pool] len by fastforce
  have occ: "occupied pool = frames pool"
    using full by (auto simp: occupied_def find_empty_def first_from_None filter_id_conv)
  obtain fr frs where b: "by_rank pool = fr # frs"
  proof (cases "by_rank pool")
    case Nil
    then have "frames pool = []" using by_rank_ranked(2) [OF ok] occ by simp
    then show ?thesis using len by simp
  qed
  have "?v \<in> set (by_rank pool)" using by_rank_ranked(2) [OF ok] occ v len by simp
  moreover have "fr_lru_rank ?v \<le> fr_lru_rank fr"
  proof -
    have "fr \<in> set (frames pool)" using by_rank_ranked(2) [OF ok] occ b by auto
    then show ?thesis using find_lru_min(2) [of pool] len by (fastforce simp: in_set_conv_nth)
  qed
  ultimately have "?v = fr" using by_rank_ranked(1) [OF ok] b by auto
  moreover have "fr_page_id fr \<notin> fr_page_id ` set frs"
    using recency_distinct [OF fo] b by (simp add: recency_def)
  then have "\<And>x. x \<in> set frs \<Longrightarrow> fr_page_id x \<noteq> fr_page_id fr" by (metis image_eqI)
  ultimately show ?thesis by (auto simp: recency_def b filter_id_conv)
qed

lemma evict_frame_form:
  assumes "evict_frame pool f i = (BUF_OK, pool', f')" and "i < length (frames pool)"
    and "fr_page (frames pool ! i) \<noteq> None"
  shows "\<exists>g. pool' = upd_frame pool i g \<and> fr_page (g (frames pool ! i)) = None"
proof -
  obtain p where p: "fr_page (frames pool ! i) = Some p" using assms(3) by auto
  obtain pr q h where w: "page_write_disk p f = (pr, q, h)" by (cases "page_write_disk p f") auto
  let ?drop = "\<lambda>fr. fr\<lparr>fr_page := None, fr_page_id := INVALID_PAGE_ID, fr_dirty := False, fr_lru_rank := 0\<rparr>"
  have "pool' = upd_frame pool i ?drop \<or>
      pool' = upd_frame pool i (\<lambda>fr. ?drop (fr\<lparr>fr_page := Some q\<rparr>))"
    using assms(1,2) p w by (auto simp: evict_frame_def Let_def split: if_splits)
  then show ?thesis
  proof
    assume "pool' = upd_frame pool i ?drop"
    then show ?thesis by (intro exI [of _ ?drop]) simp
  next
    assume "pool' = upd_frame pool i (\<lambda>fr. ?drop (fr\<lparr>fr_page := Some q\<rparr>))"
    then show ?thesis by (intro exI [of _ "\<lambda>fr. ?drop (fr\<lparr>fr_page := Some q\<rparr>)"]) simp
  qed
qed

lemma take_slot_lru:
  assumes inv: "pool_inv pool (fcontents f)" and ok: "lru_ok pool"
    and t: "take_slot pool f = (Some j, pool', f')"
  shows "lru_ok pool'"
    and "recency pool' = (if length (recency pool) < 7 then recency pool else tl (recency pool))"
proof -
  have fo: "frames_ok pool" and len: "length (frames pool) = 7" using ok by (simp_all add: lru_ok_def)
  have "lru_ok pool' \<and>
      recency pool' = (if length (recency pool) < 7 then recency pool else tl (recency pool))"
  proof (cases "find_empty pool")
    case (Some k)
    then show ?thesis using t ok recency_room [OF fo] by (simp add: take_slot_def)
  next
    case None
    let ?v = "find_lru pool"
    have v: "?v < 7" using find_lru_min(1) [of pool] len by fastforce
    have page: "fr_page (frames pool ! ?v) \<noteq> None"
      using None v len by (auto simp: find_empty_def first_from_None)
    have e: "evict_frame pool f ?v = (BUF_OK, pool', f')"
      using t None by (auto simp: take_slot_def Let_def split: prod.splits if_splits)
    obtain g where g: "pool' = upd_frame pool ?v g" "fr_page (g (frames pool ! ?v)) = None"
      using evict_frame_form [OF e _ page] v len by auto
    have "frames_ok pool'" using evict_frame_law(1) [OF inv v e] by (simp add: pool_inv_def)
    then have ok': "lru_ok pool'"
      using ok g v len by (auto simp: lru_ok_def upd_frame_def nth_list_update)
    have "recency pool' = filter (\<lambda>m. m \<noteq> fr_page_id (frames pool ! ?v)) (recency pool)"
      using by_rank_upd [OF ok v ok' [unfolded g(1)], of "fr_page_id (frames pool ! ?v)"] page g by simp
    then show ?thesis using ok' victim_first [OF ok None] recency_room [OF fo] None by simp
  qed
  then show "lru_ok pool'"
    and "recency pool' = (if length (recency pool) < 7 then recency pool else tl (recency pool))"
    by simp_all
qed

text \<open>Giving frame \<open>i\<close> the current clock as its rank.\<close>

lemma stamp_frame:
  assumes ok: "lru_ok pool" and i: "i < 7" and k: "clock pool \<noteq> -1"
    and ok': "frames_ok (upd_frame pool i g)"
    and n: "fr_page (frames pool ! i) = None \<or> fr_page_id (frames pool ! i) = n"
    and absent: "fr_page (frames pool ! i) = None \<Longrightarrow> find_frame pool n = None"
    and g: "fr_page (g (frames pool ! i)) \<noteq> None" "fr_page_id (g (frames pool ! i)) = n"
      "fr_lru_rank (g (frames pool ! i)) = clock pool"
  shows "lru_ok ((upd_frame pool i g)\<lparr>clock := clock pool + 1\<rparr>)"
    and "recency ((upd_frame pool i g)\<lparr>clock := clock pool + 1\<rparr>) =
           filter (\<lambda>m. m \<noteq> n) (recency pool) @ [n]"
proof -
  let ?p = "pool\<lparr>clock := clock pool + 1\<rparr>"
  have up: "clock pool < clock pool + 1" using k by (rule word_less_add_one)
  show ok2: "lru_ok ((upd_frame pool i g)\<lparr>clock := clock pool + 1\<rparr>)"
    using lru_ok_upd [OF ok i ok' disjI2 [OF g(3)] up] .
  have len: "length (frames pool) = 7" using ok by (simp add: lru_ok_def)
  have top: "\<forall>fr \<in> set (occupied ?p). fr_lru_rank fr < clock pool"
    using ok by (auto simp: lru_ok_def occupied_def in_set_conv_nth)
  have "recency (upd_frame ?p i g) = filter (\<lambda>m. m \<noteq> n) (recency ?p) @ [n]"
    using by_rank_upd [OF lru_ok_clock [OF ok less_imp_le [OF up]] i, of g n] ok2 n absent g top
    by (simp add: find_frame_def)
  then show "recency ((upd_frame pool i g)\<lparr>clock := clock pool + 1\<rparr>) =
      filter (\<lambda>m. m \<noteq> n) (recency pool) @ [n]" by simp
qed

lemma buf_pin_lru_law:
  assumes "pool_inv pool (fcontents f)" and "lru_ok pool" and "clock pool \<noteq> -1"
    and "buf_pin mem pool f n = (Some i, pool', f')"
  shows "lru_ok pool' \<and>
         recency pool' =
           (if n \<in> set (recency pool) then filter (\<lambda>m. m \<noteq> n) (recency pool)
            else if length (recency pool) < BUFFER_POOL_SIZE then recency pool
            else tl (recency pool)) @ [n]"
proof (cases "find_frame pool n")
  case (Some j)
  let ?g = "\<lambda>fr. fr\<lparr>fr_lru_rank := clock pool\<rparr>"
  have len: "length (frames pool) = 7" using assms(2) by (simp add: lru_ok_def)
  note ff = find_frame_Some [OF Some]
  have j: "j < 7" using ff(1) len by simp
  have "frames_ok (upd_frame pool j ?g)"
    using frame_touched(1) [OF assms(1) j, of ?g] by (simp add: pool_inv_def)
  moreover have "pool' = (upd_frame pool j ?g)\<lparr>clock := clock pool + 1\<rparr>"
    using assms(4) Some by (auto simp: buf_pin_def)
  ultimately show ?thesis
    using stamp_frame [OF assms(2) j assms(3), of ?g n] ff recency_mem [of n pool] Some by simp
next
  case None
  obtain slot pool1 f1 where t: "take_slot pool f = (slot, pool1, f1)"
    by (cases "take_slot pool f") auto
  obtain j where j: "slot = Some j"
    using assms(4) None t by (cases slot) (auto simp: buf_pin_def)
  note ts = take_slot_law [OF assms(1) t] and tl = take_slot_lru [OF assms(1,2) t [unfolded j]]
  have absent: "find_frame pool1 n = None" by (rule take_slot_absent [OF assms(1) t None])
  have j7: "j < 7" "fr_page (frames pool1 ! j) = None" using ts(3) [OF j] by simp_all
  obtain page where pa: "page_alloc mem n = Some page"
    using assms(4) None t j by (cases "page_alloc mem n") (auto simp: buf_pin_def)
  obtain pr q f2 where rd: "page_read_disk page f1 n = (pr, q, f2)"
    by (cases "page_read_disk page f1 n") auto
  let ?g = "\<lambda>fr. fr\<lparr>fr_page := Some q, fr_page_id := n, fr_dirty := False,
      fr_lru_rank := clock pool1, fr_lock := zero_lock\<rparr>"
  have len: "length (frames pool1) = 7" using ts(1) by (simp add: pool_inv_def)
  have run: "pool' = (upd_frame pool1 j ?g)\<lparr>clock := clock pool1 + 1\<rparr>"
    using assms(4) None t j pa rd j7 len by (auto simp: buf_pin_def Let_def split: if_splits)
  have fo: "frames_ok (upd_frame pool1 j ?g)"
    using buf_pin_run [OF assms(1,4)] run by (simp add: pool_inv_def frames_ok_def)
  have "n \<notin> set (recency pool1)" using absent recency_mem [of n pool1] by simp
  then have "filter (\<lambda>m. m \<noteq> n) (recency pool1) = recency pool1" by (auto simp: filter_id_conv)
  then show ?thesis
    using stamp_frame [OF tl(1) j7(1) _ fo, of n] ts(4) assms(3) j7 absent tl(2) run
      recency_mem [of n pool] None by simp
qed

text \<open>
  C19: the replacement policy is least-recently-used: a successful \<open>buf_pin\<close> makes its page
  the most recent one, keeps the order of the others, and when the page was not cached and
  all seven frames were taken it drops exactly the page whose last use is the oldest.
\<close>

theorem buf_pin_lru:
  assumes "pool_inv pool (fcontents f)" and "lru_ok pool" and "clock pool \<noteq> -1"
    and "buf_pin mem pool f n = (Some i, pool', f')"
  shows "lru_ok pool' \<and>
         recency pool' =
           (if n \<in> set (recency pool) then filter (\<lambda>m. m \<noteq> n) (recency pool)
            else if length (recency pool) < BUFFER_POOL_SIZE then recency pool
            else tl (recency pool)) @ [n]"
  using assms by (rule buf_pin_lru_law)

end
