(* ===== verification/BufferPins.thy ===== *)
theory BufferPins imports BufferLru PageWitness begin

text \<open>
  The pin counts, which no operation ever raises, and the buffer pool properties at concrete
  inputs.
\<close>

definition pins :: "BufferPool \<Rightarrow> int list" where
  "pins pool = map fr_pin_count (frames pool)"

lemma pins_upd [simp]:
  "(\<And>fr. fr_pin_count (g fr) = fr_pin_count fr) \<Longrightarrow> pins (upd_frame pool i g) = pins pool"
  by (cases "i < length (frames pool)")
    (simp_all add: pins_def upd_frame_def map_update list_update_beyond,
      metis list_update_id nth_map)

lemma pins_clock [simp]: "pins (pool\<lparr>clock := k\<rparr>) = pins pool"
  by (simp add: pins_def)

lemma pins_evict: "evict_frame pool f i = (r, pool', f') \<Longrightarrow> pins pool' = pins pool"
  by (auto simp: evict_frame_def Let_def split: option.splits if_splits prod.splits)

lemma pins_take_slot: "take_slot pool f = (s, pool', f') \<Longrightarrow> pins pool' = pins pool"
  by (auto simp: take_slot_def Let_def pins_evict split: option.splits if_splits prod.splits)

lemma pins_buf_pin:
  assumes "buf_pin mem pool f n = (r, pool', f')"
  shows "pins pool' = pins pool"
proof (cases "find_frame pool n")
  case (Some i)
  then show ?thesis using assms by (auto simp: buf_pin_def)
next
  case None
  obtain slot pool1 f1 where t: "take_slot pool f = (slot, pool1, f1)"
    by (cases "take_slot pool f") auto
  have "pins pool' = pins pool1"
    using assms None t
    by (auto simp: buf_pin_def Let_def split: option.splits if_splits prod.splits)
  then show ?thesis using pins_take_slot [OF t] by simp
qed

text \<open>
  \<open>buf_pin\<close> never raises a pin count, so in a pool whose counts are all zero, as
  \<open>buf_init\<close> makes it, they stay zero and \<open>buf_unpin\<close> of the pinned frame does nothing: nothing
  records that a caller still uses the frame.
\<close>

lemma buf_pin_not_counted:
  assumes "\<forall>k \<in> set (pins pool). k = 0" and "buf_pin mem pool f n = (r, pool', f')"
    and "\<And>i. r = Some i \<Longrightarrow> i < length (frames pool')"
  shows "(\<forall>k \<in> set (pins pool'). k = 0) \<and> buf_unpin pool' r = pool'"
proof -
  have z: "\<forall>k \<in> set (pins pool'). k = 0" using assms(1) pins_buf_pin [OF assms(2)] by simp
  then show ?thesis
    using assms(3) by (auto simp: buf_unpin_def pins_def split: option.splits)
qed

text \<open>
  Pinning the pages \<open>ns\<close> one after the other, with no \<open>buf_unpin\<close> in between: the frames
  that the callers are given.
\<close>

fun pin_each :: "u32 list \<Rightarrow> BufferPool \<times> osfile \<Rightarrow> nat option list \<times> BufferPool \<times> osfile" where
  "pin_each [] st = ([], st)"
| "pin_each (n # ns) (pool, f) =
     (case buf_pin True pool f n of
        (r, pool, f) \<Rightarrow> (case pin_each ns (pool, f) of (rs, st) \<Rightarrow> (r # rs, st)))"

lemma pin_each_law:
  assumes "pool_inv pool (fcontents f)" and "quiet f" and "\<forall>n \<in> set ns. view pool (fcontents f) n \<noteq> None"
  shows "\<exists>ks pool' f'. pin_each ns (pool, f) = (map Some ks, pool', f') \<and> length ks = length ns \<and>
           set ks \<subseteq> {..<7} \<and> pins pool' = pins pool \<and> pool_inv pool' (fcontents f')"
  using assms
proof (induction ns arbitrary: pool f)
  case (Cons n ns)
  obtain b where "view pool (fcontents f) n = Some b" using Cons.prems(3) by auto
  then obtain i p1 f1 where r: "buf_pin True pool f n = (Some i, p1, f1)" "quiet f1"
    using buf_pin_quiet [OF Cons.prems(1,2)] by blast
  note run = buf_pin_run [OF Cons.prems(1) r(1)]
  have i: "i < 7" using run by (auto simp: holds_def)
  obtain ks pool' f' where "pin_each ns (p1, f1) = (map Some ks, pool', f')" "length ks = length ns"
      "set ks \<subseteq> {..<7}" "pins pool' = pins p1" "pool_inv pool' (fcontents f')"
    using Cons.IH [of p1 f1] run r(2) Cons.prems(3) by auto
  then show ?case using r(1) i pins_buf_pin [OF r(1)] by (intro exI [of _ "i # ks"]) auto
qed simp

lemma find_frame_listed:
  "find_frame pool n \<noteq> None \<Longrightarrow> n \<in> set (map fr_page_id (frames pool))"
  using nth_mem find_frame_Some [of pool n] by fastforce

text \<open>
  C37: pins hold nothing. In a pool of zero pin counts, as \<open>buf_init\<close> makes it, any eight or more
  different pages of a working file can be pinned one after the other without a single unpin:
  every call returns a frame, the counts are all zero afterwards, two callers with different
  pages have been given the same frame, and one of the pages that are pinned is not in the
  pool any more.
\<close>

theorem buf_pins_hold_nothing:
  assumes "pool_inv pool (fcontents f)" and "quiet f" and "\<forall>k \<in> set (pins pool). k = 0"
    and "\<forall>n \<in> set ns. view pool (fcontents f) n \<noteq> None" and "distinct ns" and "BUFFER_POOL_SIZE < length ns"
  shows "\<exists>ks pool' f'. pin_each ns (pool, f) = (map Some ks, pool', f') \<and> length ks = length ns \<and>
           (\<forall>k \<in> set (pins pool'). k = 0) \<and>
           (\<exists>a b. a < b \<and> b < length ns \<and> ks ! a = ks ! b \<and> ns ! a \<noteq> ns ! b) \<and>
           (\<exists>n \<in> set ns. find_frame pool' n = None)"
proof -
  obtain ks pool' f' where r: "pin_each ns (pool, f) = (map Some ks, pool', f')" "length ks = length ns"
      "set ks \<subseteq> {..<7}" "pins pool' = pins pool" "pool_inv pool' (fcontents f')"
    using pin_each_law [OF assms(1,2,4)] by blast
  have long: "7 < length ns" using assms(6) by simp
  have "card (set ks) \<le> 7" using card_mono [OF _ r(3)] by simp
  then have "\<not> distinct ks" using distinct_card [of ks] r(2) long by auto
  then obtain a b where ab: "a < b" "b < length ns" "ks ! a = ks ! b"
    unfolding distinct_conv_nth r(2) by (metis linorder_neqE_nat)
  moreover have "ns ! a \<noteq> ns ! b" using ab assms(5) by (simp add: nth_eq_iff_index_eq)
  moreover have "\<exists>n \<in> set ns. find_frame pool' n = None"
  proof (rule ccontr)
    assume "\<not> ?thesis"
    then have "set ns \<subseteq> set (map fr_page_id (frames pool'))" using find_frame_listed by blast
    then have "card (set ns) \<le> length (frames pool')"
      by (metis List.finite_set card_length card_mono length_map le_trans)
    then show False using distinct_card [OF assms(5)] long r(5) by (simp add: pool_inv_def)
  qed
  ultimately show ?thesis using r(1,2,4) assms(3) by (intro exI [of _ ks]) auto
qed

text \<open>
  \<open>buf_mark_clean\<close> tests its argument the wrong way round: it never clears the dirty flag
  of a frame, and on a null pointer it writes through it.
\<close>

lemma buf_mark_clean_inverted:
  "buf_mark_clean pool (Some i) = Some pool \<and> buf_mark_clean pool None = None"
  by (simp add: buf_mark_clean_def)

text \<open>Concrete pools: a file of eight pages, pinned one after the other.\<close>

definition pages_file :: "nat \<Rightarrow> osfile" where
  "pages_file k =
     \<lparr>fcontents = concat (map (\<lambda>n. stamp (blank (of_nat n))) [0 ..< k]), foffset = 0, fsched = []\<rparr>"

lemma pages_file_simps [simp]: "quiet (pages_file k)"
  by (simp add: pages_file_def quiet_def)

lemma blank_length [simp]: "length (blank n) = 4096"
  by (rule length_page_wf) simp

lemma block_snoc:
  assumes "length c = k * 4096" and "length p = 4096"
  shows "block (c @ p) i = (if i < k then block c i else if i = k then Some p else None)"
proof -
  have "i < k \<Longrightarrow> (i + 1) * 4096 \<le> k * 4096" by simp
  moreover have "k < i \<Longrightarrow> (k + 2) * 4096 \<le> (i + 1) * 4096" by simp
  ultimately show ?thesis using assms by (auto simp: block_def bslice_def not_less)
qed

lemma pages_file_blocks:
  "length (fcontents (pages_file k)) = k * 4096 \<and>
   block (fcontents (pages_file k)) i = (if i < k then Some (stamp (blank (of_nat i))) else None)"
proof (induction k arbitrary: i)
  case 0
  show ?case by (simp add: pages_file_def block_def)
next
  case (Suc k)
  then have len: "length (fcontents (pages_file k)) = k * 4096" by simp
  have "fcontents (pages_file (Suc k)) = fcontents (pages_file k) @ stamp (blank (of_nat k))"
    by (simp add: pages_file_def)
  then show ?case using block_snoc [OF len, of "stamp (blank (of_nat k))" i] Suc.IH [of i] len
    by (auto simp: less_Suc_eq)
qed

lemma init_inv:
  assumes "k \<le> 8"
  shows "pool_inv buf_init (fcontents (pages_file k))"
    and "view buf_init (fcontents (pages_file k)) n =
           (if unat n < k then Some (stamp (blank n)) else None)"
proof -
  have b: "block (fcontents (pages_file k)) (unat (n :: u32)) =
      (if unat n < k then Some (stamp (blank n)) else None)" for n
    using pages_file_blocks [of k "unat n"] by simp
  show "pool_inv buf_init (fcontents (pages_file k))"
    by (rule buf_init_inv(1)) (auto simp: b split: if_splits)
  show "view buf_init (fcontents (pages_file k)) n = (if unat n < k then Some (stamp (blank n)) else None)"
    by (subst buf_init_inv(2)) (auto simp: b split: if_splits)
qed

lemma init_lru: "lru_ok buf_init" "recency buf_init = []" "clock buf_init = 1"
  "\<forall>k \<in> set (pins buf_init). k = 0"
  by (simp_all add: lru_ok_def frames_ok_def buf_init_def recency_def by_rank_def occupied_def pins_def)

text \<open>Pinning the pages \<open>ns\<close> in turn.\<close>

fun pin_all :: "u32 list \<Rightarrow> BufferPool \<times> osfile \<Rightarrow> BufferPool \<times> osfile" where
  "pin_all [] st = st"
| "pin_all (n # ns) (pool, f) = (case buf_pin True pool f n of (r, pool, f) \<Rightarrow> pin_all ns (pool, f))"

lemma buf_pin_clock:
  assumes "pool_inv pool (fcontents f)" and "buf_pin mem pool f n = (Some i, pool', f')"
  shows "clock pool' = clock pool + 1"
proof (cases "find_frame pool n")
  case (Some j)
  then show ?thesis using assms by (auto simp: buf_pin_def)
next
  case None
  obtain slot pool1 f1 where t: "take_slot pool f = (slot, pool1, f1)"
    by (cases "take_slot pool f") auto
  then show ?thesis using assms None take_slot_law(4) [OF assms(1) t]
    by (auto simp: buf_pin_def Let_def split: option.splits if_splits prod.splits)
qed

lemma pin_all_law:
  assumes "pool_inv pool (fcontents f)" and "lru_ok pool" and "quiet f"
    and "\<forall>n \<in> set ns. view pool (fcontents f) n \<noteq> None"
    and "distinct (recency pool @ ns)" and "length (recency pool @ ns) \<le> 7"
    and "unat (clock pool) + length ns < 100"
    and "pin_all ns (pool, f) = (pool', f')"
  shows "pool_inv pool' (fcontents f') \<and> lru_ok pool' \<and> quiet f' \<and>
         view pool' (fcontents f') = view pool (fcontents f) \<and> recency pool' = recency pool @ ns \<and>
         unat (clock pool') = unat (clock pool) + length ns"
  using assms
proof (induction ns arbitrary: pool f)
  case (Cons n ns)
  obtain b where "view pool (fcontents f) n = Some b" using Cons.prems(4) by auto
  then obtain i p1 f1 where r: "buf_pin True pool f n = (Some i, p1, f1)" "quiet f1"
    using buf_pin_quiet [OF Cons.prems(1,3)] by blast
  have "unat (-1 :: u64) = 18446744073709551615"
    by (simp add: unsigned_minus_1_eq_mask mask_eq_exp_minus_1)
  then have "clock pool \<noteq> -1" using Cons.prems(7) by auto
  note lru = buf_pin_lru_law [OF Cons.prems(1,2) this r(1)]
  note run = buf_pin_run [OF Cons.prems(1) r(1)]
  have rec: "recency p1 = recency pool @ [n]" using lru Cons.prems(5,6) by auto
  have "unat (clock pool + 1) = unat (clock pool) + 1"
    using Cons.prems(7) by (simp add: unat_word_ariths)
  then have cl: "unat (clock p1) = unat (clock pool) + 1"
    using buf_pin_clock [OF Cons.prems(1) r(1)] by simp
  show ?case
    using Cons.IH [of p1 f1] run lru rec r cl Cons.prems(4-8) by auto
qed simp

definition full_pool :: "BufferPool \<times> osfile" where
  "full_pool = pin_all [0, 1, 2, 3, 4, 5, 6] (buf_init, pages_file 8)"

lemma full_pool:
  "pool_inv (fst full_pool) (fcontents (snd full_pool))" "lru_ok (fst full_pool)"
  "quiet (snd full_pool)" "recency (fst full_pool) = [0, 1, 2, 3, 4, 5, 6]"
  "view (fst full_pool) (fcontents (snd full_pool)) n = (if unat n < 8 then Some (stamp (blank n)) else None)"
  "unat (clock (fst full_pool)) = 8"
  using pin_all_law [OF init_inv(1) init_lru(1) pages_file_simps, of 8 "[0, 1, 2, 3, 4, 5, 6]"
      "fst full_pool" "snd full_pool"] init_inv(2) [of 8] init_lru(2,3)
  by (simp_all add: full_pool_def)

lemma full_pin:
  obtains i pool' f' where "buf_pin True (fst full_pool) (snd full_pool) 7 = (Some i, pool', f')"
proof -
  have "view (fst full_pool) (fcontents (snd full_pool)) 7 = Some (stamp (blank 7))"
    using full_pool(5) [of 7] by simp
  then show ?thesis using buf_pin_quiet [OF full_pool(1,3)] that by blast
qed

theorem buf_pin_transparent_witness:
  "\<exists>i pool' f' p. buf_pin True (fst full_pool) (snd full_pool) 7 = (Some i, pool', f') \<and>
     holds pool' i 7 p \<and> view pool' (fcontents f') 3 = Some (stamp (blank 3))"
proof -
  obtain i pool' f' where r: "buf_pin True (fst full_pool) (snd full_pool) 7 = (Some i, pool', f')"
    by (rule full_pin)
  show ?thesis
    using buf_pin_transparent [OF full_pool(1) r] full_pool(5) [of 3] r by auto
qed

theorem buf_pin_succeeds_witness:
  "\<exists>i pool' f' p. buf_pin True (fst full_pool) (snd full_pool) 7 = (Some i, pool', f') \<and> holds pool' i 7 p"
  using buf_pin_succeeds [OF full_pool(1,3), of 7] full_pool(5) [of 7] by auto

theorem buf_new_page_witness:
  "\<exists>r pool' f'. buf_new_page True (fst full_pool) (snd full_pool) 8 = (r, pool', f') \<and>
     view pool' (fcontents f') 3 = Some (stamp (blank 3))"
proof -
  obtain r pool' f' where r: "buf_new_page True (fst full_pool) (snd full_pool) 8 = (r, pool', f')"
    by (cases "buf_new_page True (fst full_pool) (snd full_pool) 8") auto
  have "find_frame (fst full_pool) 8 = None"
    using recency_mem [of 8 "fst full_pool"] full_pool(4) by auto
  moreover have "view (fst full_pool) (fcontents (snd full_pool)) m \<noteq> None" if "m < 8" for m
    using full_pool(5) [of m] that by (simp add: word_less_nat_alt)
  ultimately show ?thesis
    using buf_new_page_correct [OF full_pool(1) _ _ r] full_pool(5) [of 3] r
    by (auto split: option.splits)
qed

theorem buf_flush_all_witness:
  "\<exists>pool' f'. buf_flush_all (fst full_pool) (snd full_pool) = (BUF_OK, pool', f') \<and>
     block (fcontents f') 5 = Some (stamp (blank 5))"
proof -
  obtain r pool' f' where r: "buf_flush_all (fst full_pool) (snd full_pool) = (r, pool', f')"
    by (cases "buf_flush_all (fst full_pool) (snd full_pool)") auto
  have c: "r = BUF_OK" "\<forall>n. block (fcontents f') (unat n) = view (fst full_pool) (fcontents (snd full_pool)) n"
    using buf_flush_all_correct [OF full_pool(1) r] full_pool(3) by simp_all
  have "block (fcontents f') (unat (5 :: u32)) = Some (stamp (blank 5))"
    using spec [OF c(2), of 5] full_pool(5) [of 5] by simp
  then show ?thesis using r c(1) by simp
qed

lemma full_clock: "clock (fst full_pool) \<noteq> -1"
proof
  assume "clock (fst full_pool) = -1"
  then have "unat (clock (fst full_pool)) = 18446744073709551615"
    by (simp add: unsigned_minus_1_eq_mask mask_eq_exp_minus_1)
  then show False using full_pool(6) by simp
qed

theorem buf_pin_lru_witness:
  "\<exists>i pool' f'. buf_pin True (fst full_pool) (snd full_pool) 7 = (Some i, pool', f') \<and>
     recency pool' = [1, 2, 3, 4, 5, 6, 7]"
proof -
  obtain i pool' f' where r: "buf_pin True (fst full_pool) (snd full_pool) 7 = (Some i, pool', f')"
    by (rule full_pin)
  show ?thesis
    using buf_pin_lru [OF full_pool(1,2) full_clock r] full_pool(4) r by simp
qed

theorem buf_pin_not_counted_witness:
  "\<exists>r pool' f'. buf_pin True buf_init (pages_file 8) 3 = (r, pool', f') \<and> buf_unpin pool' r = pool'"
proof -
  obtain r pool' f' where r: "buf_pin True buf_init (pages_file 8) 3 = (r, pool', f')"
    by (cases "buf_pin True buf_init (pages_file 8) 3") auto
  have "i < length (frames pool')" if "r = Some i" for i
    using buf_pin_run [OF init_inv(1) r] that by (auto simp: holds_def pool_inv_def)
  then show ?thesis using buf_pin_not_counted [OF init_lru(4) r] r by blast
qed

theorem buf_pins_hold_nothing_witness:
  "\<exists>ks pool' f'. pin_each [0, 1, 2, 3, 4, 5, 6, 7] (buf_init, pages_file 8) = (map Some ks, pool', f') \<and>
     (\<forall>k \<in> set (pins pool'). k = 0) \<and>
     (\<exists>a b. a < b \<and> b < 8 \<and> ks ! a = ks ! b) \<and> (\<exists>n < 8. find_frame pool' n = None)"
proof -
  have "\<forall>n \<in> set [0, 1, 2, 3, 4, 5, 6, 7]. view buf_init (fcontents (pages_file 8)) n \<noteq> None"
    using init_inv(2) [of 8] by simp
  from buf_pins_hold_nothing [OF init_inv(1) pages_file_simps init_lru(4) this]
  obtain ks pool' f' a b n where "pin_each [0, 1, 2, 3, 4, 5, 6, 7] (buf_init, pages_file 8) = (map Some ks, pool', f')"
      "\<forall>k \<in> set (pins pool'). k = 0" "a < b" "b < 8" "ks ! a = ks ! b" "find_frame pool' n = None"
      "n \<in> set [0, 1, 2, 3, 4, 5, 6, 7]"
    by auto
  moreover from this have "n < 8" by auto
  ultimately show ?thesis by blast
qed

end
