(* ===== verification/CString.thy ===== *)
theory CString imports Prelude "HOL-Library.Char_ord" begin

text \<open>
  C strings. A \<open>cstr\<close> is the bytes of a string without its terminator. A string inside a
  buffer is found with \<open>str_at\<close>, which is undefined when the buffer holds no terminator.
  The character classes are those of the C locale.
\<close>

type_synonym cstr = bytes

definition lit :: "string \<Rightarrow> cstr" where
  "lit s = map of_char s"

definition str_at :: "bytes \<Rightarrow> cstr option" where
  "str_at buf = (if 0 \<in> set buf then Some (takeWhile (\<lambda>c. c \<noteq> 0) buf) else None)"

text \<open>\<open>strncpy (dst, src, n)\<close>: at most \<open>n\<close> characters, the rest of the \<open>n\<close> bytes zeroed.\<close>

definition strncpy_bytes :: "cstr \<Rightarrow> nat \<Rightarrow> bytes" where
  "strncpy_bytes src n = take n src @ replicate (n - length src) 0"

definition strncpy :: "bytes \<Rightarrow> cstr \<Rightarrow> nat \<Rightarrow> bytes option" where
  "strncpy dst src n = mem_write dst 0 (strncpy_bytes src n)"

definition c_isspace :: "u8 \<Rightarrow> bool" where
  "c_isspace c \<longleftrightarrow> c = 32 \<or> (9 \<le> c \<and> c \<le> 13)"

definition c_isdigit :: "u8 \<Rightarrow> bool" where
  "c_isdigit c \<longleftrightarrow> 48 \<le> c \<and> c \<le> 57"

definition c_isupper :: "u8 \<Rightarrow> bool" where
  "c_isupper c \<longleftrightarrow> 65 \<le> c \<and> c \<le> 90"

definition c_islower :: "u8 \<Rightarrow> bool" where
  "c_islower c \<longleftrightarrow> 97 \<le> c \<and> c \<le> 122"

definition c_isalpha :: "u8 \<Rightarrow> bool" where
  "c_isalpha c \<longleftrightarrow> c_isupper c \<or> c_islower c"

definition c_isalnum :: "u8 \<Rightarrow> bool" where
  "c_isalnum c \<longleftrightarrow> c_isalpha c \<or> c_isdigit c"

definition c_toupper :: "u8 \<Rightarrow> u8" where
  "c_toupper c = (if c_islower c then c - 32 else c)"

definition c_tolower :: "u8 \<Rightarrow> u8" where
  "c_tolower c = (if c_isupper c then c + 32 else c)"

definition strcasecmp_eq :: "cstr \<Rightarrow> cstr \<Rightarrow> bool" where
  "strcasecmp_eq s t \<longleftrightarrow> map c_tolower s = map c_tolower t"

lemmas char_class_defs =
  c_isspace_def c_isdigit_def c_isupper_def c_islower_def c_isalpha_def c_isalnum_def

lemma length_strncpy_bytes [simp]: "length (strncpy_bytes src n) = n"
  by (simp add: strncpy_bytes_def)

lemma takeWhile_terminated: "0 \<notin> set s \<Longrightarrow> takeWhile (\<lambda>c. c \<noteq> 0) (s @ 0 # rest) = s"
  by (induction s) auto

lemma str_at_terminated: "0 \<notin> set s \<Longrightarrow> str_at (s @ 0 # rest) = Some s"
  by (simp add: str_at_def takeWhile_terminated)

lemma str_at_strncpy:
  assumes "0 \<notin> set s" and "length s < n"
  shows "str_at (strncpy_bytes s n @ rest) = Some s"
proof -
  obtain k where "n - length s = Suc k" using assms(2) by (cases "n - length s") auto
  then have "strncpy_bytes s n @ rest = s @ 0 # (replicate k 0 @ rest)"
    using assms(2) by (simp add: strncpy_bytes_def)
  then show ?thesis using str_at_terminated [OF assms(1)] by simp
qed

end
