(* ===== verification/Wal.thy ===== *)
theory Wal imports Checksum OsFile CString begin

text \<open>
  The write-ahead log of WAL/wal.c. A record is its 344 bytes, with the fields of
  \<open>WALRecord\<close> at the offsets of the x86-64 ABI; the checksum is the last field. The log is the
  file behind \<open>wal->fd\<close>, threaded next to the counters. A null \<open>WAL *\<close> is \<open>None\<close>.
\<close>

type_synonym walrec = bytes

definition WAL_MAX_DATA :: nat where "WAL_MAX_DATA = 256"
definition WAL_TABLE_LEN :: nat where "WAL_TABLE_LEN = 64"
definition REC_SIZE :: nat where "REC_SIZE = 344"

lemmas wal_consts [simp] = WAL_MAX_DATA_def WAL_TABLE_LEN_def REC_SIZE_def

datatype WALResult = WAL_OK | WAL_ERROR | WAL_CORRUPT

definition WAL_BEGIN :: u8 where "WAL_BEGIN = 1"
definition WAL_INSERT :: u8 where "WAL_INSERT = 2"
definition WAL_UPDATE :: u8 where "WAL_UPDATE = 3"
definition WAL_DELETE :: u8 where "WAL_DELETE = 4"
definition WAL_COMMIT :: u8 where "WAL_COMMIT = 5"

lemmas wal_types = WAL_BEGIN_def WAL_INSERT_def WAL_UPDATE_def WAL_DELETE_def WAL_COMMIT_def

record WAL =
  next_lsn :: u64
  next_txn :: u32

definition rec_lsn :: "walrec \<Rightarrow> u64" where "rec_lsn r = ld64 r 0"
definition rec_txn :: "walrec \<Rightarrow> u32" where "rec_txn r = ld32 r 8"
definition rec_page :: "walrec \<Rightarrow> u32" where "rec_page r = ld32 r 12"
definition rec_type :: "walrec \<Rightarrow> u8" where "rec_type r = r ! 16"
definition rec_table :: "walrec \<Rightarrow> bytes" where "rec_table r = bslice r 17 WAL_TABLE_LEN"
definition rec_data_len :: "walrec \<Rightarrow> u16" where "rec_data_len r = ld16 r 82"
definition rec_data :: "walrec \<Rightarrow> bytes" where "rec_data r = bslice r 84 WAL_MAX_DATA"
definition rec_checksum :: "walrec \<Rightarrow> u32" where "rec_checksum r = ld32 r 340"

definition rset_lsn :: "walrec \<Rightarrow> u64 \<Rightarrow> walrec" where "rset_lsn r v = st64 r 0 v"
definition rset_txn :: "walrec \<Rightarrow> u32 \<Rightarrow> walrec" where "rset_txn r v = st32 r 8 v"
definition rset_page :: "walrec \<Rightarrow> u32 \<Rightarrow> walrec" where "rset_page r v = st32 r 12 v"
definition rset_type :: "walrec \<Rightarrow> u8 \<Rightarrow> walrec" where "rset_type r v = blit r 16 [v]"
definition rset_data_len :: "walrec \<Rightarrow> u16 \<Rightarrow> walrec" where "rset_data_len r v = st16 r 82 v"
definition rset_checksum :: "walrec \<Rightarrow> u32 \<Rightarrow> walrec" where "rset_checksum r v = st32 r 340 v"

named_theorems rec_layout

lemmas [rec_layout] =
  rec_lsn_def rec_txn_def rec_page_def rec_type_def rec_table_def rec_data_len_def rec_data_def
  rec_checksum_def rset_lsn_def rset_txn_def rset_page_def rset_type_def rset_data_len_def
  rset_checksum_def

definition zero_rec :: walrec where "zero_rec = replicate REC_SIZE 0"

text \<open>\<open>compute_checksum\<close>: the loop over all bytes before the checksum field.\<close>

definition rec_covered :: "walrec \<Rightarrow> bytes" where
  "rec_covered r = bslice r 0 (REC_SIZE - 4)"

definition wal_checksum :: "walrec \<Rightarrow> u32" where
  "wal_checksum r = foldl (\<lambda>acc b. xor (push_bit 1 acc) (ucast b)) 0 (rec_covered r)"

interpretation wal_sum: checksummed wal_checksum rec_covered
  by unfold_locales (simp add: wal_checksum_def shift_xor_def sum_step_def [abs_def])

definition write_record :: "osfile \<Rightarrow> walrec \<Rightarrow> WALResult \<times> osfile" where
  "write_record f r =
     (let r = rset_checksum r (wal_checksum r) in
      case os_write f r of
        (written, f) \<Rightarrow> if written \<noteq> int REC_SIZE then (WAL_ERROR, f) else (WAL_OK, f))"

text \<open>\<open>read_record\<close> into the buffer \<open>r\<close>.\<close>

definition read_record :: "osfile \<Rightarrow> walrec \<Rightarrow> WALResult \<times> walrec \<times> osfile" where
  "read_record f r =
     (case os_read f REC_SIZE of
        (n, bs, f) \<Rightarrow>
          let r = blit r 0 bs in
          if n = 0 then (WAL_ERROR, r, f)
          else if n < 0 then (WAL_ERROR, r, f)
          else if n \<noteq> int REC_SIZE then (WAL_CORRUPT, r, f)
          else
            let expected = rec_checksum r;
                r = rset_checksum r 0;
                actual = wal_checksum r;
                r = rset_checksum r expected
            in if actual \<noteq> expected then (WAL_CORRUPT, r, f) else (WAL_OK, r, f))"

text \<open>
  The loop \<open>while (read_record(wal->fd, &rec) == WAL_OK)\<close> of \<open>wal_open\<close>, \<open>wal_recover\<close> and
  \<open>wal_print\<close>: the records it passes, in order. It ends because each record it passes lies
  between the file offset and the end of the file.
\<close>

lemma os_read_some:
  assumes "os_read f n = (int n, bs, f')"
  shows "length bs = n" and "bs = bslice (fcontents f) (foffset f) n"
    and "fcontents f' = fcontents f" and "foffset f' = foffset f + n"
proof -
  obtain x g where d: "draw f = (x, g)" by (cases "draw f")
  have g: "fcontents g = fcontents f" "foffset g = foffset f" using d by simp_all
  have get: "length bs = n \<and> bs = bslice (fcontents f) (foffset f) n \<and> foffset f' = foffset f + n"
    if "os_get g k = (int n, bs, f')" "k \<le> n" for k
    using that g by (auto simp: os_get_def Let_def bslice_def min_def split: if_splits)
  have "length bs = n \<and> bs = bslice (fcontents f) (foffset f) n \<and> foffset f' = foffset f + n"
  proof (cases x)
    case (IoShort k)
    then have "os_get g (min k n) = (int n, bs, f')" using assms d by (simp add: os_read_def)
    then show ?thesis by (rule get) simp
  qed (use assms d get [of n] in \<open>auto simp: os_read_def\<close>)
  then show "length bs = n" "bs = bslice (fcontents f) (foffset f) n" "foffset f' = foffset f + n"
    by blast+
  show "fcontents f' = fcontents f" using assms by simp
qed

lemma read_record_progress:
  assumes "read_record f r = (WAL_OK, r', f')"
  shows "fcontents f' = fcontents f" and "foffset f' = foffset f + 344"
    and "foffset f + 344 \<le> length (fcontents f)"
proof -
  obtain n bs g where o: "os_read f 344 = (n, bs, g)" by (cases "os_read f 344") auto
  have n: "n = int 344" and g: "f' = g"
    using assms o by (auto simp: read_record_def Let_def split: if_splits)
  note some = os_read_some [OF o [unfolded n]]
  then show "fcontents f' = fcontents f" "foffset f' = foffset f + 344" by (simp_all add: g)
  show "foffset f + 344 \<le> length (fcontents f)"
    using some(1,2) by (auto simp: bslice_def)
qed

function read_all :: "osfile \<Rightarrow> walrec \<Rightarrow> walrec list \<times> osfile" where
  "read_all f r =
     (case read_record f r of
        (WAL_OK, r', f') \<Rightarrow> (case read_all f' r' of (rs, g) \<Rightarrow> (r' # rs, g))
      | (res, r', f') \<Rightarrow> ([], f'))"
  by pat_completeness auto
termination
proof (relation "measure (\<lambda>(f, r). length (fcontents f) - foffset f)")
  fix f r x y r' f'
  assume "(x, y) = read_record f r" "x = WAL_OK" "(r', f') = y"
  then have "read_record f r = (WAL_OK, r', f')" by auto
  from read_record_progress [OF this]
  show "((f', r'), (f, r)) \<in> measure (\<lambda>(f, r). length (fcontents f) - foffset f)" by simp
qed simp

declare read_all.simps [simp del]

definition bump_lsn :: "WAL \<Rightarrow> walrec \<Rightarrow> WAL" where
  "bump_lsn w r =
     (let w = (if rec_lsn r \<ge> next_lsn w then w\<lparr>next_lsn := rec_lsn r + 1\<rparr> else w)
      in if rec_txn r \<ge> next_txn w then w\<lparr>next_txn := rec_txn r + 1\<rparr> else w)"

text \<open>
  \<open>wal_open\<close>; \<open>mem\<close> and \<open>opened\<close> say whether \<open>calloc\<close> and \<open>open\<close> succeed, \<open>junk\<close> is the
  uninitialised record.
\<close>

definition wal_open :: "bool \<Rightarrow> bool \<Rightarrow> walrec \<Rightarrow> osfile \<Rightarrow> WAL option \<times> osfile" where
  "wal_open mem opened junk f =
     (if \<not> mem \<or> \<not> opened then (None, f)
      else
        let f = f\<lparr>foffset := 0\<rparr>;
            w = \<lparr>next_lsn = 1, next_txn = 1\<rparr>
        in case read_all f junk of
             (rs, f) \<Rightarrow> (Some (foldl bump_lsn w rs), snd (os_lseek_end f)))"

definition wal_close :: "WAL option \<Rightarrow> osfile \<Rightarrow> osfile" where
  "wal_close wal f = (case wal of None \<Rightarrow> f | Some w \<Rightarrow> snd (os_fsync f))"

text \<open>The result of \<open>wal_begin\<close> includes what is stored through \<open>txn_id\<close>.\<close>

definition wal_begin :: "WAL option \<Rightarrow> osfile \<Rightarrow> WALResult \<times> u32 option \<times> WAL option \<times> osfile" where
  "wal_begin wal f =
     (case wal of
        None \<Rightarrow> (WAL_ERROR, None, None, f)
      | Some w \<Rightarrow>
          (let r = rset_lsn zero_rec (next_lsn w);
               w = w\<lparr>next_lsn := next_lsn w + 1\<rparr>;
               txn = next_txn w;
               r = rset_txn r txn;
               w = w\<lparr>next_txn := next_txn w + 1\<rparr>;
               r = rset_type r WAL_BEGIN
           in case write_record f r of (res, f) \<Rightarrow> (res, Some txn, Some w, f)))"

text \<open>
  \<open>wal_write\<close>: \<open>None\<close> when \<open>data\<close> is shorter than the number of bytes copied from it.
\<close>

definition data_rec ::
  "u64 \<Rightarrow> u32 \<Rightarrow> u8 \<Rightarrow> cstr \<Rightarrow> bytes option \<Rightarrow> u16 \<Rightarrow> u32 \<Rightarrow> walrec option" where
  "data_rec lsn txn ty table data data_len page =
     (let r = rset_lsn zero_rec lsn;
          r = rset_txn r txn;
          r = rset_type r ty;
          r = rset_data_len r data_len;
          r = rset_page r page;
          r = blit r 17 (strncpy_bytes table (WAL_TABLE_LEN - 1))
      in case data of
           None \<Rightarrow> Some r
         | Some d \<Rightarrow>
             if data_len > 0
             then do {
               let copy_len = (if data_len < of_nat WAL_MAX_DATA then data_len else of_nat WAL_MAX_DATA);
               bs \<leftarrow> mem_read d 0 (unat copy_len);
               mem_write r 84 bs
             }
             else Some r)"

definition wal_write ::
  "WAL option \<Rightarrow> osfile \<Rightarrow> u32 \<Rightarrow> u8 \<Rightarrow> cstr \<Rightarrow> bytes option \<Rightarrow> u16 \<Rightarrow> u32 \<Rightarrow>
     (WALResult \<times> WAL option \<times> osfile) option" where
  "wal_write wal f txn ty table data data_len page =
     (case wal of
        None \<Rightarrow> Some (WAL_ERROR, None, f)
      | Some w \<Rightarrow> do {
          r \<leftarrow> data_rec (next_lsn w) txn ty table data data_len page;
          let w = w\<lparr>next_lsn := next_lsn w + 1\<rparr>;
          Some (case write_record f r of
                  (WAL_OK, f) \<Rightarrow>
                    (case os_fsync f of
                       (ok, f) \<Rightarrow> (if ok then WAL_OK else WAL_ERROR, Some w, f))
                | (res, f) \<Rightarrow> (res, Some w, f))
        })"

definition wal_commit :: "WAL option \<Rightarrow> osfile \<Rightarrow> u32 \<Rightarrow> WALResult \<times> WAL option \<times> osfile" where
  "wal_commit wal f txn =
     (case wal of
        None \<Rightarrow> (WAL_ERROR, None, f)
      | Some w \<Rightarrow>
          (let r = rset_lsn zero_rec (next_lsn w);
               w = w\<lparr>next_lsn := next_lsn w + 1\<rparr>;
               r = rset_txn r txn;
               r = rset_type r WAL_COMMIT
           in case write_record f r of
                (WAL_OK, f) \<Rightarrow>
                  (case os_fsync f of
                     (ok, f) \<Rightarrow> (if ok then WAL_OK else WAL_ERROR, Some w, f))
              | (res, f) \<Rightarrow> (res, Some w, f)))"

text \<open>
  \<open>wal_recover\<close>. \<open>redo\<close> is \<open>redo_insert\<close> on the state of the tables. \<open>records\<close> holds 1024
  records, later ones are read and dropped. \<open>commit_loop\<close> stores the transaction ids of the commit
  records in the array \<open>committed\<close> at the index \<open>commit_count\<close>, with no test of the index: the
  write fails when it is outside the array. The ids that are compared later are those
  below \<open>commit_count\<close>, so what the array held at first does not matter.
\<close>

fun commit_loop :: "walrec list \<Rightarrow> u32 list \<Rightarrow> nat \<Rightarrow> (u32 list \<times> nat) option" where
  "commit_loop [] committed commit_count = Some (committed, commit_count)"
| "commit_loop (r # rs) committed commit_count =
     (if rec_type r = WAL_COMMIT
      then do {
        committed \<leftarrow> mem_write committed commit_count [rec_txn r];
        commit_loop rs committed (commit_count + 1)
      }
      else commit_loop rs committed commit_count)"

definition committed_txns :: "walrec list \<Rightarrow> u32 list option" where
  "committed_txns rs = do {
     (committed, commit_count) \<leftarrow> commit_loop rs (replicate 256 0) 0;
     Some (take commit_count committed)
   }"

definition redo_step :: "('s \<Rightarrow> walrec \<Rightarrow> 's option) \<Rightarrow> u32 list \<Rightarrow> 's \<Rightarrow> walrec \<Rightarrow> 's option" where
  "redo_step redo committed s r =
     (if rec_type r = WAL_BEGIN \<or> rec_type r = WAL_COMMIT then Some s
      else if rec_txn r \<in> set committed
           then (if rec_type r = WAL_INSERT then redo s r else Some s)
           else Some s)"

definition wal_recover ::
  "('s \<Rightarrow> walrec \<Rightarrow> 's option) \<Rightarrow> walrec \<Rightarrow> WAL option \<Rightarrow> osfile \<Rightarrow> 's \<Rightarrow>
     (WALResult \<times> WAL option \<times> osfile \<times> 's) option" where
  "wal_recover redo junk wal f s =
     (case wal of
        None \<Rightarrow> Some (WAL_ERROR, None, f, s)
      | Some w \<Rightarrow>
          (let f = snd (os_lseek_set f 0) in
           case read_all f junk of
             (all_recs, f) \<Rightarrow>
               (let records = take 1024 all_recs in
                if records = [] then Some (WAL_OK, Some w, snd (os_lseek_end f), s)
                else do {
                  committed \<leftarrow> committed_txns records;
                  s \<leftarrow> fold_opt (redo_step redo committed) s records;
                  let f = snd (os_lseek_end f);
                  let f = snd (os_ftruncate f 0);
                  let f = snd (os_lseek_set f 0);
                  Some (WAL_OK, Some (w\<lparr>next_lsn := 1, next_txn := 1\<rparr>), f, s)
                })))"

end
