(* ===== verification/WalProps.thy ===== *)
theory WalProps imports Wal begin

text \<open>
  The log as a list of records: what the append operations add to it, what the read loop
  gives back, also behind a torn tail, and which changes the checksum misses.
\<close>

definition valid_rec :: "walrec \<Rightarrow> bool" where
  "valid_rec r \<longleftrightarrow> length r = REC_SIZE \<and> wal_checksum r = rec_checksum r"

definition seal :: "walrec \<Rightarrow> walrec" where
  "seal r = rset_checksum r (wal_checksum r)"

lemma wal_checksum_rset [simp]:
  "length r = 344 \<Longrightarrow> wal_checksum (rset_checksum r v) = wal_checksum r"
  by (simp add: wal_checksum_def rec_covered_def rset_checksum_def bslice_st_other)

lemma rset_checksum_simps [simp]:
  assumes "length r = 344"
  shows "length (rset_checksum r v) = 344" "rec_checksum (rset_checksum r v) = v"
    "rset_checksum (rset_checksum r v) w = rset_checksum r w" "rset_checksum r (rec_checksum r) = r"
  using assms by (simp_all add: rset_checksum_def rec_checksum_def st32_st32 st32_ld32)

lemma rec_rset_checksum [simp]:
  assumes "length r = 344"
  shows "rec_lsn (rset_checksum r v) = rec_lsn r" "rec_txn (rset_checksum r v) = rec_txn r"
    "rec_page (rset_checksum r v) = rec_page r" "rec_table (rset_checksum r v) = rec_table r"
    "rec_data_len (rset_checksum r v) = rec_data_len r" "rec_data (rset_checksum r v) = rec_data r"
    "rec_type (rset_checksum r v) = rec_type r"
  using assms
  by (simp_all add: rec_layout frame_simps) (simp add: nth_bslice_one frame_simps)

lemma seal_simps [simp]:
  assumes "length r = 344"
  shows "valid_rec (seal r)" "length (seal r) = 344" "rec_lsn (seal r) = rec_lsn r"
    "rec_txn (seal r) = rec_txn r" "rec_page (seal r) = rec_page r" "rec_table (seal r) = rec_table r"
    "rec_data_len (seal r) = rec_data_len r" "rec_data (seal r) = rec_data r"
    "rec_type (seal r) = rec_type r"
  using assms by (simp_all add: seal_def valid_rec_def)

text \<open>The read loop on a file that works.\<close>

lemma read_record_quiet:
  assumes "quiet f" and "length buf = 344" and "foffset f = length pre"
    and "fcontents f = pre @ r @ post" and "valid_rec r"
  shows "read_record f buf = (WAL_OK, r, f\<lparr>foffset := length pre + 344\<rparr>)"
proof -
  have r: "length r = 344" "wal_checksum r = rec_checksum r" using assms(5) by (simp_all add: valid_rec_def)
  have "bslice (fcontents f) (foffset f) 344 = r" using assms(3,4) r(1) by (simp add: bslice_def)
  moreover have "blit buf 0 r = r" using assms(2) r(1) by (simp add: blit_def)
  ultimately show ?thesis
    using assms(1,3) r by (simp add: read_record_def os_get_def Let_def)
qed

lemma read_record_tail:
  assumes "quiet f" and "foffset f = length pre" and "fcontents f = pre @ tail" and "length tail < 344"
  shows "\<exists>res r'. res \<noteq> WAL_OK \<and>
           read_record f buf = (res, r', f\<lparr>foffset := length (fcontents f)\<rparr>)"
proof -
  have "bslice (fcontents f) (foffset f) 344 = tail" using assms(2-4) by (simp add: bslice_def)
  then show ?thesis
    using assms by (auto simp: read_record_def os_get_def Let_def)
qed

lemma read_all_log:
  assumes "quiet f" and "length buf = 344" and "foffset f = length pre"
    and "fcontents f = pre @ concat rs @ tail" and "\<forall>r \<in> set rs. valid_rec r" and "length tail < 344"
  shows "read_all f buf = (rs, f\<lparr>foffset := length (fcontents f)\<rparr>)"
  using assms
proof (induction rs arbitrary: f buf pre)
  case Nil
  then show ?case
    using read_record_tail [of f pre tail buf]
    by (subst read_all.simps) (auto split: WALResult.splits)
next
  case (Cons r rs)
  have r: "length r = 344" using Cons.prems(5) by (simp add: valid_rec_def)
  have "read_record f buf = (WAL_OK, r, f\<lparr>foffset := length pre + 344\<rparr>)"
    using Cons.prems by (intro read_record_quiet [where post = "concat rs @ tail"]) simp_all
  moreover have "read_all (f\<lparr>foffset := length pre + 344\<rparr>) r =
      (rs, f\<lparr>foffset := length (fcontents f)\<rparr>)"
    using Cons.IH [of "f\<lparr>foffset := length pre + 344\<rparr>" r "pre @ r"] Cons.prems r by simp
  ultimately show ?case by (subst read_all.simps) simp
qed

text \<open>Appending.\<close>

definition log_ok :: "osfile \<Rightarrow> walrec list \<Rightarrow> bool" where
  "log_ok f rs \<longleftrightarrow>
     quiet f \<and> fcontents f = concat rs \<and> foffset f = length (fcontents f) \<and>
     (\<forall>r \<in> set rs. valid_rec r)"

lemma write_record_log:
  assumes "log_ok f rs" and "length r = 344"
  shows "\<exists>f'. write_record f r = (WAL_OK, f') \<and> log_ok f' (rs @ [seal r])"
  using assms
  by (auto simp: write_record_def Let_def os_put_def log_ok_def seal_def [symmetric])

datatype log_op =
    LBegin
  | LWrite u32 u8 cstr "bytes option" u16 u32
  | LCommit u32

fun run_op :: "log_op \<Rightarrow> WAL option \<times> osfile \<Rightarrow> (WALResult \<times> WAL option \<times> osfile) option" where
  "run_op LBegin (w, f) = (case wal_begin w f of (res, txn, w, f) \<Rightarrow> Some (res, w, f))"
| "run_op (LWrite txn ty table data len page) (w, f) = wal_write w f txn ty table data len page"
| "run_op (LCommit txn) (w, f) = Some (wal_commit w f txn)"

fun run_ops :: "log_op list \<Rightarrow> WAL option \<times> osfile \<Rightarrow> (WALResult list \<times> WAL option \<times> osfile) option" where
  "run_ops [] (w, f) = Some ([], w, f)"
| "run_ops (p # ps) (w, f) =
     do {
       (res, w, f) \<leftarrow> run_op p (w, f);
       (ress, w, f) \<leftarrow> run_ops ps (w, f);
       Some (res # ress, w, f)
     }"

text \<open>The record an operation is meant to leave in the log.\<close>

fun rec_matches :: "log_op \<Rightarrow> walrec \<Rightarrow> bool" where
  "rec_matches LBegin r \<longleftrightarrow> rec_type r = WAL_BEGIN"
| "rec_matches (LCommit txn) r \<longleftrightarrow> rec_type r = WAL_COMMIT \<and> rec_txn r = txn"
| "rec_matches (LWrite txn ty table data len page) r \<longleftrightarrow>
     rec_type r = ty \<and> rec_txn r = txn \<and> rec_page r = page \<and> rec_data_len r = len \<and>
     str_at (rec_table r) = Some (take 63 table) \<and>
     (case data of
        None \<Rightarrow> rec_data r = replicate 256 0
      | Some d \<Rightarrow> (let n = min (unat len) 256 in rec_data r = take n d @ replicate (256 - n) 0))"

fun op_ok :: "log_op \<Rightarrow> bool" where
  "op_ok (LWrite txn ty table data len page) \<longleftrightarrow>
     0 \<notin> set table \<and> (case data of None \<Rightarrow> True | Some d \<Rightarrow> min (unat len) 256 \<le> length d)"
| "op_ok _ \<longleftrightarrow> True"

lemma rset_simps [simp]:
  assumes "length r = 344"
  shows "length (rset_lsn r a) = 344" "length (rset_txn r b) = 344" "length (rset_page r c) = 344"
    "length (rset_type r d) = 344" "length (rset_data_len r e) = 344"
    "rec_lsn (rset_lsn r a) = a" "rec_lsn (rset_txn r b) = rec_lsn r"
    "rec_lsn (rset_type r d) = rec_lsn r" "rec_txn (rset_txn r b) = b"
    "rec_txn (rset_type r d) = rec_txn r" "rec_type (rset_type r d) = d"
  using assms by (simp_all add: rec_layout frame_simps length_blit)
    (simp add: nth_bslice_one length_blit bslice_blit_same)

lemma length_zero_rec [simp]: "length zero_rec = 344"
  by (simp add: zero_rec_def)

lemma blit_Nil: "blit m off [] = m"
  by (simp add: blit_def)

lemma bslice_replicate: "off + n \<le> k \<Longrightarrow> bslice (replicate k x) off n = replicate n x"
  by (simp add: bslice_def)

lemma bslice_blit_prefix:
  assumes "off + n \<le> length m" and "length bs \<le> n"
  shows "bslice (blit m off bs) off n = bs @ bslice m (off + length bs) (n - length bs)"
  using assms by (simp add: bslice_def blit_def)

lemma data_rec_fields:
  assumes "op_ok (LWrite txn ty table data len page)"
  shows "\<exists>r. data_rec lsn txn ty table data len page = Some r \<and> length r = 344 \<and> rec_lsn r = lsn \<and>
           rec_matches (LWrite txn ty table data len page) r"
proof -
  let ?base = "rset_page (rset_data_len (rset_type (rset_txn (rset_lsn zero_rec lsn) txn) ty) len) page"
  let ?tabd = "blit ?base 17 (strncpy_bytes table 63)"
  let ?n = "min (unat len) 256"
  define bs where "bs = (case data of None \<Rightarrow> [] | Some d \<Rightarrow> take ?n d)"
  have lb: "length bs \<le> 256" "data = Some d \<Longrightarrow> length bs = ?n" for d
    using assms by (auto simp: bs_def split: option.splits)
  have r0: "length ?base = 344" "bslice ?base 80 1 = [0]" "bslice ?base 84 256 = replicate 256 0"
    "rec_lsn ?base = lsn" "rec_txn ?base = txn" "rec_type ?base = ty" "rec_data_len ?base = len" "rec_page ?base = page"
    by (simp_all add: rec_layout frame_simps length_blit)
      (simp_all add: zero_rec_def bslice_replicate nth_bslice_one length_blit bslice_blit_same frame_simps)
  have r1: "length ?tabd = 344" using r0(1) by (simp add: length_blit)
  let ?full = "blit ?tabd 84 bs"
  have run: "data_rec lsn txn ty table data len page = Some ?full"
  proof (cases data)
    case None
    then show ?thesis by (simp add: data_rec_def Let_def bs_def blit_Nil)
  next
    case (Some d)
    have cl: "unat (if len < 256 then len else 256) = ?n"
      by (auto simp: word_less_nat_alt min_def)
    show ?thesis
    proof (cases "len = 0")
      case True
      then show ?thesis using Some by (simp add: data_rec_def Let_def bs_def blit_Nil)
    next
      case False
      then show ?thesis
        using Some assms cl r1
        by (cases "len < 256") (simp_all add: data_rec_def Let_def bs_def mem_read_def mem_write_def
            word_gt_0 bslice_def word_less_nat_alt blit_Nil)
    qed
  qed
  have len: "length ?full = 344" using r1 lb by (simp add: length_blit)
  have tab: "bslice ?full 17 64 = strncpy_bytes table 63 @ [0]"
    using r0 lb by (simp add: bslice_blit_other length_blit r1 bslice_blit_prefix)
  have dat: "bslice ?full 84 256 = bs @ replicate (256 - length bs) 0"
  proof -
    have "bslice ?full 84 256 = bs @ bslice ?tabd (84 + length bs) (256 - length bs)"
      using r1 lb(1) by (intro bslice_blit_prefix) simp_all
    also have "bslice ?tabd (84 + length bs) (256 - length bs) = bslice ?base (84 + length bs) (256 - length bs)"
      using r0(1) lb(1) by (intro bslice_blit_other) simp_all
    also have "\<dots> = bslice (bslice ?base 84 256) (length bs) (256 - length bs)"
      using lb(1) by (intro bslice_bslice [symmetric]) simp
    finally show ?thesis using r0(3) lb(1) by (simp add: bslice_replicate)
  qed
  have "str_at (rec_table ?full) = Some (take 63 table)"
  proof (cases "length table < 63")
    case True
    then show ?thesis using str_at_strncpy [of table 63 "[0]"] assms tab by (simp add: rec_table_def)
  next
    case False
    have "0 \<notin> set (take 63 table)" using assms by (auto dest: in_set_takeD)
    from str_at_terminated [OF this, of "[]"] show ?thesis
      using False tab by (simp add: rec_table_def strncpy_bytes_def)
  qed
  moreover have "rec_lsn ?full = lsn" "rec_txn ?full = txn" "rec_type ?full = ty" "rec_data_len ?full = len"
    "rec_page ?full = page"
    using r0 r1 lb len
    by (simp_all add: rec_lsn_def rec_txn_def rec_type_def rec_data_len_def rec_page_def frame_simps)
      (simp add: nth_bslice_one length_blit bslice_blit_other)
  moreover have "case data of None \<Rightarrow> rec_data ?full = replicate 256 0
      | Some d \<Rightarrow> rec_data ?full = take ?n d @ replicate (256 - ?n) 0"
    using dat lb by (auto simp: rec_data_def bs_def split: option.splits)
  ultimately show ?thesis using run len by (auto simp: Let_def split: option.splits)
qed

text \<open>One operation, and a sequence of them, on a log that works.\<close>

lemma write_sync_log:
  assumes "log_ok f rs" and "length r = 344"
  shows "\<exists>f'. (case write_record f r of
              (WAL_OK, f) \<Rightarrow> (case os_fsync f of (ok, f) \<Rightarrow> (if ok then WAL_OK else WAL_ERROR, Some w, f))
            | (res, f) \<Rightarrow> (res, Some w, f)) = (WAL_OK, Some w, f') \<and> log_ok f' (rs @ [seal r])"
proof -
  obtain f' where w: "write_record f r = (WAL_OK, f')" "log_ok f' (rs @ [seal r])"
    using write_record_log [OF assms] by blast
  then have "quiet f'" by (simp add: log_ok_def)
  with w show ?thesis by simp
qed

lemma wal_begin_log:
  assumes "log_ok f rs"
  shows "\<exists>f' r. wal_begin (Some w) f =
             (WAL_OK, Some (next_txn w), Some \<lparr>next_lsn = next_lsn w + 1, next_txn = next_txn w + 1\<rparr>, f') \<and>
           log_ok f' (rs @ [r]) \<and> rec_lsn r = next_lsn w \<and> rec_txn r = next_txn w \<and> rec_type r = WAL_BEGIN"
proof -
  let ?r = "rset_type (rset_txn (rset_lsn zero_rec (next_lsn w)) (next_txn w)) WAL_BEGIN"
  obtain f' where "write_record f ?r = (WAL_OK, f')" "log_ok f' (rs @ [seal ?r])"
    using write_record_log [OF assms, of ?r] by auto
  then show ?thesis
    by (intro exI [of _ f'] exI [of _ "seal ?r"]) (cases w; simp add: wal_begin_def Let_def)
qed

lemma wal_commit_log:
  assumes "log_ok f rs"
  shows "\<exists>f' r. wal_commit (Some w) f txn = (WAL_OK, Some (w\<lparr>next_lsn := next_lsn w + 1\<rparr>), f') \<and>
           log_ok f' (rs @ [r]) \<and> rec_lsn r = next_lsn w \<and> rec_txn r = txn \<and> rec_type r = WAL_COMMIT"
proof -
  let ?r = "rset_type (rset_txn (rset_lsn zero_rec (next_lsn w)) txn) WAL_COMMIT"
  obtain f' where "wal_commit (Some w) f txn = (WAL_OK, Some (w\<lparr>next_lsn := next_lsn w + 1\<rparr>), f')"
    "log_ok f' (rs @ [seal ?r])"
    using write_sync_log [OF assms, of ?r "w\<lparr>next_lsn := next_lsn w + 1\<rparr>"]
    by (auto simp: wal_commit_def Let_def)
  then show ?thesis by (intro exI [of _ f'] exI [of _ "seal ?r"]) simp
qed

lemma wal_write_log:
  assumes "log_ok f rs" and "op_ok (LWrite txn ty table data len page)"
  shows "\<exists>f' r. wal_write (Some w) f txn ty table data len page =
             Some (WAL_OK, Some (w\<lparr>next_lsn := next_lsn w + 1\<rparr>), f') \<and>
           log_ok f' (rs @ [r]) \<and> rec_lsn r = next_lsn w \<and>
           rec_matches (LWrite txn ty table data len page) r"
proof -
  obtain r where r: "data_rec (next_lsn w) txn ty table data len page = Some r" "length r = 344"
    "rec_lsn r = next_lsn w" "rec_matches (LWrite txn ty table data len page) r"
    using data_rec_fields [OF assms(2)] by blast
  obtain f' where "wal_write (Some w) f txn ty table data len page =
      Some (WAL_OK, Some (w\<lparr>next_lsn := next_lsn w + 1\<rparr>), f')" "log_ok f' (rs @ [seal r])"
    using write_sync_log [OF assms(1) r(2), of "w\<lparr>next_lsn := next_lsn w + 1\<rparr>"] r(1)
    by (auto simp: wal_write_def)
  moreover have "rec_matches (LWrite txn ty table data len page) (seal r)"
    using r(2,4) by (simp split: option.splits)
  ultimately show ?thesis using r(2,3) by (intro exI [of _ f'] exI [of _ "seal r"]) simp
qed

text \<open>The transaction ids of the records that \<open>wal_begin\<close> calls wrote, of a list of calls.\<close>

fun begun :: "log_op list \<Rightarrow> walrec list \<Rightarrow> u32 list" where
  "begun (p # ps) (r # rs) = (if p = LBegin then rec_txn r # begun ps rs else begun ps rs)"
| "begun _ _ = []"

lemma run_op_log:
  assumes "log_ok f rs" and "op_ok p"
  shows "\<exists>w' f' r. run_op p (Some w, f) = Some (WAL_OK, Some w', f') \<and> log_ok f' (rs @ [r]) \<and>
           next_lsn w' = next_lsn w + 1 \<and> rec_lsn r = next_lsn w \<and> rec_matches p r \<and>
           (if p = LBegin then rec_txn r = next_txn w \<and> next_txn w' = next_txn w + 1 else next_txn w' = next_txn w)"
proof (cases p)
  case LBegin
  then show ?thesis using wal_begin_log [OF assms(1), of w] by auto
next
  case (LWrite txn ty table data len page)
  then show ?thesis using wal_write_log [OF assms(1), of txn ty table data len page w] assms(2) by force
next
  case (LCommit txn)
  then show ?thesis using wal_commit_log [OF assms(1), of w txn] by auto
qed

lemma run_ops_log:
  assumes "log_ok f rs" and "\<forall>p \<in> set ps. op_ok p"
  shows "\<exists>w' f' new. run_ops ps (Some w, f) = Some (replicate (length ps) WAL_OK, Some w', f') \<and>
           log_ok f' (rs @ new) \<and> list_all2 rec_matches ps new \<and>
           map rec_lsn new = map (\<lambda>i. next_lsn w + of_nat i) [0 ..< length ps] \<and>
           begun ps new = map (\<lambda>i. next_txn w + of_nat i) [0 ..< length (begun ps new)]"
  using assms
proof (induction ps arbitrary: w f rs)
  case Nil
  then show ?case by (auto intro: exI [of _ "[]"])
next
  case (Cons p ps)
  obtain w1 f1 r where s1: "run_op p (Some w, f) = Some (WAL_OK, Some w1, f1)" "log_ok f1 (rs @ [r])"
    "next_lsn w1 = next_lsn w + 1" "rec_lsn r = next_lsn w" "rec_matches p r"
    "if p = LBegin then rec_txn r = next_txn w \<and> next_txn w1 = next_txn w + 1 else next_txn w1 = next_txn w"
    using run_op_log [OF Cons.prems(1), of p w] Cons.prems(2) by auto
  obtain w' f' new where s2: "run_ops ps (Some w1, f1) = Some (replicate (length ps) WAL_OK, Some w', f')"
    "log_ok f' ((rs @ [r]) @ new)" "list_all2 rec_matches ps new"
    "map rec_lsn new = map (\<lambda>i. next_lsn w1 + of_nat i) [0 ..< length ps]"
    "begun ps new = map (\<lambda>i. next_txn w1 + of_nat i) [0 ..< length (begun ps new)]"
    using Cons.IH [OF s1(2), of w1] Cons.prems(2) by auto
  have "map rec_lsn (r # new) = map (\<lambda>i. next_lsn w + of_nat i) [0 ..< length (p # ps)]"
    using s2(4) s1(3,4)
    by (simp add: upt_conv_Cons map_Suc_upt [symmetric] comp_def add.assoc del: upt_Suc)
  moreover have "begun (p # ps) (r # new) = map (\<lambda>i. next_txn w + of_nat i) [0 ..< length (begun (p # ps) (r # new))]"
    using s1(6) s2(5)
    by (cases "p = LBegin")
      (simp_all add: upt_conv_Cons map_Suc_upt [symmetric] comp_def add.assoc del: upt_Suc)
  ultimately show ?case
    using s1 s2 by (intro exI [of _ w'] exI [of _ f'] exI [of _ "r # new"]) simp
qed

text \<open>
  C6: the log gives back what was appended: after any sequence of \<open>wal_begin\<close>, \<open>wal_write\<close>
  and \<open>wal_commit\<close> calls on a log that works, every call answers \<open>WAL_OK\<close> and the read loop
  from the start of the file passes exactly the old records and then one record per call, in
  order, with the type, transaction, table name (up to 63 characters), page, length and first
  256 data bytes of the call, and with consecutive sequence numbers; the \<open>wal_begin\<close> calls get
  consecutive transaction ids.
\<close>

theorem wal_log_roundtrip:
  assumes "log_ok f rs" and "\<forall>p \<in> set ps. op_ok p" and "length buf = REC_SIZE"
  shows "\<exists>w' f' new. run_ops ps (Some w, f) = Some (replicate (length ps) WAL_OK, Some w', f') \<and>
           fst (read_all (f'\<lparr>foffset := 0\<rparr>) buf) = rs @ new \<and> list_all2 rec_matches ps new \<and>
           map rec_lsn new = map (\<lambda>i. next_lsn w + of_nat i) [0 ..< length ps] \<and>
           begun ps new = map (\<lambda>i. next_txn w + of_nat i) [0 ..< length (begun ps new)]"
proof -
  obtain w' f' new where r: "run_ops ps (Some w, f) = Some (replicate (length ps) WAL_OK, Some w', f')"
    "log_ok f' (rs @ new)" "list_all2 rec_matches ps new"
    "map rec_lsn new = map (\<lambda>i. next_lsn w + of_nat i) [0 ..< length ps]"
    "begun ps new = map (\<lambda>i. next_txn w + of_nat i) [0 ..< length (begun ps new)]"
    using run_ops_log [OF assms(1,2)] by blast
  then have "fst (read_all (f'\<lparr>foffset := 0\<rparr>) buf) = rs @ new"
    using read_all_log [of "f'\<lparr>foffset := 0\<rparr>" buf "[]" "rs @ new" "[]"] assms(3)
    by (auto simp: log_ok_def)
  with r show ?thesis by blast
qed

lemma bump_lsn_above:
  assumes "\<forall>r \<in> set rs. rec_lsn r \<noteq> -1 \<and> rec_txn r \<noteq> -1"
  shows "next_lsn w \<le> next_lsn (foldl bump_lsn w rs) \<and> next_txn w \<le> next_txn (foldl bump_lsn w rs) \<and>
         (\<forall>r \<in> set rs. rec_lsn r < next_lsn (foldl bump_lsn w rs) \<and>
                       rec_txn r < next_txn (foldl bump_lsn w rs))"
  using assms
proof (induction rs arbitrary: w)
  case (Cons r rs)
  have b: "next_lsn w \<le> next_lsn (bump_lsn w r)" "rec_lsn r < next_lsn (bump_lsn w r)"
    "next_txn w \<le> next_txn (bump_lsn w r)" "rec_txn r < next_txn (bump_lsn w r)"
    using Cons.prems word_less_add_one [of "rec_lsn r"] word_less_add_one [of "rec_txn r"] by (auto simp: bump_lsn_def Let_def)
  have ih: "next_lsn (bump_lsn w r) \<le> next_lsn (foldl bump_lsn (bump_lsn w r) rs)"
    "next_txn (bump_lsn w r) \<le> next_txn (foldl bump_lsn (bump_lsn w r) rs)"
    "\<forall>q \<in> set rs. rec_lsn q < next_lsn (foldl bump_lsn (bump_lsn w r) rs) \<and>
                  rec_txn q < next_txn (foldl bump_lsn (bump_lsn w r) rs)"
    using Cons.IH [of "bump_lsn w r"] Cons.prems by simp_all
  show ?case using b ih by (auto intro: order_trans less_le_trans)
qed simp

text \<open>
  C38: a torn last record does no harm: behind any list of records of which the checksums fit,
  a tail shorter than a record ends the read loop, and the loop has passed exactly those
  records; so \<open>wal_open\<close> continues with a sequence number and a transaction id above every
  one in the log (unless the log holds the largest number of its type).
\<close>

theorem wal_open_torn_tail:
  assumes "quiet f" and "fcontents f = concat rs @ tail" and "\<forall>r \<in> set rs. valid_rec r"
    and "length tail < REC_SIZE" and "length junk = REC_SIZE"
    and "\<forall>r \<in> set rs. rec_lsn r \<noteq> -1 \<and> rec_txn r \<noteq> -1"
  shows "\<exists>w f'. wal_open True True junk f = (Some w, f') \<and>
           fst (read_all (f\<lparr>foffset := 0\<rparr>) junk) = rs \<and>
           (\<forall>r \<in> set rs. rec_lsn r < next_lsn w \<and> rec_txn r < next_txn w) \<and>
           foffset f' = length (fcontents f')"
proof -
  have rd: "read_all (f\<lparr>foffset := 0\<rparr>) junk = (rs, f\<lparr>foffset := length (fcontents f)\<rparr>)"
    using read_all_log [of "f\<lparr>foffset := 0\<rparr>" junk "[]" rs tail] assms by simp
  show ?thesis
    using rd bump_lsn_above [OF assms(6)] assms(1) by (simp add: wal_open_def Let_def)
qed

end
