(* ===== verification/WalRecover.thy ===== *)
theory WalRecover imports WalProps begin

text \<open>
  Recovery: which records are redone, what is left of the log, where the fixed arrays of
  \<open>wal_recover\<close> run over, and what the record checksum can see.
\<close>

definition redo_set :: "walrec list \<Rightarrow> walrec list" where
  "redo_set rs =
     filter (\<lambda>r. rec_type r = WAL_INSERT \<and>
       (\<exists>c \<in> set rs. rec_type c = WAL_COMMIT \<and> rec_txn c = rec_txn r)) rs"

definition commits :: "walrec list \<Rightarrow> nat" where
  "commits rs = length (filter (\<lambda>r. rec_type r = WAL_COMMIT) rs)"

lemma fold_opt_skip:
  assumes "\<And>s x. x \<in> set xs \<Longrightarrow> f s x = (if P x then g s x else Some s)"
  shows "fold_opt f s xs = fold_opt g s (filter P xs)"
  using assms by (induction xs arbitrary: s) auto

lemma commit_loop_law:
  assumes "n \<le> length c"
  shows "if n + commits rs \<le> length c
         then \<exists>c'. commit_loop rs c n = Some (c', n + commits rs) \<and>
                take (n + commits rs) c' = take n c @ map rec_txn (filter (\<lambda>r. rec_type r = WAL_COMMIT) rs)
         else commit_loop rs c n = None"
  using assms
proof (induction rs arbitrary: c n)
  case Nil
  then show ?case by (simp add: commits_def)
next
  case (Cons r rs)
  show ?case
  proof (cases "rec_type r = WAL_COMMIT")
    case False
    then have "commits (r # rs) = commits rs" by (simp add: commits_def)
    then show ?thesis using Cons.IH [OF Cons.prems] False by simp
  next
    case True
    have k: "n + commits (r # rs) = n + 1 + commits rs" using True by (simp add: commits_def)
    show ?thesis
    proof (cases "n < length c")
      case False
      then show ?thesis using True by (simp add: k mem_write_def)
    next
      case lt: True
      let ?c = "blit c n [rec_txn r]"
      have c: "n + 1 \<le> length ?c" "length ?c = length c" "take (n + 1) ?c = take n c @ [rec_txn r]"
        using lt by (simp_all add: blit_def)
      have w: "mem_write c n [rec_txn r] = Some ?c" using lt by simp
      show ?thesis using Cons.IH [OF c(1)] unfolding k c(2,3) by (auto simp: True w split: if_splits)
    qed
  qed
qed

lemma committed_txns_eq:
  "committed_txns rs =
     (if commits rs \<le> 256 then Some (map rec_txn (filter (\<lambda>r. rec_type r = WAL_COMMIT) rs)) else None)"
  using commit_loop_law [of 0 "replicate 256 0" rs] by (auto simp: committed_txns_def split: if_splits)

lemma redo_fold:
  assumes "committed_txns rs = Some cs"
  shows "fold_opt (redo_step redo cs) s rs = fold_opt redo s (redo_set rs)"
proof -
  have cs: "set cs = rec_txn ` {r \<in> set rs. rec_type r = WAL_COMMIT}"
    using assms by (auto simp: committed_txns_eq split: if_splits)
  show ?thesis
    unfolding redo_set_def
    by (rule fold_opt_skip) (auto simp: redo_step_def cs wal_types image_iff)
qed

lemma recover_run:
  assumes "quiet f" and "fcontents f = concat rs @ tail" and "\<forall>r \<in> set rs. valid_rec r"
    and "length tail < 344" and "length junk = 344" and "rs \<noteq> []"
  shows "wal_recover redo junk (Some w) f s =
           (if commits (take 1024 rs) \<le> 256
            then map_option
                   (\<lambda>s'. (WAL_OK, Some (w\<lparr>next_lsn := 1, next_txn := 1\<rparr>),
                          f\<lparr>fcontents := [], foffset := 0\<rparr>, s'))
                   (fold_opt redo s (redo_set (take 1024 rs)))
            else None)"
proof -
  have rd: "read_all (f\<lparr>foffset := 0\<rparr>) junk = (rs, f\<lparr>foffset := length (fcontents f)\<rparr>)"
    using read_all_log [of "f\<lparr>foffset := 0\<rparr>" junk "[]" rs tail] assms by simp
  have ne: "take 1024 rs \<noteq> []" using assms(6) by simp
  have c: "committed_txns (take 1024 rs) = None \<longleftrightarrow> \<not> commits (take 1024 rs) \<le> 256"
    by (simp add: committed_txns_eq)
  show ?thesis
  proof (cases "committed_txns (take 1024 rs)")
    case None
    then show ?thesis using c assms(1) rd ne by (simp add: wal_recover_def Let_def)
  next
    case (Some cs)
    have le: "commits (take 1024 rs) \<le> 256" using c Some by simp
    have fold: "fold_opt (redo_step redo cs) s (take 1024 rs) = fold_opt redo s (redo_set (take 1024 rs))"
      by (rule redo_fold [OF Some])
    show ?thesis
      using le assms(1) rd ne Some
      by (cases "fold_opt redo s (redo_set (take 1024 rs))")
        (simp_all add: wal_recover_def Let_def fold)
  qed
qed


text \<open>
  Recovering twice is recovering once: directly after a recovery the log is empty, and a
  second recovery redoes nothing and changes neither the tables nor the counters.
\<close>

theorem wal_recover_idempotent:
  assumes "quiet f" and "fcontents f = concat rs @ tail" and "\<forall>r \<in> set rs. valid_rec r"
    and "length tail < REC_SIZE" and "length junk = REC_SIZE" and "rs \<noteq> []"
    and "wal_recover redo junk (Some w) f s = Some (res, w', f', s')"
  shows "wal_recover redo junk w' f' s' = Some (WAL_OK, w', f', s')"
proof -
  have len: "length tail < 344" "length junk = 344" using assms(4,5) by simp_all
  have r: "w' = Some (w\<lparr>next_lsn := 1, next_txn := 1\<rparr>)" "f' = f\<lparr>fcontents := [], foffset := 0\<rparr>"
    using recover_run [OF assms(1-3) len assms(6), of redo w s] assms(7)
    by (cases "fold_opt redo s (redo_set (take 1024 rs))"; auto split: if_splits)+
  have q: "quiet f'" using assms(1) r by simp
  have rd: "read_all f' junk = ([], f')"
    using read_all_log [of f' junk "[]" "[]" "[]"] q r(2) assms(5) by simp
  show ?thesis using q r rd by (simp add: wal_recover_def Let_def)
qed

text \<open>
  C39: the array \<open>committed\<close> has room for 256 transactions and nothing checks the bound: a log
  with more commit records among its first 1024 records makes recovery write behind the array.
  Every auto-committed insert leaves one commit record, so 257 of them are enough.
\<close>

theorem wal_recover_commit_overflow:
  assumes "quiet f" and "fcontents f = concat rs" and "\<forall>r \<in> set rs. valid_rec r"
    and "length junk = REC_SIZE" and "256 < commits (take 1024 rs)"
  shows "wal_recover redo junk (Some w) f s = None"
proof -
  have "rs \<noteq> []" using assms(5) by (auto simp: commits_def)
  then show ?thesis
    using recover_run [of f rs "[]" junk redo w s] assms by simp
qed

text \<open>
  Records behind the 1024th are read and forgotten, and then the log is truncated: two
  logs with the same first 1024 records recover to the same tables, whatever committed
  inserts the rest of the longer one holds, and both logs end up empty.
\<close>

theorem wal_recover_drops_tail:
  assumes "quiet f" and "fcontents f = concat (rs @ late)" and "\<forall>r \<in> set (rs @ late). valid_rec r"
    and "quiet g" and "fcontents g = concat rs"
    and "length rs = 1024" and "length junk = REC_SIZE"
    and "wal_recover redo junk (Some w) g s = Some (res, w', g', s')"
  shows "\<exists>f'. wal_recover redo junk (Some w) f s = Some (res, w', f', s') \<and> fcontents f' = []"
proof -
  have ne: "rs \<noteq> []" "rs @ late \<noteq> []" using assms(6) by auto
  have junk: "length junk = 344" using assms(7) by simp
  have "wal_recover redo junk (Some w) g s =
      (if commits rs \<le> 256
       then map_option (\<lambda>s'. (WAL_OK, Some (w\<lparr>next_lsn := 1, next_txn := 1\<rparr>), g\<lparr>fcontents := [], foffset := 0\<rparr>, s'))
              (fold_opt redo s (redo_set rs)) else None)"
    using recover_run [of g rs "[]" junk redo w s] assms(3-6) ne junk by simp
  moreover have "wal_recover redo junk (Some w) f s =
      (if commits rs \<le> 256
       then map_option (\<lambda>s'. (WAL_OK, Some (w\<lparr>next_lsn := 1, next_txn := 1\<rparr>), f\<lparr>fcontents := [], foffset := 0\<rparr>, s'))
              (fold_opt redo s (redo_set rs)) else None)"
    using recover_run [of f "rs @ late" "[]" junk redo w s] assms(1-3,6) ne junk by simp
  ultimately show ?thesis
    using assms(8) by (cases "fold_opt redo s (redo_set rs)") (auto split: if_splits)
qed

text \<open>The checksum of a record.\<close>

lemma le_word_zeros [simp]: "le_word (replicate n 0) = 0"
  by (induction n) auto

lemma rec_covered_split:
  assumes "length r = 344"
  shows "rec_covered r = take 308 r @ bslice r 308 32"
  using assms append_take_drop_id [of 308 "take 340 r"]
  by (simp add: rec_covered_def bslice_def drop_take)

text \<open>
  The record checksum only covers the last 32 bytes of the data field, so it is 0 for
  every record whose data is at most 224 bytes long, and any 344 bytes that end in 36 zero
  bytes, such as a block of zeros or a record whose fields were overwritten, are accepted as
  a record.
\<close>

theorem wal_checksum_vacuous:
  assumes "length r = REC_SIZE" and "bslice r 308 36 = replicate 36 0"
    and "quiet f" and "fcontents f = pre @ r @ post" and "foffset f = length pre"
    and "length buf = REC_SIZE"
  shows "\<exists>f'. read_record f buf = (WAL_OK, r, f')"
proof -
  have len: "length r = 344" using assms(1) by simp
  have z: "bslice r (308 + a) n = replicate n 0" if "a + n \<le> 36" for a n
    using bslice_bslice [of a n 36 r 308] that assms(2) by (simp add: bslice_replicate)
  have "wal_checksum r = 0"
    using rec_covered_split [OF len] z [of 0 32]
    by (intro wal_sum.zero_window [of r "take 308 r" 32]) simp_all
  moreover have "rec_checksum r = 0"
    using z [of 32 4] by (simp add: rec_checksum_def ld32_def le_word_zeros)
  ultimately show ?thesis
    using read_record_quiet [OF assms(3) _ assms(5,4), of buf] assms(6) len by (simp add: valid_rec_def)
qed

text \<open>
  The other side: a change of one of the last 25 data bytes of a stored record makes the
  read loop stop at that record with \<open>WAL_CORRUPT\<close>.
\<close>

lemma wal_checksum_detects:
  assumes "valid_rec r" and "315 \<le> k" and "k < 340" and "v \<noteq> r ! k"
    and "quiet f" and "fcontents f = pre @ r[k := v] @ post" and "foffset f = length pre"
    and "length buf = REC_SIZE"
  shows "fst (read_record f buf) = WAL_CORRUPT"
proof -
  have len: "length r = 344" "wal_checksum r = rec_checksum r" using assms(1) by (simp_all add: valid_rec_def)
  let ?q = "r[k := v]"
  have cov: "rec_covered q = take 340 q" if "length q = 344" for q :: walrec
    using that by (simp add: rec_covered_def bslice_def)
  have k: "k < length (take 340 r)" "take 340 r ! k = r ! k" using len assms(3) by simp_all
  have "wal_checksum ?q \<noteq> wal_checksum r"
  proof (rule wal_sum.detects_late_byte)
    show "rec_covered ?q = take k (take 340 r) @ v # drop (Suc k) (take 340 r)"
      using cov [of ?q] len(1) upd_conv_take_nth_drop [OF k(1), of v] by (simp add: take_update_swap)
    show "rec_covered r = take k (take 340 r) @ r ! k # drop (Suc k) (take 340 r)"
      using id_take_nth_drop [OF k(1)] len k(2) by (simp add: cov)
  qed (use assms(2,4) len in auto)
  moreover have "rec_checksum ?q = rec_checksum r"
    using assms(3) by (simp add: rec_checksum_def ld32_def bslice_def)
  moreover have "bslice (fcontents f) (foffset f) 344 = ?q"
    using assms(6,7) len(1) by (simp add: bslice_def)
  moreover have "blit buf 0 ?q = ?q" using assms(8) len(1) by (simp add: blit_def)
  ultimately show ?thesis
    using assms(5) len by (simp add: read_record_def os_get_def Let_def)
qed

text \<open>A torn append and what follows it.\<close>

lemma commit_rec_zero:
  assumes "length r = 344" and "r = rset_type (rset_txn (rset_lsn zero_rec l) t) WAL_COMMIT"
  shows "bslice (seal r) 17 327 = replicate 327 0"
proof -
  have z: "bslice r 17 327 = replicate 327 0"
    by (simp add: assms(2) rec_layout frame_simps length_blit)
      (simp add: zero_rec_def bslice_replicate)
  have "bslice r 308 32 = replicate 32 0"
    using bslice_bslice [of 291 32 327 r 17] z by (simp add: bslice_replicate)
  then have "wal_checksum r = 0"
    using rec_covered_split [OF assms(1)] by (intro wal_sum.zero_window [of r "take 308 r" 32]) simp_all
  moreover have "bslice r 340 4 = replicate 4 0"
    using bslice_bslice [of 323 4 327 r 17] z by (simp add: bslice_replicate)
  then have "rec_checksum r = 0" by (simp only: rec_checksum_def ld32_def le_word_zeros)
  ultimately have "seal r = r" using assms(1) by (metis seal_def rset_checksum_simps(4))
  then show ?thesis using z by simp
qed

lemma mixed_valid:
  assumes "length r = 344" and "length c = 344" and "bslice c 17 327 = replicate 327 0"
    and "17 \<le> k" and "k \<le> 291"
  defines "m \<equiv> take k r @ take (344 - k) c"
  shows "valid_rec m" and "rec_type m = rec_type r"
proof -
  have len: "length m = 344" using assms(1,2,5) by (simp add: m_def)
  have z: "bslice m (308 + a) n = replicate n 0" if "a + n \<le> 36" for a n
  proof (rule nth_equalityI)
    show "length (bslice m (308 + a) n) = length (replicate n (0 :: u8))" using len that by simp
    fix i assume "i < length (bslice m (308 + a) n)"
    then have i: "i < n" using len that by simp
    define j where "j = a + i"
    have j: "j < 36" "308 + a + i = 308 + j" using that i by (simp_all add: j_def)
    have "bslice m (308 + a) n ! i = m ! (308 + a + i)" using len that i by (simp add: nth_bslice)
    also have "\<dots> = m ! (308 + j)" by (simp only: j(2))
    also have "\<dots> = c ! (308 + j - k)" using assms(1,2,5) j by (simp add: m_def nth_append)
    also have "\<dots> = bslice c 17 327 ! (291 + j - k)"
      using assms(2,4,5) j by (simp add: nth_bslice)
    also have "\<dots> = 0" using assms(3-5) j by simp
    finally show "bslice m (308 + a) n ! i = replicate n 0 ! i" using i by simp
  qed
  have "wal_checksum m = 0"
    using rec_covered_split [OF len] z [of 0 32] by (intro wal_sum.zero_window [of m "take 308 m" 32]) simp_all
  moreover have "rec_checksum m = 0"
    using z [of 32 4] by (simp add: rec_checksum_def ld32_def le_word_zeros)
  ultimately show "valid_rec m" using len by (simp add: valid_rec_def)
  show "rec_type m = rec_type r" using assms(1,4) by (simp add: m_def rec_type_def nth_append)
qed

text \<open>
  a failed append is not undone. When \<open>write\<close> stores only the first \<open>k\<close> bytes of a record
  (17 to 291 of them), \<open>wal_write\<close> answers \<open>WAL_ERROR\<close>; a commit after it is answered with
  \<open>WAL_OK\<close>, but the record loop reads the fragment and the start of the commit record as one
  record of the failed write's type, with a checksum that fits, and never sees the commit.
\<close>

theorem wal_torn_append_hides_commit:
  assumes "fcontents f = concat rs" and "foffset f = length (fcontents f)"
    and "\<forall>r \<in> set rs. valid_rec r" and "fsched f = [IoShort k]" and "17 \<le> k" and "k \<le> 291"
    and "op_ok (LWrite txn ty table data len page)" and "length junk = REC_SIZE"
    and "wal_write (Some w) f txn ty table data len page = Some (res, w1, f1)"
    and "wal_commit w1 f1 txn = (res', w2, f2)"
  shows "res = WAL_ERROR \<and> res' = WAL_OK \<and>
         (\<exists>m. fst (read_all (f2\<lparr>foffset := 0\<rparr>) junk) = rs @ [m] \<and> rec_type m = ty)"
proof -
  obtain r where r: "data_rec (next_lsn w) txn ty table data len page = Some r" "length r = 344"
    "rec_type r = ty"
    using data_rec_fields [OF assms(7), of "next_lsn w"] by auto
  let ?frag = "take k (seal r)" and ?w = "w\<lparr>next_lsn := next_lsn w + 1\<rparr>"
  have lf: "length ?frag = k" using r(2) assms(6) by simp
  have q: "quiet (f\<lparr>fsched := []\<rparr>)" by (simp add: quiet_def)
  have "write_record f r = (WAL_ERROR, snd (os_put (f\<lparr>fsched := []\<rparr>) ?frag))"
    using assms(4,6) r(2) lf
    by (simp add: write_record_def Let_def seal_def os_write_def draw_def os_put_def)
  then have f1: "res = WAL_ERROR" "w1 = Some ?w" "f1 = snd (os_put (f\<lparr>fsched := []\<rparr>) ?frag)"
    using assms(9) r(1) by (auto simp: wal_write_def)
  have l1: "quiet f1" "fcontents f1 = concat rs @ ?frag" "foffset f1 = length (fcontents f1)"
    using q f1(3) assms(1,2) by (simp_all add: os_put_def)
  let ?c = "rset_type (rset_txn (rset_lsn zero_rec (next_lsn ?w)) txn) WAL_COMMIT"
  have lc: "length ?c = 344" by simp
  have "file_put (fcontents f1) (foffset f1) (seal ?c) = fcontents f1 @ seal ?c"
    by (simp only: l1(3) file_put_end)
  then have f2: "res' = WAL_OK" "quiet f2" "fcontents f2 = concat rs @ ?frag @ seal ?c"
    using assms(10) f1(2) l1(1,2)
    by (auto simp: wal_commit_def Let_def write_record_def seal_def [symmetric] os_put_def)
  let ?m = "?frag @ take (344 - k) (seal ?c)" and ?tail = "drop (344 - k) (seal ?c)"
  have m: "valid_rec ?m" "rec_type ?m = ty"
    using mixed_valid [OF _ _ commit_rec_zero [OF lc refl] assms(5,6), of "seal r"] r lc by simp_all
  have c2: "fcontents f2 = concat (rs @ [?m]) @ ?tail" using f2(3) by simp
  have tl: "length ?tail < 344" using assms(6) lc by simp
  have "fst (read_all (f2\<lparr>foffset := 0\<rparr>) junk) = rs @ [?m]"
    using read_all_log [of "f2\<lparr>foffset := 0\<rparr>" junk "[]" "rs @ [?m]" ?tail] f2(2) c2 tl m(1) assms(3,8)
    by (simp del: concat_append append_assoc)
  then show ?thesis using f1(1) f2(1) m(2) by blast
qed

end
