(* ===== verification/WalWitness.thy ===== *)
theory WalWitness imports WalRecover begin

text \<open>The log properties at concrete logs.\<close>

definition log_file :: "bytes \<Rightarrow> osfile" where
  "log_file c = \<lparr>fcontents = c, foffset = length c, fsched = []\<rparr>"

lemma log_file_simps [simp]: "quiet (log_file c)" "fcontents (log_file c) = c" "foffset (log_file c) = length c"
  by (simp_all add: log_file_def quiet_def)

definition wal1 :: WAL where
  "wal1 = \<lparr>next_lsn = 1, next_txn = 1\<rparr>"

definition an_insert :: "u32 \<Rightarrow> walrec" where
  "an_insert txn = seal (the (data_rec 2 txn WAL_INSERT (lit ''t'') (Some (lit ''1|a'')) 3 0))"

definition a_commit :: "u32 \<Rightarrow> walrec" where
  "a_commit txn = seal (rset_type (rset_txn (rset_lsn zero_rec 3) txn) WAL_COMMIT)"

lemma lit_t: "op_ok (LWrite txn ty (lit ''t'') (Some (lit ''1|a'')) 3 0)"
  by (simp add: lit_def)

lemma an_insert_simps [simp]:
  "valid_rec (an_insert txn)" "rec_type (an_insert txn) = WAL_INSERT" "rec_txn (an_insert txn) = txn"
  "rec_lsn (an_insert txn) = 2"
  using data_rec_fields [OF lit_t, of 2 txn WAL_INSERT] by (auto simp: an_insert_def)

lemma a_commit_simps [simp]:
  "valid_rec (a_commit txn)" "rec_type (a_commit txn) = WAL_COMMIT" "rec_txn (a_commit txn) = txn"
  "rec_lsn (a_commit txn) = 3"
  by (simp_all add: a_commit_def)

lemma type_neq [simp]: "WAL_INSERT \<noteq> WAL_COMMIT" "WAL_COMMIT \<noteq> WAL_INSERT"
  by (simp_all add: wal_types)

definition count_redo :: "u32 list \<Rightarrow> walrec \<Rightarrow> u32 list option" where
  "count_redo s r = Some (s @ [rec_txn r])"

theorem wal_log_roundtrip_witness:
  "\<exists>w' f' new. run_ops [LBegin, LWrite 1 WAL_INSERT (lit ''t'') (Some (lit ''1|a'')) 3 0, LCommit 1]
      (Some wal1, log_file []) = Some ([WAL_OK, WAL_OK, WAL_OK], Some w', f') \<and>
     map rec_type (fst (read_all (f'\<lparr>foffset := 0\<rparr>) (replicate 344 9))) = [WAL_BEGIN, WAL_INSERT, WAL_COMMIT] \<and>
     map rec_lsn (fst (read_all (f'\<lparr>foffset := 0\<rparr>) (replicate 344 9))) = [1, 2, 3]"
proof -
  let ?ps = "[LBegin, LWrite 1 WAL_INSERT (lit ''t'') (Some (lit ''1|a'')) 3 0, LCommit 1]"
  have ok: "\<forall>p \<in> set ?ps. op_ok p" using lit_t by auto
  have log: "log_ok (log_file []) []" by (simp add: log_ok_def)
  obtain w' f' new where r: "run_ops ?ps (Some wal1, log_file []) = Some (replicate (length ?ps) WAL_OK, Some w', f')"
    "fst (read_all (f'\<lparr>foffset := 0\<rparr>) (replicate 344 9)) = [] @ new" "list_all2 rec_matches ?ps new"
    "map rec_lsn new = map (\<lambda>i. next_lsn wal1 + of_nat i) [0 ..< length ?ps]"
    using wal_log_roundtrip [OF log ok, of "replicate 344 9" wal1] by (auto simp del: run_ops.simps)
  have "map rec_type new = [WAL_BEGIN, WAL_INSERT, WAL_COMMIT]"
    using r(3) by (auto simp: list_all2_Cons1)
  moreover have "map rec_lsn new = [1, 2, 3]" using r(4) by (simp add: wal1_def upt_rec)
  ultimately show ?thesis using r(1,2) by (intro exI [of _ w'] exI [of _ f']) (simp add: numeral_eq_Suc)
qed

theorem wal_open_torn_tail_witness:
  "\<exists>w f'. wal_open True True (replicate 344 9) (log_file (concat [an_insert 7, a_commit 7] @ [1, 2, 3])) = (Some w, f') \<and>
     3 < next_lsn w \<and> 7 < next_txn w"
proof -
  have neg: "(-1 :: u64) \<noteq> 2" "(-1 :: u64) \<noteq> 3" "(-1 :: u32) \<noteq> 7"
    by (simp_all add: word_eq_iff_unsigned unsigned_minus_1_eq_mask mask_eq_exp_minus_1)
  show ?thesis
    using wal_open_torn_tail [of "log_file (concat [an_insert 7, a_commit 7] @ [1, 2, 3])"
        "[an_insert 7, a_commit 7]" "[1, 2, 3]" "replicate 344 9"] neg by (auto simp: eq_commute)
qed



lemma recover_example:
  "\<exists>f'. wal_recover count_redo (replicate 344 9) (Some wal1) (log_file (concat [an_insert 7, a_commit 7])) [] =
        Some (WAL_OK, Some wal1, f', [7])"
  using recover_run [of "log_file (concat [an_insert 7, a_commit 7])"
      "[an_insert 7, a_commit 7]" "[]" "replicate 344 9" count_redo wal1 "[]"]
  by (simp add: redo_set_def commits_def count_redo_def wal1_def)

theorem wal_recover_idempotent_witness:
  "\<exists>f'. wal_recover count_redo (replicate 344 9) (Some wal1) f' [7] = Some (WAL_OK, Some wal1, f', [7])"
proof -
  obtain f' where r: "wal_recover count_redo (replicate 344 9) (Some wal1)
      (log_file (concat [an_insert 7, a_commit 7])) [] = Some (WAL_OK, Some wal1, f', [7])"
    using recover_example by blast
  show ?thesis
    using wal_recover_idempotent [OF _ _ _ _ _ _ r, of "[an_insert 7, a_commit 7]" "[]"] by auto
qed

theorem wal_recover_commit_overflow_witness:
  "wal_recover count_redo (replicate 344 9) (Some wal1) (log_file (concat (replicate 257 (a_commit 7)))) [] = None"
  by (rule wal_recover_commit_overflow [of _ "replicate 257 (a_commit 7)"])
    (simp_all add: commits_def filter_replicate)

theorem wal_recover_drops_tail_witness:
  "\<exists>f'. wal_recover count_redo (replicate 344 9) (Some wal1)
      (log_file (concat (replicate 1024 (an_insert 5) @ [an_insert 7, a_commit 7]))) [] =
        Some (WAL_OK, Some wal1, f', []) \<and> fcontents f' = []"
proof -
  let ?rs = "replicate 1024 (an_insert 5)"
  have none: "redo_set ?rs = []" by (auto simp: redo_set_def filter_empty_conv)
  have "\<exists>g'. wal_recover count_redo (replicate 344 9) (Some wal1) (log_file (concat ?rs)) [] =
      Some (WAL_OK, Some wal1, g', [])"
    using recover_run [of "log_file (concat ?rs)" ?rs "[]" "replicate 344 9" count_redo wal1 "[]"] none
    by (simp add: commits_def filter_replicate wal1_def)
  then obtain g' where "wal_recover count_redo (replicate 344 9) (Some wal1) (log_file (concat ?rs)) [] =
      Some (WAL_OK, Some wal1, g', [])" by blast
  from wal_recover_drops_tail [OF _ _ _ _ _ _ _ this,
      of "log_file (concat (?rs @ [an_insert 7, a_commit 7]))" ?rs "[an_insert 7, a_commit 7]"]
  show ?thesis by (auto simp del: concat_append)
qed

theorem wal_checksum_vacuous_witness:
  "\<exists>f'. read_record ((log_file (replicate 344 0))\<lparr>foffset := 0\<rparr>) (replicate 344 9) = (WAL_OK, replicate 344 0, f')"
  using wal_checksum_vacuous [of "replicate 344 0" "(log_file (replicate 344 0))\<lparr>foffset := 0\<rparr>" "[]" "[]"
      "replicate 344 9"] by (simp add: bslice_replicate)

theorem wal_checksum_detects_witness:
  "fst (read_record ((log_file ((an_insert 7)[330 := an_insert 7 ! 330 + 1]))\<lparr>foffset := 0\<rparr>) (replicate 344 9)) = WAL_CORRUPT"
  using wal_checksum_detects [of "an_insert 7" 330 "an_insert 7 ! 330 + 1"
      "(log_file ((an_insert 7)[330 := an_insert 7 ! 330 + 1]))\<lparr>foffset := 0\<rparr>" "[]" "[]" "replicate 344 9"]
  by simp

theorem wal_torn_append_witness:
  "\<exists>res w1 f1 res' w2 f2 m.
     wal_write (Some wal1) (\<lparr>fcontents = [], foffset = 0, fsched = [IoShort 100]\<rparr>) 1 WAL_INSERT (lit ''t'')
       (Some (lit ''1|a'')) 3 0 = Some (res, w1, f1) \<and> wal_commit w1 f1 1 = (res', w2, f2) \<and>
     res = WAL_ERROR \<and> res' = WAL_OK \<and>
     fst (read_all (f2\<lparr>foffset := 0\<rparr>) (replicate 344 9)) = [m] \<and> rec_type m = WAL_INSERT"
proof -
  let ?f = "\<lparr>fcontents = [], foffset = 0, fsched = [IoShort 100]\<rparr>"
  obtain r where "data_rec (next_lsn wal1) 1 WAL_INSERT (lit ''t'') (Some (lit ''1|a'')) 3 0 = Some r"
    using data_rec_fields [OF lit_t] by blast
  then have "wal_write (Some wal1) ?f 1 WAL_INSERT (lit ''t'') (Some (lit ''1|a'')) 3 0 \<noteq> None"
    by (simp add: wal_write_def Let_def)
  then obtain res w1 f1 where w: "wal_write (Some wal1) ?f 1 WAL_INSERT (lit ''t'') (Some (lit ''1|a'')) 3 0 = Some (res, w1, f1)"
    by (metis not_Some_eq prod_cases3)
  obtain res' w2 f2 where c: "wal_commit w1 f1 1 = (res', w2, f2)" by (cases "wal_commit w1 f1 1") auto
  show ?thesis
    using wal_torn_append_hides_commit [OF _ _ _ _ _ _ lit_t _ w c, of "[]" 100 "replicate 344 9"] w c
    by auto
qed

end
