(* ===== verification/Lexer.thy ===== *)
theory Lexer imports CString begin

text \<open>
  The lexer of parser/lexer/lexer.c. A \<open>TokenList\<close> is the list of its first \<open>count\<close> tokens;
  the input is a C string.
\<close>

datatype TokenType =
    TOKEN_IDENT | TOKEN_STRING | TOKEN_NUMBER | TOKEN_SELECT | TOKEN_INSERT | TOKEN_UPDATE
  | TOKEN_DELETE | TOKEN_CREATE | TOKEN_DROP | TOKEN_TABLE | TOKEN_INTO | TOKEN_FROM
  | TOKEN_WHERE | TOKEN_SET | TOKEN_VALUES | TOKEN_AND | TOKEN_LPAREN | TOKEN_RPAREN
  | TOKEN_COMMA | TOKEN_STAR | TOKEN_EQUALS | TOKEN_SEMICOLON | TOKEN_EOF | TOKEN_USE
  | TOKEN_BEGIN | TOKEN_COMMIT | TOKEN_UNKNOWN

definition MAX_TOKEN_LEN :: nat where "MAX_TOKEN_LEN = 256"
definition MAX_TOKENS :: nat where "MAX_TOKENS = 128"

lemmas lexer_consts [simp] = MAX_TOKEN_LEN_def MAX_TOKENS_def

record Token =
  tk_type :: TokenType
  tk_value :: cstr

definition ch :: "char \<Rightarrow> u8" where
  "ch c = of_char c"

definition KEYWORDS :: "(cstr \<times> TokenType) list" where
  "KEYWORDS =
     [(lit ''SELECT'', TOKEN_SELECT), (lit ''INSERT'', TOKEN_INSERT), (lit ''UPDATE'', TOKEN_UPDATE),
      (lit ''DELETE'', TOKEN_DELETE), (lit ''CREATE'', TOKEN_CREATE), (lit ''DROP'', TOKEN_DROP),
      (lit ''TABLE'', TOKEN_TABLE), (lit ''INTO'', TOKEN_INTO), (lit ''FROM'', TOKEN_FROM),
      (lit ''WHERE'', TOKEN_WHERE), (lit ''SET'', TOKEN_SET), (lit ''VALUES'', TOKEN_VALUES),
      (lit ''AND'', TOKEN_AND), (lit ''USE'', TOKEN_USE), (lit ''BEGIN'', TOKEN_BEGIN),
      (lit ''COMMIT'', TOKEN_COMMIT)]"

definition classify_word :: "cstr \<Rightarrow> TokenType" where
  "classify_word word =
     (let upper = map c_toupper (take (MAX_TOKEN_LEN - 1) word)
      in case map_of KEYWORDS upper of Some ty \<Rightarrow> ty | None \<Rightarrow> TOKEN_IDENT)"

definition push :: "Token list \<Rightarrow> TokenType \<Rightarrow> cstr \<Rightarrow> Token list" where
  "push out ty value =
     (if length out \<ge> MAX_TOKENS then out
      else out @ [\<lparr>tk_type = ty, tk_value = take (MAX_TOKEN_LEN - 1) value\<rparr>])"

text \<open>
  The inner loops \<open>while (P(*p) && len < MAX_TOKEN_LEN - 1) buf[len++] = *p++\<close>: the run that
  is copied and the rest of the input.
\<close>

fun take_run :: "(u8 \<Rightarrow> bool) \<Rightarrow> nat \<Rightarrow> cstr \<Rightarrow> cstr \<times> cstr" where
  "take_run P 0 s = ([], s)"
| "take_run P (Suc n) [] = ([], [])"
| "take_run P (Suc n) (c # s) =
     (if P c then (case take_run P n s of (run, rest) \<Rightarrow> (c # run, rest)) else ([], c # s))"

definition skip_quote :: "cstr \<Rightarrow> cstr" where
  "skip_quote s = (case s of c # r \<Rightarrow> if c = ch CHR 0x27 then r else s | [] \<Rightarrow> [])"

definition word_char :: "u8 \<Rightarrow> bool" where
  "word_char c \<longleftrightarrow> c_isalnum c \<or> c = ch CHR ''_''"

lemma length_take_run: "length (snd (take_run P n s)) \<le> length s"
  by (induction P n s rule: take_run.induct) (auto split: prod.splits)

lemma length_skip_quote: "length (skip_quote s) \<le> length s"
  by (auto simp: skip_quote_def split: list.splits)

lemma take_run_less: "P c \<Longrightarrow> length (snd (take_run P (Suc n) (c # s))) < Suc (length s)"
  using length_take_run [of P n s] by (auto split: prod.splits)

text \<open>\<open>lexer_tokenize\<close>: the main loop, then the end marker.\<close>

function lex_loop :: "cstr \<Rightarrow> Token list \<Rightarrow> Token list" where
  "lex_loop [] out = out"
| "lex_loop (c # s) out =
     (if c_isspace c then lex_loop s out
      else if c = ch CHR '';'' then lex_loop s (push out TOKEN_SEMICOLON (lit '';''))
      else if c = ch CHR ''('' then lex_loop s (push out TOKEN_LPAREN (lit ''(''))
      else if c = ch CHR '')'' then lex_loop s (push out TOKEN_RPAREN (lit '')''))
      else if c = ch CHR '','' then lex_loop s (push out TOKEN_COMMA (lit '',''))
      else if c = ch CHR ''*'' then lex_loop s (push out TOKEN_STAR (lit ''*''))
      else if c = ch CHR ''='' then lex_loop s (push out TOKEN_EQUALS (lit ''=''))
      else if c = ch CHR 0x27 then
        (let r = take_run (\<lambda>d. d \<noteq> ch CHR 0x27) (MAX_TOKEN_LEN - 1) s
         in lex_loop (skip_quote (snd r)) (push out TOKEN_STRING (fst r)))
      else if c_isdigit c then
        (let r = take_run c_isdigit (MAX_TOKEN_LEN - 1) (c # s)
         in lex_loop (snd r) (push out TOKEN_NUMBER (fst r)))
      else if c_isalpha c \<or> c = ch CHR ''_'' then
        (let r = take_run word_char (MAX_TOKEN_LEN - 1) (c # s)
         in lex_loop (snd r) (push out (classify_word (fst r)) (fst r)))
      else lex_loop s out)"
  by pat_completeness auto
termination
proof (relation "measure (\<lambda>(s, out). length s)", goal_cases)
  case (9 c s out x)
  have "length (skip_quote (snd x)) \<le> length s"
    using length_skip_quote [of "snd x"] length_take_run [of _ _ s] 9 by (meson order_trans)
  then show ?case by simp
next
  case (10 c s out x)
  then show ?case using take_run_less [of c_isdigit c 254 s] by simp
next
  case (11 c s out x)
  then have "word_char c" by (auto simp: word_char_def c_isalnum_def)
  then show ?case using 11 take_run_less [of word_char c 254 s] by simp
qed simp_all

declare lex_loop.simps(2) [simp del]

definition lexer_tokenize :: "cstr \<Rightarrow> Token list" where
  "lexer_tokenize input = push (lex_loop input []) TOKEN_EOF []"

end
