(* ===== verification/Parser.thy ===== *)
theory Parser imports Lexer begin

text \<open>
  The statement parser of parser/parser.c with the \<open>Intent\<close> of common/intent.h. The character
  arrays of an intent are zeroed first and written by one \<open>strncpy\<close> each, so a field of
  \<open>n\<close> bytes holds the first \<open>n - 1\<close> characters of its token; the arrays with a count are the
  lists of their used entries. The loops over a value list and a column list may run for ever:
  then the result is \<open>None\<close>.
\<close>

definition MAX_COLUMNS :: nat where "MAX_COLUMNS = 32"
definition MAX_NAME_LEN :: nat where "MAX_NAME_LEN = 64"
definition MAX_VALUE_LEN :: nat where "MAX_VALUE_LEN = 256"
definition MAX_VALUES :: nat where "MAX_VALUES = 32"

lemmas intent_consts [simp] = MAX_COLUMNS_def MAX_NAME_LEN_def MAX_VALUE_LEN_def MAX_VALUES_def

datatype IntentType =
    INTENT_SELECT | INTENT_INSERT | INTENT_UPDATE | INTENT_DELETE | INTENT_CREATE_TABLE
  | INTENT_DROP_TABLE | INTENT_CREATE_DB | INTENT_USE_DB | INTENT_BEGIN | INTENT_COMMIT
  | INTENT_UNKNOWN

datatype ParseResult = PARSE_OK | PARSE_ERROR

record WhereClause =
  wh_column :: cstr
  wh_value :: cstr
  wh_active :: bool

record ColumnDef =
  cd_name :: cstr
  cd_type :: cstr

record SetClause =
  sc_column :: cstr
  sc_value :: cstr

record Intent =
  it_type :: IntentType
  it_table :: cstr
  it_db_name :: cstr
  it_select_all :: bool
  it_select_cols :: "cstr list"
  it_values :: "cstr list"
  it_set :: SetClause
  it_columns :: "ColumnDef list"
  it_where :: WhereClause

definition name_field :: "cstr \<Rightarrow> cstr" where
  "name_field s = take (MAX_NAME_LEN - 1) s"

definition value_field :: "cstr \<Rightarrow> cstr" where
  "value_field s = take (MAX_VALUE_LEN - 1) s"

definition zero_intent :: Intent where
  "zero_intent =
     \<lparr>it_type = INTENT_UNKNOWN, it_table = [], it_db_name = [], it_select_all = False,
      it_select_cols = [], it_values = [], it_set = \<lparr>sc_column = [], sc_value = []\<rparr>,
      it_columns = [], it_where = \<lparr>wh_column = [], wh_value = [], wh_active = False\<rparr>\<rparr>"

record Parser =
  ps_list :: "Token list"
  ps_pos :: nat

definition current :: "Parser \<Rightarrow> Token" where
  "current p =
     (if ps_pos p < length (ps_list p) then ps_list p ! ps_pos p
      else ps_list p ! (length (ps_list p) - 1))"

definition advance :: "Parser \<Rightarrow> Parser" where
  "advance p =
     (if tk_type (current p) \<noteq> TOKEN_EOF then p\<lparr>ps_pos := ps_pos p + 1\<rparr> else p)"

definition check :: "Parser \<Rightarrow> TokenType \<Rightarrow> bool" where
  "check p ty \<longleftrightarrow> tk_type (current p) = ty"

text \<open>The token (\<open>None\<close> is the null pointer) and the parser behind it.\<close>

definition expect :: "Parser \<Rightarrow> TokenType \<Rightarrow> Token option \<times> Parser" where
  "expect p ty = (if check p ty then (Some (current p), advance p) else (None, p))"

definition is_value :: "Token \<Rightarrow> bool" where
  "is_value t \<longleftrightarrow> tk_type t = TOKEN_NUMBER \<or> tk_type t = TOKEN_STRING \<or> tk_type t = TOKEN_IDENT"

definition parse_where :: "Parser \<Rightarrow> WhereClause \<Rightarrow> Parser \<times> WhereClause" where
  "parse_where p wh =
     (let wh = wh\<lparr>wh_active := False\<rparr> in
      if \<not> check p TOKEN_WHERE then (p, wh)
      else case expect (advance p) TOKEN_IDENT of
        (None, p) \<Rightarrow> (p, wh)
      | (Some col, p) \<Rightarrow>
          let wh = wh\<lparr>wh_column := name_field (tk_value col)\<rparr>;
              p = snd (expect p TOKEN_EQUALS);
              val = current p
          in if is_value val
             then (advance p, wh\<lparr>wh_value := value_field (tk_value val), wh_active := True\<rparr>)
             else (p, wh))"

text \<open>The column list of a \<open>SELECT\<close>; after a token that is no comma the loop is left.\<close>

lemma expect_past_end:
  "check p a \<Longrightarrow> check (advance p) b \<Longrightarrow> a \<noteq> b \<Longrightarrow> ps_pos p < length (ps_list p)"
  by (auto simp: check_def current_def advance_def split: if_splits)

lemma advance_list [simp]: "ps_list (advance p) = ps_list p"
  by (simp add: advance_def)

lemma advance_pos: "tk_type (current p) \<noteq> TOKEN_EOF \<Longrightarrow> ps_pos (advance p) = Suc (ps_pos p)"
  by (simp add: advance_def)

function select_loop :: "Parser \<Rightarrow> cstr list \<Rightarrow> Parser \<times> cstr list" where
  "select_loop p cols =
     (if check p TOKEN_IDENT then
        let col = current p;
            p' = advance p;
            cols = (if length cols < MAX_COLUMNS then cols @ [name_field (tk_value col)] else cols)
        in if \<not> check p' TOKEN_COMMA then (p', cols)
           else select_loop (advance p') cols
      else (p, cols))"
  by pat_completeness auto
termination
proof (relation "measure (\<lambda>(p, cols). length (ps_list p) - ps_pos p)", goal_cases)
  case (2 p cols col p' cols')
  then have "ps_pos p < length (ps_list p)"
    using expect_past_end [of p TOKEN_IDENT TOKEN_COMMA] by simp
  moreover have "ps_pos (advance p') = Suc (Suc (ps_pos p))"
    using 2 by (simp add: check_def advance_pos)
  ultimately show ?case using 2 by simp
qed simp

declare select_loop.simps [simp del]

definition parse_select :: "Parser \<Rightarrow> Intent \<Rightarrow> ParseResult \<times> Intent" where
  "parse_select p it =
     (let it = it\<lparr>it_type := INTENT_SELECT\<rparr>;
          star = check p TOKEN_STAR;
          r = (if star then (advance p, it_select_cols it) else select_loop p (it_select_cols it));
          it = it\<lparr>it_select_all := star, it_select_cols := snd r\<rparr>
      in case expect (fst r) TOKEN_FROM of
           (None, p) \<Rightarrow> (PARSE_ERROR, it)
         | (Some _, p) \<Rightarrow>
             (case expect p TOKEN_IDENT of
                (None, p) \<Rightarrow> (PARSE_ERROR, it)
              | (Some tbl, p) \<Rightarrow>
                  let it = it\<lparr>it_table := name_field (tk_value tbl)\<rparr>
                  in (PARSE_OK, it\<lparr>it_where := snd (parse_where p (it_where it))\<rparr>)))"

text \<open>The value list of an \<open>INSERT\<close>: the loop that is left at a closing parenthesis.\<close>

definition values_step :: "Parser \<Rightarrow> cstr list \<Rightarrow> Parser \<times> cstr list" where
  "values_step p vs =
     (let val = current p;
          r = (if is_value val
               then (advance p, if length vs < MAX_VALUES then vs @ [value_field (tk_value val)] else vs)
               else (p, vs))
      in (if check (fst r) TOKEN_COMMA then advance (fst r) else fst r, snd r))"

partial_function (option) values_loop :: "Parser \<Rightarrow> cstr list \<Rightarrow> (Parser \<times> cstr list) option" where
  "values_loop p vs =
     (if \<not> check p TOKEN_RPAREN \<and> \<not> check p TOKEN_EOF
      then values_loop (fst (values_step p vs)) (snd (values_step p vs))
      else Some (p, vs))"

definition parse_insert :: "Parser \<Rightarrow> Intent \<Rightarrow> (ParseResult \<times> Intent) option" where
  "parse_insert p it =
     (let it = it\<lparr>it_type := INTENT_INSERT\<rparr>
      in case expect p TOKEN_INTO of
           (None, p) \<Rightarrow> Some (PARSE_ERROR, it)
         | (Some _, p) \<Rightarrow>
             (case expect p TOKEN_IDENT of
                (None, p) \<Rightarrow> Some (PARSE_ERROR, it)
              | (Some tbl, p) \<Rightarrow>
                  let it = it\<lparr>it_table := name_field (tk_value tbl)\<rparr>
                  in case expect p TOKEN_VALUES of
                       (None, p) \<Rightarrow> Some (PARSE_ERROR, it)
                     | (Some _, p) \<Rightarrow>
                         (case expect p TOKEN_LPAREN of
                            (None, p) \<Rightarrow> Some (PARSE_ERROR, it)
                          | (Some _, p) \<Rightarrow>
                              (case values_loop p (it_values it) of
                                 None \<Rightarrow> None
                               | Some (p, vs) \<Rightarrow> Some (PARSE_OK, it\<lparr>it_values := vs\<rparr>)))))"

definition parse_update :: "Parser \<Rightarrow> Intent \<Rightarrow> ParseResult \<times> Intent" where
  "parse_update p it =
     (let it = it\<lparr>it_type := INTENT_UPDATE\<rparr>
      in case expect p TOKEN_IDENT of
           (None, p) \<Rightarrow> (PARSE_ERROR, it)
         | (Some tbl, p) \<Rightarrow>
             let it = it\<lparr>it_table := name_field (tk_value tbl)\<rparr>
             in case expect p TOKEN_SET of
                  (None, p) \<Rightarrow> (PARSE_ERROR, it)
                | (Some _, p) \<Rightarrow>
                    (case expect p TOKEN_IDENT of
                       (None, p) \<Rightarrow> (PARSE_ERROR, it)
                     | (Some col, p) \<Rightarrow>
                         let it = it\<lparr>it_set := (it_set it)\<lparr>sc_column := name_field (tk_value col)\<rparr>\<rparr>;
                             p = snd (expect p TOKEN_EQUALS);
                             val = current p;
                             r = (if is_value val
                                  then (advance p, it\<lparr>it_set := (it_set it)\<lparr>sc_value := value_field (tk_value val)\<rparr>\<rparr>)
                                  else (p, it))
                         in (PARSE_OK,
                             (snd r)\<lparr>it_where := snd (parse_where (fst r) (it_where (snd r)))\<rparr>)))"

definition parse_delete :: "Parser \<Rightarrow> Intent \<Rightarrow> ParseResult \<times> Intent" where
  "parse_delete p it =
     (let it = it\<lparr>it_type := INTENT_DELETE\<rparr>
      in case expect p TOKEN_FROM of
           (None, p) \<Rightarrow> (PARSE_ERROR, it)
         | (Some _, p) \<Rightarrow>
             (case expect p TOKEN_IDENT of
                (None, p) \<Rightarrow> (PARSE_ERROR, it)
              | (Some tbl, p) \<Rightarrow>
                  let it = it\<lparr>it_table := name_field (tk_value tbl)\<rparr>
                  in (PARSE_OK, it\<lparr>it_where := snd (parse_where p (it_where it))\<rparr>)))"

text \<open>The column list of a \<open>CREATE TABLE\<close>.\<close>

definition columns_step :: "Parser \<Rightarrow> ColumnDef list \<Rightarrow> Parser \<times> ColumnDef list" where
  "columns_step p cds =
     (case expect p TOKEN_IDENT of
        (col_name, p) \<Rightarrow>
          (case expect p TOKEN_IDENT of
             (col_type, p) \<Rightarrow>
               (if check p TOKEN_COMMA then advance p else p,
                case (col_name, col_type) of
                  (Some cn, Some ct) \<Rightarrow>
                    if length cds < MAX_COLUMNS
                    then cds @ [\<lparr>cd_name = name_field (tk_value cn), cd_type = name_field (tk_value ct)\<rparr>]
                    else cds
                | _ \<Rightarrow> cds)))"

partial_function (option) columns_loop :: "Parser \<Rightarrow> ColumnDef list \<Rightarrow> (Parser \<times> ColumnDef list) option" where
  "columns_loop p cds =
     (if \<not> check p TOKEN_RPAREN \<and> \<not> check p TOKEN_EOF
      then columns_loop (fst (columns_step p cds)) (snd (columns_step p cds))
      else Some (p, cds))"

definition parse_create :: "Parser \<Rightarrow> Intent \<Rightarrow> (ParseResult \<times> Intent) option" where
  "parse_create p it =
     (if check p TOKEN_IDENT \<and> strcasecmp_eq (tk_value (current p)) (lit ''DATABASE'') then
        (let it = it\<lparr>it_type := INTENT_CREATE_DB\<rparr>
         in case expect (advance p) TOKEN_IDENT of
              (None, p) \<Rightarrow> Some (PARSE_ERROR, it)
            | (Some db, p) \<Rightarrow> Some (PARSE_OK, it\<lparr>it_db_name := name_field (tk_value db)\<rparr>))
      else
        (let it = it\<lparr>it_type := INTENT_CREATE_TABLE\<rparr>
         in case expect p TOKEN_TABLE of
              (None, p) \<Rightarrow> Some (PARSE_ERROR, it)
            | (Some _, p) \<Rightarrow>
                (case expect p TOKEN_IDENT of
                   (None, p) \<Rightarrow> Some (PARSE_ERROR, it)
                 | (Some tbl, p) \<Rightarrow>
                     let it = it\<lparr>it_table := name_field (tk_value tbl)\<rparr>
                     in case expect p TOKEN_LPAREN of
                          (None, p) \<Rightarrow> Some (PARSE_ERROR, it)
                        | (Some _, p) \<Rightarrow>
                            (case columns_loop p (it_columns it) of
                               None \<Rightarrow> None
                             | Some (p, cds) \<Rightarrow> Some (PARSE_OK, it\<lparr>it_columns := cds\<rparr>)))))"

definition parse_drop :: "Parser \<Rightarrow> Intent \<Rightarrow> ParseResult \<times> Intent" where
  "parse_drop p it =
     (let it = it\<lparr>it_type := INTENT_DROP_TABLE\<rparr>
      in case expect p TOKEN_TABLE of
           (None, p) \<Rightarrow> (PARSE_ERROR, it)
         | (Some _, p) \<Rightarrow>
             (case expect p TOKEN_IDENT of
                (None, p) \<Rightarrow> (PARSE_ERROR, it)
              | (Some tbl, p) \<Rightarrow> (PARSE_OK, it\<lparr>it_table := name_field (tk_value tbl)\<rparr>)))"

definition parse :: "cstr \<Rightarrow> (ParseResult \<times> Intent) option" where
  "parse sql =
     (let it = zero_intent;
          p = \<lparr>ps_list = lexer_tokenize sql, ps_pos = 0\<rparr>
      in case tk_type (current p) of
           TOKEN_BEGIN \<Rightarrow> Some (PARSE_OK, it\<lparr>it_type := INTENT_BEGIN\<rparr>)
         | TOKEN_COMMIT \<Rightarrow> Some (PARSE_OK, it\<lparr>it_type := INTENT_COMMIT\<rparr>)
         | TOKEN_SELECT \<Rightarrow> Some (parse_select (advance p) it)
         | TOKEN_INSERT \<Rightarrow> parse_insert (advance p) it
         | TOKEN_UPDATE \<Rightarrow> Some (parse_update (advance p) it)
         | TOKEN_DELETE \<Rightarrow> Some (parse_delete (advance p) it)
         | TOKEN_CREATE \<Rightarrow> parse_create (advance p) it
         | TOKEN_DROP \<Rightarrow> Some (parse_drop (advance p) it)
         | TOKEN_USE \<Rightarrow>
             (let it = it\<lparr>it_type := INTENT_USE_DB\<rparr>
              in case expect (advance p) TOKEN_IDENT of
                   (None, p) \<Rightarrow> Some (PARSE_ERROR, it)
                 | (Some db, p) \<Rightarrow> Some (PARSE_OK, it\<lparr>it_db_name := name_field (tk_value db)\<rparr>))
         | _ \<Rightarrow> Some (PARSE_ERROR, it))"

end
