(* ===== verification/LexerProps.thy ===== *)
theory LexerProps imports Lexer begin

text \<open>
  What the lexer guarantees about its output, and that it reads back every list of tokens
  written out with a blank behind each token.
\<close>

definition eof_token :: Token where
  "eof_token = \<lparr>tk_type = TOKEN_EOF, tk_value = []\<rparr>"

definition tokens_ok :: "Token list \<Rightarrow> bool" where
  "tokens_ok ts \<longleftrightarrow>
     length ts \<le> 128 \<and> (\<forall>t \<in> set ts. tk_type t \<noteq> TOKEN_EOF \<and> length (tk_value t) \<le> 255)"

lemma classify_word_types: "classify_word w \<noteq> TOKEN_EOF"
  by (auto simp: classify_word_def Let_def KEYWORDS_def split: option.splits if_splits)

lemma push_ok: "tokens_ok out \<Longrightarrow> ty \<noteq> TOKEN_EOF \<Longrightarrow> tokens_ok (push out ty v)"
  by (auto simp: tokens_ok_def push_def)

lemma ch_simps [simp]:
  "ch CHR '';'' = 59" "ch CHR ''('' = 40" "ch CHR '')'' = 41" "ch CHR '','' = 44"
  "ch CHR ''*'' = 42" "ch CHR ''='' = 61" "ch CHR 0x27 = 39" "ch CHR '' '' = 32" "ch CHR ''_'' = 95"
  by (simp_all add: ch_def)

lemma lit_punct [simp]:
  "lit '';'' = [59]" "lit ''('' = [40]" "lit '')'' = [41]" "lit '','' = [44]" "lit ''*'' = [42]"
  "lit ''='' = [61]"
  by (simp_all add: lit_def)

lemma digit_facts:
  assumes "c_isdigit c"
  shows "\<not> c_isspace c" "c \<noteq> 59" "c \<noteq> 40" "c \<noteq> 41" "c \<noteq> 44" "c \<noteq> 42" "c \<noteq> 61" "c \<noteq> 39"
  using assms by (auto simp: char_class_defs word_le_nat_alt)

lemma alpha_facts:
  assumes "c_isalpha c \<or> c = 95"
  shows "\<not> c_isspace c" "c \<noteq> 59" "c \<noteq> 40" "c \<noteq> 41" "c \<noteq> 44" "c \<noteq> 42" "c \<noteq> 61" "c \<noteq> 39"
    "\<not> c_isdigit c" "word_char c"
  using assms by (auto simp: char_class_defs word_char_def word_le_nat_alt)

text \<open>The branches of the main loop.\<close>

lemma lex_space: "c_isspace c \<Longrightarrow> lex_loop (c # s) out = lex_loop s out"
  by (simp add: lex_loop.simps(2))

lemma lex_quote:
  "lex_loop (39 # s) out =
     lex_loop (skip_quote (snd (take_run (\<lambda>d. d \<noteq> 39) 255 s)))
       (push out TOKEN_STRING (fst (take_run (\<lambda>d. d \<noteq> 39) 255 s)))"
  by (simp add: lex_loop.simps(2) char_class_defs Let_def)

lemma lex_digits:
  "c_isdigit c \<Longrightarrow> lex_loop (c # s) out =
     lex_loop (snd (take_run c_isdigit 255 (c # s))) (push out TOKEN_NUMBER (fst (take_run c_isdigit 255 (c # s))))"
  using digit_facts [of c] by (subst lex_loop.simps(2)) (simp add: Let_def)

lemma lex_word:
  "c_isalpha c \<or> c = 95 \<Longrightarrow> lex_loop (c # s) out =
     (let r = take_run word_char 255 (c # s)
      in lex_loop (snd r) (push out (classify_word (fst r)) (fst r)))"
  using alpha_facts [of c] by (subst lex_loop.simps(2)) (simp add: Let_def)

lemma lex_punct:
  "lex_loop (59 # s) out = lex_loop s (push out TOKEN_SEMICOLON [59])"
  "lex_loop (40 # s) out = lex_loop s (push out TOKEN_LPAREN [40])"
  "lex_loop (41 # s) out = lex_loop s (push out TOKEN_RPAREN [41])"
  "lex_loop (44 # s) out = lex_loop s (push out TOKEN_COMMA [44])"
  "lex_loop (42 # s) out = lex_loop s (push out TOKEN_STAR [42])"
  "lex_loop (61 # s) out = lex_loop s (push out TOKEN_EQUALS [61])"
  by (simp_all add: lex_loop.simps(2) char_class_defs)

lemma lex_other:
  assumes "\<not> c_isspace c" "c \<noteq> 39" "\<not> c_isdigit c" "\<not> (c_isalpha c \<or> c = 95)"
  shows "lex_loop (c # s) out = lex_loop s out \<or>
         (\<exists>ty v. ty \<noteq> TOKEN_EOF \<and> lex_loop (c # s) out = lex_loop s (push out ty v))"
  using assms by (auto simp: lex_loop.simps(2))

lemma lex_step:
  "lex_loop (c # s) out = lex_loop s out \<or>
   (\<exists>ty v s'. ty \<noteq> TOKEN_EOF \<and> length s' \<le> length s \<and> lex_loop (c # s) out = lex_loop s' (push out ty v))"
proof -
  consider "c_isspace c" | (q) "c = 39" | (d) "c_isdigit c" | (w) "c_isalpha c \<or> c = 95"
    | (o) "\<not> c_isspace c" "c \<noteq> 39" "\<not> c_isdigit c" "\<not> (c_isalpha c \<or> c = 95)" by blast
  then show ?thesis
  proof cases
    case q
    let ?r = "take_run (\<lambda>d. d \<noteq> 39) 255 s"
    have "length (skip_quote (snd ?r)) \<le> length s"
      using length_skip_quote [of "snd ?r"] length_take_run [of "\<lambda>d. d \<noteq> 39" 255 s] by (rule le_trans)
    then show ?thesis using lex_quote [of s out] q by blast
  next
    case d
    then have "length (snd (take_run c_isdigit 255 (c # s))) \<le> length s"
      using take_run_less [of c_isdigit c 254 s] by simp
    then show ?thesis using lex_digits [OF d, of s out] by blast
  next
    case w
    then have "length (snd (take_run word_char 255 (c # s))) \<le> length s"
      using take_run_less [of word_char c 254 s] alpha_facts(10) [of c] by simp
    then show ?thesis using lex_word [OF w, of s out] classify_word_types unfolding Let_def by blast
  next
    case o
    then show ?thesis using lex_other [OF o, of s out] by blast
  qed (simp add: lex_space)
qed

lemma lex_loop_ok: "tokens_ok out \<Longrightarrow> tokens_ok (lex_loop s out)"
proof (induction s arbitrary: out rule: measure_induct_rule [of length])
  case (less s)
  show ?case
  proof (cases s)
    case (Cons c r)
    from lex_step [of c r out] show ?thesis
    proof (elim disjE exE conjE)
      assume "lex_loop (c # r) out = lex_loop r out"
      then show ?thesis using less.IH [of r out] less.prems Cons by simp
    next
      fix ty v s' assume st: "ty \<noteq> TOKEN_EOF" "length s' \<le> length r"
        "lex_loop (c # r) out = lex_loop s' (push out ty v)"
      have "tokens_ok (lex_loop s' (push out ty v))"
        using less.IH [of s', OF _ push_ok [OF less.prems st(1)]] st(2) Cons by simp
      then show ?thesis using st(3) Cons by simp
    qed
  qed (use less.prems in simp)
qed

text \<open>
  The token list never overflows: it has between 1 and 128 tokens, every value fits its
  array, and an end marker can only be the last token. The end marker is there exactly when
  fewer than 128 tokens came before it; a longer statement has none.
\<close>

theorem lexer_bounds:
  "let ts = lexer_tokenize s in
     0 < length ts \<and> length ts \<le> MAX_TOKENS \<and>
     (\<forall>t \<in> set ts. length (tk_value t) < MAX_TOKEN_LEN) \<and>
     (\<forall>t \<in> set (butlast ts). tk_type t \<noteq> TOKEN_EOF) \<and>
     (tk_type (last ts) = TOKEN_EOF \<longleftrightarrow> length (lex_loop s []) < MAX_TOKENS)"
proof -
  have ok: "tokens_ok (lex_loop s [])" by (rule lex_loop_ok) (simp add: tokens_ok_def)
  show ?thesis
  proof (cases "length (lex_loop s []) < 128")
    case True
    then have "lexer_tokenize s = lex_loop s [] @ [eof_token]"
      by (simp add: lexer_tokenize_def push_def eof_token_def)
    then show ?thesis using True ok by (auto simp: tokens_ok_def Let_def eof_token_def less_Suc_eq_le)
  next
    case False
    then have "lexer_tokenize s = lex_loop s []" "lex_loop s [] \<noteq> []"
      by (auto simp: lexer_tokenize_def push_def)
    moreover have "tk_type (last (lex_loop s [])) \<noteq> TOKEN_EOF"
      using ok last_in_set [OF calculation(2)] by (simp add: tokens_ok_def)
    ultimately show ?thesis
      using False ok by (auto simp: tokens_ok_def Let_def less_Suc_eq_le dest: in_set_butlastD)
  qed
qed

theorem lexer_bounds_witness:
  "length (lexer_tokenize (lit ''select;'')) \<le> MAX_TOKENS"
  using lexer_bounds [of "lit ''select;''"] by (simp add: Let_def)

text \<open>Writing tokens out.\<close>

definition tok_text :: "Token \<Rightarrow> cstr" where
  "tok_text t =
     (if tk_type t = TOKEN_STRING then ch CHR 0x27 # tk_value t @ [ch CHR 0x27] else tk_value t)"

definition render :: "Token list \<Rightarrow> cstr" where
  "render ts = concat (map (\<lambda>t. tok_text t @ [ch CHR '' '']) ts)"

definition punct :: "(TokenType \<times> cstr) list" where
  "punct =
     [(TOKEN_SEMICOLON, lit '';''), (TOKEN_LPAREN, lit ''(''), (TOKEN_RPAREN, lit '')''),
      (TOKEN_COMMA, lit '',''), (TOKEN_STAR, lit ''*''), (TOKEN_EQUALS, lit ''='')]"

definition word_ok :: "cstr \<Rightarrow> bool" where
  "word_ok w \<longleftrightarrow>
     (\<exists>c r. w = c # r \<and> (c_isalpha c \<or> c = ch CHR ''_'') \<and> (\<forall>d \<in> set r. word_char d)) \<and> length w \<le> 255"

definition token_ok :: "Token \<Rightarrow> bool" where
  "token_ok t \<longleftrightarrow>
     (case tk_type t of
        TOKEN_STRING \<Rightarrow> ch CHR 0x27 \<notin> set (tk_value t) \<and> length (tk_value t) \<le> 255
      | TOKEN_NUMBER \<Rightarrow> tk_value t \<noteq> [] \<and> (\<forall>d \<in> set (tk_value t). c_isdigit d) \<and> length (tk_value t) \<le> 255
      | ty \<Rightarrow> (ty, tk_value t) \<in> set punct \<or>
              word_ok (tk_value t) \<and> classify_word (tk_value t) = ty)"

lemma take_run_whole:
  assumes "\<forall>c \<in> set run. P c" and "length run \<le> n" and "rest \<noteq> [] \<Longrightarrow> \<not> P (hd rest)"
  shows "take_run P n (run @ rest) = (run, rest)"
  using assms
proof (induction run arbitrary: n)
  case Nil
  then show ?case by (cases n; cases rest) auto
next
  case (Cons c run)
  then obtain k where "n = Suc k" by (cases n) auto
  then show ?case using Cons by simp
qed

lemma blank_facts:
  "c_isspace 32" "\<not> word_char 32" "\<not> c_isdigit 32"
  by (simp_all add: char_class_defs word_char_def)

lemma lex_blank: "lex_loop (32 # s) out = lex_loop s out"
  by (simp add: lex_space blank_facts)

lemma lex_token:
  assumes "token_ok t"
  shows "lex_loop (tok_text t @ 32 # s) out = lex_loop s (push out (tk_type t) (tk_value t))"
proof -
  consider (str) "tk_type t = TOKEN_STRING" | (num) "tk_type t = TOKEN_NUMBER"
    | (pun) "(tk_type t, tk_value t) \<in> set punct"
    | (wrd) "word_ok (tk_value t)" "classify_word (tk_value t) = tk_type t"
      "tk_type t \<noteq> TOKEN_STRING" "tk_type t \<noteq> TOKEN_NUMBER"
    using assms by (auto simp: token_ok_def split: TokenType.splits)
  then show ?thesis
  proof cases
    case str
    have "take_run (\<lambda>d. d \<noteq> 39) 255 (tk_value t @ 39 # 32 # s) = (tk_value t, 39 # 32 # s)"
      using assms str by (intro take_run_whole) (auto simp: token_ok_def)
    then show ?thesis
      by (simp add: tok_text_def str lex_quote skip_quote_def lex_blank)
  next
    case num
    then obtain c r where v: "tk_value t = c # r" "c_isdigit c" "\<forall>d \<in> set (tk_value t). c_isdigit d"
        "length (tk_value t) \<le> 255"
      using assms by (cases "tk_value t") (auto simp: token_ok_def)
    have "take_run c_isdigit 255 (tk_value t @ 32 # s) = (tk_value t, 32 # s)"
      using v by (intro take_run_whole) (auto simp: blank_facts)
    then show ?thesis
      using lex_digits [OF v(2), of "r @ 32 # s" out] v(1) num by (simp add: tok_text_def lex_blank)
  next
    case pun
    then show ?thesis
      by (auto simp: punct_def tok_text_def lex_punct lex_blank)
  next
    case wrd
    then obtain c r where v: "tk_value t = c # r" "c_isalpha c \<or> c = 95" "\<forall>d \<in> set r. word_char d"
        "length (tk_value t) \<le> 255"
      by (auto simp: word_ok_def)
    have "take_run word_char 255 (tk_value t @ 32 # s) = (tk_value t, 32 # s)"
      using v alpha_facts(10) [OF v(2)] by (intro take_run_whole) (auto simp: blank_facts)
    then show ?thesis
      using lex_word [OF v(2), of "r @ 32 # s" out] v(1) wrd by (simp add: tok_text_def lex_blank Let_def)
  qed
qed

lemma push_room: "length out < 128 \<Longrightarrow> length (tk_value t) \<le> 255 \<Longrightarrow> push out (tk_type t) (tk_value t) = out @ [t]"
  by (simp add: push_def)

lemma token_ok_length: "token_ok t \<Longrightarrow> length (tk_value t) \<le> 255"
  by (auto simp: token_ok_def punct_def word_ok_def split: TokenType.splits)

lemma lex_render:
  assumes "\<forall>t \<in> set ts. token_ok t" and "length out + length ts < 128"
  shows "lex_loop (render ts) out = out @ ts"
  using assms
proof (induction ts arbitrary: out)
  case Nil
  then show ?case by (simp add: render_def)
next
  case (Cons t ts)
  have "lex_loop (render (t # ts)) out = lex_loop (render ts) (push out (tk_type t) (tk_value t))"
    using lex_token [of t "render ts" out] Cons.prems by (simp add: render_def)
  also have "\<dots> = out @ t # ts"
    using Cons.IH [of "out @ [t]"] Cons.prems push_room [of out t] token_ok_length [of t] by simp
  finally show ?case .
qed

lemma lexer_reads:
  assumes "\<forall>t \<in> set ts. token_ok t" and "length ts < MAX_TOKENS"
  shows "lexer_tokenize (render ts) = ts @ [eof_token]"
  using assms lex_render [of ts "[]"] by (simp add: lexer_tokenize_def push_def eof_token_def)

text \<open>
  C28: the lexer reads back what is written: fewer than 128 tokens, printed with a blank
  behind each, strings in quotes, come back as exactly these tokens and the end marker.
\<close>

theorem lexer_roundtrip:
  assumes "\<forall>t \<in> set ts. token_ok t" and "length ts < MAX_TOKENS"
  shows "lexer_tokenize (render ts) = ts @ [eof_token]"
  using assms by (rule lexer_reads)

theorem lexer_roundtrip_witness:
  "lexer_tokenize (render
     [\<lparr>tk_type = TOKEN_SELECT, tk_value = lit ''select''\<rparr>, \<lparr>tk_type = TOKEN_STAR, tk_value = lit ''*''\<rparr>,
      \<lparr>tk_type = TOKEN_STRING, tk_value = lit ''a b''\<rparr>, \<lparr>tk_type = TOKEN_NUMBER, tk_value = lit ''42''\<rparr>]) =
     [\<lparr>tk_type = TOKEN_SELECT, tk_value = lit ''select''\<rparr>, \<lparr>tk_type = TOKEN_STAR, tk_value = lit ''*''\<rparr>,
      \<lparr>tk_type = TOKEN_STRING, tk_value = lit ''a b''\<rparr>, \<lparr>tk_type = TOKEN_NUMBER, tk_value = lit ''42''\<rparr>, eof_token]"
  using lexer_roundtrip [of "[\<lparr>tk_type = TOKEN_SELECT, tk_value = lit ''select''\<rparr>,
      \<lparr>tk_type = TOKEN_STAR, tk_value = lit ''*''\<rparr>, \<lparr>tk_type = TOKEN_STRING, tk_value = lit ''a b''\<rparr>,
      \<lparr>tk_type = TOKEN_NUMBER, tk_value = lit ''42''\<rparr>]"]
  by (simp add: token_ok_def word_ok_def punct_def classify_word_def KEYWORDS_def lit_def
      char_class_defs word_char_def c_toupper_def)

end
