(* ===== verification/ParserProps.thy ===== *)
theory ParserProps imports Parser LexerProps begin

text \<open>
  The parser reads back every statement that is written out, and its two list loops return
  exactly when the run of list tokens ends at a closing parenthesis or at the end marker.
\<close>

text \<open>The tokens that are left: never none, the last one is the end marker.\<close>

definition rests :: "Parser \<Rightarrow> Token list \<Rightarrow> bool" where
  "rests p ts \<longleftrightarrow> drop (ps_pos p) (ps_list p) = ts \<and> ts \<noteq> [] \<and> tk_type (last ts) = TOKEN_EOF"

lemma rests_current: "rests p (t # ts) \<Longrightarrow> current p = t"
  by (auto simp: rests_def current_def dest: nth_via_drop intro: ccontr)

lemma rests_advance: "rests p (t # ts) \<Longrightarrow> tk_type t \<noteq> TOKEN_EOF \<Longrightarrow> rests (advance p) ts"
  using rests_current [of p t ts] unfolding rests_def
  by (auto simp: advance_def tl_drop [symmetric] drop_Suc drop_tl split: if_splits)

lemma rests_check: "rests p (t # ts) \<Longrightarrow> check p ty \<longleftrightarrow> tk_type t = ty"
  by (simp add: check_def rests_current)

lemma rests_cons: "rests p ts \<Longrightarrow> \<exists>t u. ts = t # u"
  by (cases ts) (auto simp: rests_def)

lemma rests_next: "rests p (t # ts) \<Longrightarrow> tk_type t \<noteq> TOKEN_EOF \<Longrightarrow> \<exists>u us. ts = u # us"
  using rests_advance rests_cons by blast

definition at_stop :: "Token list \<Rightarrow> bool" where
  "at_stop ts \<longleftrightarrow> tk_type (hd ts) = TOKEN_RPAREN \<or> tk_type (hd ts) = TOKEN_EOF"

text \<open>
  The contract of the two loops: they stop at a closing parenthesis or the end marker, a step
  at a token of the list goes ahead inside the list, a step at any other token goes nowhere.
\<close>

locale token_loop =
  fixes loop :: "Parser \<Rightarrow> 'a list \<Rightarrow> (Parser \<times> 'a list) option"
    and step :: "Parser \<Rightarrow> 'a list \<Rightarrow> Parser \<times> 'a list"
    and inside :: "Token \<Rightarrow> bool"
  assumes unfold: "loop p acc =
      (if \<not> check p TOKEN_RPAREN \<and> \<not> check p TOKEN_EOF then loop (fst (step p acc)) (snd (step p acc))
       else Some (p, acc))"
    and induct: "loop p acc = Some r \<Longrightarrow>
      (\<And>p acc. \<not> check p TOKEN_RPAREN \<Longrightarrow> \<not> check p TOKEN_EOF \<Longrightarrow> P (fst (step p acc)) \<Longrightarrow> P p) \<Longrightarrow>
      (\<And>p. check p TOKEN_RPAREN \<or> check p TOKEN_EOF \<Longrightarrow> P p) \<Longrightarrow> P p"
    and ahead: "rests p (t # ts) \<Longrightarrow> inside t \<Longrightarrow>
      \<exists>k. rests (fst (step p acc)) (drop k ts) \<and> (\<forall>u \<in> set (take k ts). inside u)"
    and stuck: "rests p (t # ts) \<Longrightarrow> \<not> inside t \<Longrightarrow> \<not> at_stop (t # ts) \<Longrightarrow> fst (step p acc) = p"
    and not_end: "inside t \<Longrightarrow> tk_type t \<noteq> TOKEN_RPAREN \<and> tk_type t \<noteq> TOKEN_EOF"
begin

lemma dropWhile_ahead:
  assumes "\<forall>u \<in> set (take k ts). inside u"
  shows "dropWhile inside (drop k ts) = dropWhile inside ts"
proof -
  have "dropWhile inside (take k ts @ drop k ts) = dropWhile inside (drop k ts)"
    using assms by (intro dropWhile_append2) auto
  then show ?thesis by simp
qed

lemma returns:
  assumes "rests p ts" and "at_stop (dropWhile inside ts)"
  shows "\<exists>r. loop p acc = Some r"
  using assms
proof (induction "length ts" arbitrary: p ts acc rule: less_induct)
  case less
  obtain t us where ts: "ts = t # us" using rests_cons [OF less.prems(1)] by auto
  show ?case
  proof (cases "inside t")
    case True
    obtain k where k: "rests (fst (step p acc)) (drop k us)" "\<forall>u \<in> set (take k us). inside u"
      using ahead [of p t us acc] less.prems(1) ts True by blast
    have "\<exists>r. loop (fst (step p acc)) (snd (step p acc)) = Some r"
    proof (rule less.hyps [OF _ k(1)])
      show "length (drop k us) < length ts" by (simp add: ts)
      show "at_stop (dropWhile inside (drop k us))"
        using less.prems(2) True by (simp add: ts dropWhile_ahead [OF k(2)])
    qed
    then show ?thesis by (subst unfold) simp
  next
    case False
    then have "check p TOKEN_RPAREN \<or> check p TOKEN_EOF"
      using less.prems by (simp add: ts rests_check at_stop_def)
    then show ?thesis by (subst unfold) auto
  qed
qed

lemma stops_where_it_returns:
  assumes "loop p acc = Some r"
  shows "rests p ts \<longrightarrow> at_stop (dropWhile inside ts)"
proof -
  have "\<forall>ts. rests p ts \<longrightarrow> at_stop (dropWhile inside ts)"
  proof (rule induct [OF assms]; intro allI impI)
    fix p acc ts
    assume nr: "\<not> check p TOKEN_RPAREN" "\<not> check p TOKEN_EOF"
      and ih: "\<forall>ts. rests (fst (step p acc)) ts \<longrightarrow> at_stop (dropWhile inside ts)"
      and p: "rests p ts"
    obtain t us where ts: "ts = t # us" using rests_cons [OF p] by auto
    show "at_stop (dropWhile inside ts)"
    proof (cases "inside t")
      case True
      obtain k where k: "rests (fst (step p acc)) (drop k us)" "\<forall>u \<in> set (take k us). inside u"
        using ahead [of p t us acc] p ts True by blast
      then have "at_stop (dropWhile inside (drop k us))" using ih by blast
      then show ?thesis using True by (simp add: ts dropWhile_ahead [OF k(2)])
    next
      case False
      have "\<not> at_stop (t # us)" using nr p by (simp add: ts rests_check at_stop_def)
      then have "fst (step p acc) = p" using stuck p ts False by blast
      then show ?thesis using ih p by auto
    qed
  next
    fix p ts assume "check p TOKEN_RPAREN \<or> check p TOKEN_EOF" and p: "rests p ts"
    moreover obtain t us where ts: "ts = t # us" using rests_cons [OF p] by auto
    ultimately have "tk_type t = TOKEN_RPAREN \<or> tk_type t = TOKEN_EOF" by (simp add: rests_check)
    moreover from this have "\<not> inside t" using not_end by blast
    ultimately show "at_stop (dropWhile inside ts)" by (simp add: ts at_stop_def)
  qed
  then show ?thesis by blast
qed

lemma returns_iff:
  "rests p ts \<Longrightarrow> loop p acc \<noteq> None \<longleftrightarrow> at_stop (dropWhile inside ts)"
  using returns stops_where_it_returns by (metis not_None_eq)

end

text \<open>The value list.\<close>

definition in_values :: "Token \<Rightarrow> bool" where
  "in_values t \<longleftrightarrow> is_value t \<or> tk_type t = TOKEN_COMMA"

lemma value_not: "is_value t \<Longrightarrow> tk_type t \<noteq> TOKEN_EOF \<and> tk_type t \<noteq> TOKEN_COMMA \<and> tk_type t \<noteq> TOKEN_RPAREN"
  by (auto simp: is_value_def)

lemma values_step_value:
  assumes "rests p (t # u # ts)" and "is_value t"
  shows "rests (fst (values_step p vs)) (if tk_type u = TOKEN_COMMA then ts else u # ts) \<and>
         snd (values_step p vs) =
           (if length vs < MAX_VALUES then vs @ [value_field (tk_value t)] else vs)"
proof -
  have a: "rests (advance p) (u # ts)" using rests_advance [OF assms(1)] value_not [OF assms(2)] by simp
  show ?thesis
    using assms(2) rests_current [OF assms(1)] rests_check [OF a] a rests_advance [OF a]
    by (auto simp: values_step_def Let_def)
qed

lemma values_step_other:
  assumes "rests p (t # ts)" and "\<not> is_value t"
  shows "fst (values_step p vs) = (if tk_type t = TOKEN_COMMA then advance p else p)"
  using assms rests_current [OF assms(1)] rests_check [OF assms(1)] by (simp add: values_step_def)

lemma values_ahead:
  assumes p: "rests p (t # ts)" and t: "in_values t"
  shows "\<exists>k. rests (fst (values_step p vs)) (drop k ts) \<and> (\<forall>u \<in> set (take k ts). in_values u)"
proof (cases "is_value t")
  case True
  obtain u us where ts: "ts = u # us" using rests_next [OF p] value_not [OF True] by blast
  show ?thesis
    using values_step_value [of p t u us vs] p True
    by (cases "tk_type u = TOKEN_COMMA") (force simp: ts in_values_def intro: exI [of _ 0] exI [of _ 1])+
next
  case False
  then show ?thesis
    using values_step_other [OF p] rests_advance [OF p] t by (auto simp: in_values_def intro!: exI [of _ 0])
qed

lemma values_loop_induct:
  assumes "values_loop p vs = Some r"
    and "\<And>p vs. \<not> check p TOKEN_RPAREN \<Longrightarrow> \<not> check p TOKEN_EOF \<Longrightarrow> P (fst (values_step p vs)) \<Longrightarrow> P p"
    and "\<And>p. check p TOKEN_RPAREN \<or> check p TOKEN_EOF \<Longrightarrow> P p"
  shows "P p"
  using assms(1)
proof (rule values_loop.raw_induct [rotated])
  fix loop p vs r
  assume "\<And>p vs r. loop p vs = Some r \<Longrightarrow> P p"
    and "(if \<not> check p TOKEN_RPAREN \<and> \<not> check p TOKEN_EOF
          then loop (fst (values_step p vs)) (snd (values_step p vs)) else Some (p, vs)) = Some r"
  then show "P p" using assms(2,3) by (metis option.inject)
qed

interpretation vl: token_loop values_loop values_step in_values
proof (unfold_locales, goal_cases)
  case (2 p acc r P) then show ?case by (rule values_loop_induct)
next
  case (3 p t ts acc) then show ?case by (rule values_ahead)
next
  case (4 p t ts acc) then show ?case using values_step_other [of p t ts] by (simp add: in_values_def)
next
  case (5 t) then show ?case using value_not by (auto simp: in_values_def)
qed (rule values_loop.simps)

text \<open>The column list.\<close>

definition in_columns :: "Token \<Rightarrow> bool" where
  "in_columns t \<longleftrightarrow> tk_type t = TOKEN_IDENT \<or> tk_type t = TOKEN_COMMA"

lemma rests_expect:
  "rests p (t # ts) \<Longrightarrow> expect p ty = (if tk_type t = ty then (Some t, advance p) else (None, p))"
  by (simp add: expect_def rests_check rests_current)

lemma skip_comma:
  assumes "rests p (u # us)"
  shows "rests (if check p TOKEN_COMMA then advance p else p)
           (if tk_type u = TOKEN_COMMA then us else u # us)"
  using assms rests_advance [OF assms] by (simp add: rests_check [OF assms])

lemma columns_ahead:
  assumes p: "rests p (t # ts)" and t: "in_columns t"
  shows "\<exists>k. rests (fst (columns_step p cds)) (drop k ts) \<and> (\<forall>u \<in> set (take k ts). in_columns u)"
proof (cases "tk_type t = TOKEN_IDENT")
  case True
  then have a: "rests (advance p) ts" using rests_advance [OF p] by simp
  obtain u us where ts: "ts = u # us" using rests_cons [OF a] by auto
  show ?thesis
  proof (cases "tk_type u = TOKEN_IDENT")
    case True': True
    have b: "rests (advance (advance p)) us" using rests_advance [OF a [unfolded ts]] True' by simp
    obtain w ws where us: "us = w # ws" using rests_cons [OF b] by auto
    have "rests (fst (columns_step p cds)) (if tk_type w = TOKEN_COMMA then ws else w # ws)"
      using skip_comma [OF b [unfolded us]] True True' rests_expect [OF p] rests_expect [OF a [unfolded ts]]
      by (simp add: columns_step_def)
    then show ?thesis
      using True' by (cases "tk_type w = TOKEN_COMMA")
        (force simp: ts us in_columns_def intro: exI [of _ 1] exI [of _ 2])+
  next
    case False
    have "rests (fst (columns_step p cds)) (if tk_type u = TOKEN_COMMA then us else u # us)"
      using skip_comma [OF a [unfolded ts]] True False rests_expect [OF p] rests_expect [OF a [unfolded ts]]
      by (simp add: columns_step_def)
    then show ?thesis
      by (cases "tk_type u = TOKEN_COMMA") (force simp: ts in_columns_def intro: exI [of _ 0] exI [of _ 1])+
  qed
next
  case False
  then have "fst (columns_step p cds) = advance p"
    using t rests_expect [OF p] rests_check [OF p] by (simp add: columns_step_def in_columns_def)
  then show ?thesis
    using rests_advance [OF p] False t by (auto simp: in_columns_def intro!: exI [of _ 0])
qed

lemma columns_loop_induct:
  assumes "columns_loop p cds = Some r"
    and "\<And>p cds. \<not> check p TOKEN_RPAREN \<Longrightarrow> \<not> check p TOKEN_EOF \<Longrightarrow> P (fst (columns_step p cds)) \<Longrightarrow> P p"
    and "\<And>p. check p TOKEN_RPAREN \<or> check p TOKEN_EOF \<Longrightarrow> P p"
  shows "P p"
  using assms(1)
proof (rule columns_loop.raw_induct [rotated])
  fix loop p cds r
  assume "\<And>p cds r. loop p cds = Some r \<Longrightarrow> P p"
    and "(if \<not> check p TOKEN_RPAREN \<and> \<not> check p TOKEN_EOF
          then loop (fst (columns_step p cds)) (snd (columns_step p cds)) else Some (p, cds)) = Some r"
  then show "P p" using assms(2,3) by (metis option.inject)
qed

interpretation cl: token_loop columns_loop columns_step in_columns
proof (unfold_locales, goal_cases)
  case (2 p acc r P) then show ?case by (rule columns_loop_induct)
next
  case (3 p t ts acc) then show ?case by (rule columns_ahead)
next
  case (4 p t ts acc)
  then show ?case using rests_expect [of p t ts] rests_check [of p t ts]
    by (simp add: in_columns_def columns_step_def)
next
  case (5 t) then show ?case by (auto simp: in_columns_def)
qed (rule columns_loop.simps)

text \<open>Statements written out as tokens.\<close>

definition tok :: "TokenType \<Rightarrow> string \<Rightarrow> Token" where
  "tok ty s = \<lparr>tk_type = ty, tk_value = lit s\<rparr>"

definition ident :: "cstr \<Rightarrow> Token" where
  "ident s = \<lparr>tk_type = TOKEN_IDENT, tk_value = s\<rparr>"

lemma tok_type [simp]: "tk_type (tok ty s) = ty"
  by (simp add: tok_def)

lemma ident_fields [simp]: "tk_type (ident s) = TOKEN_IDENT" "tk_value (ident s) = s"
  by (simp_all add: ident_def)

lemma eof_token_type [simp]: "tk_type eof_token = TOKEN_EOF"
  by (simp add: eof_token_def)

definition name_ok :: "cstr \<Rightarrow> bool" where
  "name_ok s \<longleftrightarrow> token_ok (ident s) \<and> length s < MAX_NAME_LEN"

lemma name_ok_field: "name_ok s \<Longrightarrow> name_field s = s"
  by (simp add: name_ok_def name_field_def)

definition value_ok :: "Token \<Rightarrow> bool" where
  "value_ok t \<longleftrightarrow> token_ok t \<and> is_value t"

lemma value_ok_field: "value_ok t \<Longrightarrow> value_field (tk_value t) = tk_value t"
  using token_ok_length by (simp add: value_ok_def value_field_def)

lemma parse_tokens:
  assumes "\<forall>t \<in> set ts. token_ok t" and "length ts < MAX_TOKENS"
  shows "rests \<lparr>ps_list = lexer_tokenize (render ts), ps_pos = 0\<rparr> (ts @ [eof_token])"
  using lexer_reads [OF assms] by (simp add: rests_def)

definition insert_head :: "cstr \<Rightarrow> Token list" where
  "insert_head table =
     [tok TOKEN_INSERT ''INSERT'', tok TOKEN_INTO ''INTO'', ident table, tok TOKEN_VALUES ''VALUES'',
      tok TOKEN_LPAREN ''('']"

definition create_head :: "cstr \<Rightarrow> Token list" where
  "create_head table =
     [tok TOKEN_CREATE ''CREATE'', tok TOKEN_TABLE ''TABLE'', ident table, tok TOKEN_LPAREN ''('']"

lemma keyword_tokens_ok [simp]:
  "token_ok (tok TOKEN_SELECT ''SELECT'')" "token_ok (tok TOKEN_INSERT ''INSERT'')"
  "token_ok (tok TOKEN_UPDATE ''UPDATE'')" "token_ok (tok TOKEN_DELETE ''DELETE'')"
  "token_ok (tok TOKEN_CREATE ''CREATE'')" "token_ok (tok TOKEN_DROP ''DROP'')"
  "token_ok (tok TOKEN_TABLE ''TABLE'')" "token_ok (tok TOKEN_INTO ''INTO'')"
  "token_ok (tok TOKEN_FROM ''FROM'')" "token_ok (tok TOKEN_WHERE ''WHERE'')"
  "token_ok (tok TOKEN_SET ''SET'')" "token_ok (tok TOKEN_VALUES ''VALUES'')"
  "token_ok (tok TOKEN_USE ''USE'')" "token_ok (tok TOKEN_BEGIN ''BEGIN'')"
  "token_ok (tok TOKEN_COMMIT ''COMMIT'')" "token_ok (ident (lit ''DATABASE''))"
  "token_ok (tok TOKEN_LPAREN ''('')" "token_ok (tok TOKEN_RPAREN '')'')"
  "token_ok (tok TOKEN_COMMA '','')" "token_ok (tok TOKEN_STAR ''*'')" "token_ok (tok TOKEN_EQUALS ''='')"
  by (simp_all add: token_ok_def tok_def ident_def word_ok_def punct_def classify_word_def KEYWORDS_def
      lit_def char_class_defs word_char_def c_toupper_def)

lemma parse_insert_values:
  assumes "rests p (insert_head table @ ts)"
  shows "\<exists>q. rests q ts \<and> parse_insert (advance p) zero_intent =
           map_option (\<lambda>(_, vs). (PARSE_OK, zero_intent\<lparr>it_type := INTENT_INSERT,
             it_table := name_field table, it_values := vs\<rparr>)) (values_loop q [])"
proof -
  let ?q = "advance (advance (advance (advance (advance p))))"
  have "rests ?q ts"
    using assms by (auto simp: insert_head_def intro!: rests_advance)
  moreover have "parse_insert (advance p) zero_intent =
      map_option (\<lambda>(_, vs). (PARSE_OK, zero_intent\<lparr>it_type := INTENT_INSERT,
        it_table := name_field table, it_values := vs\<rparr>)) (values_loop ?q [])"
  proof -
    have r: "rests (advance p) (tl (insert_head table) @ ts)"
      "rests (advance (advance p)) (tl (tl (insert_head table)) @ ts)"
      "rests (advance (advance (advance p))) (tl (tl (tl (insert_head table))) @ ts)"
      "rests (advance (advance (advance (advance p)))) (tl (tl (tl (tl (insert_head table)))) @ ts)"
      using assms by (auto simp: insert_head_def intro!: rests_advance)
    show ?thesis
      using r by (simp add: insert_head_def parse_insert_def Let_def rests_expect zero_intent_def split: option.splits)
  qed
  ultimately show ?thesis by blast
qed

lemma parse_create_columns:
  assumes "rests p (create_head table @ ts)"
  shows "\<exists>q. rests q ts \<and> parse_create (advance p) zero_intent =
           map_option (\<lambda>(_, cds). (PARSE_OK, zero_intent\<lparr>it_type := INTENT_CREATE_TABLE,
             it_table := name_field table, it_columns := cds\<rparr>)) (columns_loop q [])"
proof -
  let ?q = "advance (advance (advance (advance p)))"
  have "rests ?q ts"
    using assms by (auto simp: create_head_def intro!: rests_advance)
  moreover have "parse_create (advance p) zero_intent =
      map_option (\<lambda>(_, cds). (PARSE_OK, zero_intent\<lparr>it_type := INTENT_CREATE_TABLE,
        it_table := name_field table, it_columns := cds\<rparr>)) (columns_loop ?q [])"
  proof -
    have r: "rests (advance p) (tl (create_head table) @ ts)"
      "rests (advance (advance p)) (tl (tl (create_head table)) @ ts)"
      "rests (advance (advance (advance p))) (tl (tl (tl (create_head table))) @ ts)"
      using assms by (auto simp: create_head_def intro!: rests_advance)
    show ?thesis
      using r by (simp add: create_head_def parse_create_def Let_def rests_expect rests_check zero_intent_def split: option.splits)
  qed
  ultimately show ?thesis by blast
qed

lemma parse_insert_start:
  assumes "rests \<lparr>ps_list = lexer_tokenize sql, ps_pos = 0\<rparr> (insert_head table @ ts)"
  shows "\<exists>q. rests q ts \<and> parse sql =
           map_option (\<lambda>(_, vs). (PARSE_OK, zero_intent\<lparr>it_type := INTENT_INSERT,
             it_table := name_field table, it_values := vs\<rparr>)) (values_loop q [])"
  using parse_insert_values [OF assms] assms rests_current [of "\<lparr>ps_list = lexer_tokenize sql, ps_pos = 0\<rparr>"]
  by (simp add: parse_def Let_def insert_head_def)

lemma parse_create_start:
  assumes "rests \<lparr>ps_list = lexer_tokenize sql, ps_pos = 0\<rparr> (create_head table @ ts)"
  shows "\<exists>q. rests q ts \<and> parse sql =
           map_option (\<lambda>(_, cds). (PARSE_OK, zero_intent\<lparr>it_type := INTENT_CREATE_TABLE,
             it_table := name_field table, it_columns := cds\<rparr>)) (columns_loop q [])"
  using parse_create_columns [OF assms] assms rests_current [of "\<lparr>ps_list = lexer_tokenize sql, ps_pos = 0\<rparr>"]
  by (simp add: parse_def Let_def create_head_def)

text \<open>
  C29: when the parser returns. An \<open>INSERT\<close> with any tokens behind its parenthesis is parsed
  exactly when the first token that is neither a value nor a comma is a closing parenthesis or
  the statement ends; otherwise, as for \<open>VALUES (a = b)\<close>, the loop never ends. The same holds for
  the column list of a \<open>CREATE TABLE\<close> with identifiers and commas, so \<open>(name VARCHAR(10))\<close>
  hangs the program.
\<close>

theorem parse_terminates:
  assumes "name_ok table" and "\<forall>t \<in> set ts. token_ok t" and "length ts < 120"
  shows "(parse (render (insert_head table @ ts)) \<noteq> None \<longleftrightarrow>
            at_stop (dropWhile in_values (ts @ [eof_token]))) \<and>
         (parse (render (create_head table @ ts)) \<noteq> None \<longleftrightarrow>
            at_stop (dropWhile in_columns (ts @ [eof_token])))"
proof
  have i: "rests \<lparr>ps_list = lexer_tokenize (render (insert_head table @ ts)), ps_pos = 0\<rparr>
      (insert_head table @ ts @ [eof_token])"
    using parse_tokens [of "insert_head table @ ts"] assms by (simp add: insert_head_def name_ok_def)
  show "parse (render (insert_head table @ ts)) \<noteq> None \<longleftrightarrow> at_stop (dropWhile in_values (ts @ [eof_token]))"
    using parse_insert_start [OF i] vl.returns_iff by (metis option.map_disc_iff)
  have c: "rests \<lparr>ps_list = lexer_tokenize (render (create_head table @ ts)), ps_pos = 0\<rparr>
      (create_head table @ ts @ [eof_token])"
    using parse_tokens [of "create_head table @ ts"] assms by (simp add: create_head_def name_ok_def)
  show "parse (render (create_head table @ ts)) \<noteq> None \<longleftrightarrow> at_stop (dropWhile in_columns (ts @ [eof_token]))"
    using parse_create_start [OF c] cl.returns_iff by (metis option.map_disc_iff)
qed

lemma name_t: "name_ok (lit ''t'')"
  by (simp add: name_ok_def token_ok_def ident_def word_ok_def punct_def classify_word_def KEYWORDS_def
      lit_def char_class_defs word_char_def c_toupper_def)

theorem parse_terminates_witness:
  "parse (render (insert_head (lit ''t'') @ [ident (lit ''t''), tok TOKEN_EQUALS ''='', tok TOKEN_RPAREN '')''])) = None \<and>
   parse (render (insert_head (lit ''t'') @ [ident (lit ''t''), tok TOKEN_COMMA '','', tok TOKEN_RPAREN '')''])) \<noteq> None \<and>
   parse (render (create_head (lit ''t'') @ [ident (lit ''t''), ident (lit ''t''), tok TOKEN_LPAREN ''(''])) = None"
proof -
  have ok: "token_ok (ident (lit ''t''))" using name_t by (simp add: name_ok_def)
  note stop = at_stop_def in_values_def in_columns_def is_value_def
  have "parse (render (insert_head (lit ''t'') @ [ident (lit ''t''), tok TOKEN_EQUALS ''='', tok TOKEN_RPAREN '')''])) = None"
    using parse_terminates [OF name_t, of "[ident (lit ''t''), tok TOKEN_EQUALS ''='', tok TOKEN_RPAREN '')'']", THEN conjunct1] ok
    by (simp add: stop del: not_None_eq)
  moreover have "parse (render (insert_head (lit ''t'') @ [ident (lit ''t''), tok TOKEN_COMMA '','', tok TOKEN_RPAREN '')''])) \<noteq> None"
    using parse_terminates [OF name_t, of "[ident (lit ''t''), tok TOKEN_COMMA '','', tok TOKEN_RPAREN '')'']", THEN conjunct1] ok
    by (simp add: stop del: not_None_eq)
  moreover have "parse (render (create_head (lit ''t'') @ [ident (lit ''t''), ident (lit ''t''), tok TOKEN_LPAREN ''(''])) = None"
    using parse_terminates [OF name_t, of "[ident (lit ''t''), ident (lit ''t''), tok TOKEN_LPAREN ''('']", THEN conjunct2] ok
    by (simp add: stop del: not_None_eq)
  ultimately show ?thesis by blast
qed

end
