(* ===== verification/ParserStmt.thy ===== *)
theory ParserStmt imports ParserProps begin

text \<open>
  The statements of the language, how they are written out as tokens, the intent each one
  stands for, and that the parser computes this intent.
\<close>

text \<open>Statements.\<close>

datatype stmt =
    Select "cstr list option" cstr "(cstr \<times> Token) option"
  | Insert cstr "Token list"
  | Update cstr cstr Token "(cstr \<times> Token) option"
  | Delete cstr "(cstr \<times> Token) option"
  | CreateTable cstr "(cstr \<times> cstr) list"
  | CreateDb cstr
  | DropTable cstr
  | UseDb cstr
  | Begin
  | Commit

fun commas :: "Token list list \<Rightarrow> Token list" where
  "commas [] = []"
| "commas [x] = x"
| "commas (x # y # xs) = x @ tok TOKEN_COMMA '','' # commas (y # xs)"

fun where_tokens :: "(cstr \<times> Token) option \<Rightarrow> Token list" where
  "where_tokens None = []"
| "where_tokens (Some (c, v)) = [tok TOKEN_WHERE ''WHERE'', ident c, tok TOKEN_EQUALS ''='', v]"

fun stmt_tokens :: "stmt \<Rightarrow> Token list" where
  "stmt_tokens (Select cols t w) =
     tok TOKEN_SELECT ''SELECT'' #
     (case cols of None \<Rightarrow> [tok TOKEN_STAR ''*''] | Some cs \<Rightarrow> commas (map (\<lambda>c. [ident c]) cs)) @
     [tok TOKEN_FROM ''FROM'', ident t] @ where_tokens w"
| "stmt_tokens (Insert t vs) = insert_head t @ commas (map (\<lambda>v. [v]) vs) @ [tok TOKEN_RPAREN '')'']"
| "stmt_tokens (Update t c v w) =
     [tok TOKEN_UPDATE ''UPDATE'', ident t, tok TOKEN_SET ''SET'', ident c, tok TOKEN_EQUALS ''='', v] @ where_tokens w"
| "stmt_tokens (Delete t w) = [tok TOKEN_DELETE ''DELETE'', tok TOKEN_FROM ''FROM'', ident t] @ where_tokens w"
| "stmt_tokens (CreateTable t cds) =
     create_head t @ commas (map (\<lambda>(n, ty). [ident n, ident ty]) cds) @ [tok TOKEN_RPAREN '')'']"
| "stmt_tokens (CreateDb d) = [tok TOKEN_CREATE ''CREATE'', ident (lit ''DATABASE''), ident d]"
| "stmt_tokens (DropTable t) = [tok TOKEN_DROP ''DROP'', tok TOKEN_TABLE ''TABLE'', ident t]"
| "stmt_tokens (UseDb d) = [tok TOKEN_USE ''USE'', ident d]"
| "stmt_tokens Begin = [tok TOKEN_BEGIN ''BEGIN'']"
| "stmt_tokens Commit = [tok TOKEN_COMMIT ''COMMIT'']"

fun where_of :: "(cstr \<times> Token) option \<Rightarrow> WhereClause" where
  "where_of None = it_where zero_intent"
| "where_of (Some (c, v)) = \<lparr>wh_column = c, wh_value = tk_value v, wh_active = True\<rparr>"

fun stmt_intent :: "stmt \<Rightarrow> Intent" where
  "stmt_intent (Select cols t w) =
     zero_intent\<lparr>it_type := INTENT_SELECT, it_table := t, it_select_all := (cols = None),
       it_select_cols := (case cols of None \<Rightarrow> [] | Some cs \<Rightarrow> cs), it_where := where_of w\<rparr>"
| "stmt_intent (Insert t vs) =
     zero_intent\<lparr>it_type := INTENT_INSERT, it_table := t, it_values := map tk_value vs\<rparr>"
| "stmt_intent (Update t c v w) =
     zero_intent\<lparr>it_type := INTENT_UPDATE, it_table := t,
       it_set := \<lparr>sc_column = c, sc_value = tk_value v\<rparr>, it_where := where_of w\<rparr>"
| "stmt_intent (Delete t w) =
     zero_intent\<lparr>it_type := INTENT_DELETE, it_table := t, it_where := where_of w\<rparr>"
| "stmt_intent (CreateTable t cds) =
     zero_intent\<lparr>it_type := INTENT_CREATE_TABLE, it_table := t,
       it_columns := map (\<lambda>(n, ty). \<lparr>cd_name = n, cd_type = ty\<rparr>) cds\<rparr>"
| "stmt_intent (CreateDb d) = zero_intent\<lparr>it_type := INTENT_CREATE_DB, it_db_name := d\<rparr>"
| "stmt_intent (DropTable t) = zero_intent\<lparr>it_type := INTENT_DROP_TABLE, it_table := t\<rparr>"
| "stmt_intent (UseDb d) = zero_intent\<lparr>it_type := INTENT_USE_DB, it_db_name := d\<rparr>"
| "stmt_intent Begin = zero_intent\<lparr>it_type := INTENT_BEGIN\<rparr>"
| "stmt_intent Commit = zero_intent\<lparr>it_type := INTENT_COMMIT\<rparr>"

fun where_ok :: "(cstr \<times> Token) option \<Rightarrow> bool" where
  "where_ok None \<longleftrightarrow> True"
| "where_ok (Some (c, v)) \<longleftrightarrow> name_ok c \<and> value_ok v"

text \<open>The names and values fit their fields, and there are at most 32 columns or values.\<close>

fun stmt_ok :: "stmt \<Rightarrow> bool" where
  "stmt_ok (Select cols t w) \<longleftrightarrow>
     (case cols of None \<Rightarrow> True | Some cs \<Rightarrow> length cs \<le> MAX_COLUMNS \<and> (\<forall>c \<in> set cs. name_ok c)) \<and>
     name_ok t \<and> where_ok w"
| "stmt_ok (Insert t vs) \<longleftrightarrow> name_ok t \<and> length vs \<le> MAX_VALUES \<and> (\<forall>v \<in> set vs. value_ok v)"
| "stmt_ok (Update t c v w) \<longleftrightarrow> name_ok t \<and> name_ok c \<and> value_ok v \<and> where_ok w"
| "stmt_ok (Delete t w) \<longleftrightarrow> name_ok t \<and> where_ok w"
| "stmt_ok (CreateTable t cds) \<longleftrightarrow>
     name_ok t \<and> length cds \<le> MAX_COLUMNS \<and> (\<forall>(n, ty) \<in> set cds. name_ok n \<and> name_ok ty)"
| "stmt_ok (CreateDb d) \<longleftrightarrow> name_ok d"
| "stmt_ok (DropTable t) \<longleftrightarrow> name_ok t"
| "stmt_ok (UseDb d) \<longleftrightarrow> name_ok d"
| "stmt_ok Begin \<longleftrightarrow> True"
| "stmt_ok Commit \<longleftrightarrow> True"

lemma where_parsed:
  assumes "rests p (where_tokens w @ [eof_token])" and "where_ok w"
  shows "snd (parse_where p (it_where zero_intent)) = where_of w"
proof (cases w)
  case None
  then show ?thesis using assms(1) rests_check [of p eof_token "[]"]
    by (simp add: parse_where_def zero_intent_def)
next
  case (Some cv)
  obtain c v where cv: "cv = (c, v)" by (cases cv)
  have r: "rests p (tok TOKEN_WHERE ''WHERE'' # ident c # tok TOKEN_EQUALS ''='' # v # [eof_token])"
    using assms(1) by (simp add: Some cv)
  have r1: "rests (advance p) (ident c # tok TOKEN_EQUALS ''='' # v # [eof_token])"
    using rests_advance [OF r] by simp
  have r2: "rests (advance (advance p)) (tok TOKEN_EQUALS ''='' # v # [eof_token])"
    using rests_advance [OF r1] by simp
  have r3: "rests (advance (advance (advance p))) (v # [eof_token])"
    using rests_advance [OF r2] by simp
  show ?thesis
    using assms(2) rests_current [OF r3]
    by (simp add: parse_where_def zero_intent_def Some cv rests_check [OF r] rests_expect [OF r1]
        rests_expect [OF r2] Let_def name_ok_field value_ok_field value_ok_def [of v])
qed

lemma values_loop_reads:
  assumes "rests p (commas (map (\<lambda>v. [v]) vs) @ tok TOKEN_RPAREN '')'' # ts)"
    and "\<forall>v \<in> set vs. value_ok v" and "length acc + length vs \<le> MAX_VALUES"
  shows "\<exists>q. values_loop p acc = Some (q, acc @ map tk_value vs)"
  using assms
proof (induction vs arbitrary: p acc)
  case Nil
  then have "check p TOKEN_RPAREN" by (simp add: rests_check)
  then show ?case by (subst values_loop.simps) simp
next
  case (Cons v vs)
  have v: "is_value v" "value_ok v" using Cons.prems(2) by (simp_all add: value_ok_def)
  have go: "values_loop p acc = values_loop (fst (values_step p acc)) (snd (values_step p acc))"
    if "rests p (v # us)" for us
    using rests_check [OF that] value_not [OF v(1)] by (subst values_loop.simps) simp
  define r where "r = tok TOKEN_RPAREN '')'' # ts"
  obtain u us where nx: "rests p (v # u # us)"
      "(if tk_type u = TOKEN_COMMA then us else u # us) = commas (map (\<lambda>v. [v]) vs) @ r"
    using Cons.prems(1) by (cases vs) (auto simp: r_def)
  have s: "rests (fst (values_step p acc)) (commas (map (\<lambda>v. [v]) vs) @ r)"
      "snd (values_step p acc) = acc @ [tk_value v]"
    using values_step_value [OF nx(1) v(1), of acc] Cons.prems(3) by (simp_all add: nx(2) value_ok_field v(2))
  show ?case
    using Cons.IH [OF s(1) [unfolded r_def], of "acc @ [tk_value v]"] Cons.prems(2,3)
    by (simp add: go [OF nx(1)] s(2))
qed

lemma columns_loop_reads:
  assumes "rests p (commas (map (\<lambda>(n, ty). [ident n, ident ty]) cds) @ tok TOKEN_RPAREN '')'' # ts)"
    and "\<forall>(n, ty) \<in> set cds. name_ok n \<and> name_ok ty" and "length acc + length cds \<le> MAX_COLUMNS"
  shows "\<exists>q. columns_loop p acc = Some (q, acc @ map (\<lambda>(n, ty). \<lparr>cd_name = n, cd_type = ty\<rparr>) cds)"
  using assms
proof (induction cds arbitrary: p acc)
  case Nil
  then have "check p TOKEN_RPAREN" by (simp add: rests_check)
  then show ?case by (subst columns_loop.simps) simp
next
  case (Cons cd cds)
  obtain n ty where cd: "cd = (n, ty)" by (cases cd)
  define r where "r = tok TOKEN_RPAREN '')'' # ts"
  obtain u us where nx: "rests p (ident n # ident ty # u # us)"
      "(if tk_type u = TOKEN_COMMA then us else u # us) = commas (map (\<lambda>(n, ty). [ident n, ident ty]) cds) @ r"
    using Cons.prems(1) by (cases cds) (auto simp: r_def cd split: prod.splits)
  have a: "rests (advance p) (ident ty # u # us)" using rests_advance [OF nx(1)] by simp
  have b: "rests (advance (advance p)) (u # us)" using rests_advance [OF a] by simp
  have s: "rests (fst (columns_step p acc)) (commas (map (\<lambda>(n, ty). [ident n, ident ty]) cds) @ r)"
      "snd (columns_step p acc) = acc @ [\<lparr>cd_name = n, cd_type = ty\<rparr>]"
    using skip_comma [OF b] Cons.prems(2,3)
    by (simp_all add: columns_step_def rests_expect [OF nx(1)] rests_expect [OF a] nx(2) cd name_ok_field)
  have go: "columns_loop p acc = columns_loop (fst (columns_step p acc)) (snd (columns_step p acc))"
    using rests_check [OF nx(1)] by (subst columns_loop.simps) simp
  show ?case
    using Cons.IH [OF s(1) [unfolded r_def], of "acc @ [\<lparr>cd_name = n, cd_type = ty\<rparr>]"] Cons.prems(2,3)
    by (simp add: go s(2) cd)
qed

lemma select_loop_reads:
  assumes "rests p (commas (map (\<lambda>c. [ident c]) cs) @ tok TOKEN_FROM ''FROM'' # ts)"
    and "\<forall>c \<in> set cs. name_ok c" and "length acc + length cs \<le> MAX_COLUMNS"
  shows "rests (fst (select_loop p acc)) (tok TOKEN_FROM ''FROM'' # ts) \<and> snd (select_loop p acc) = acc @ cs"
  using assms
proof (induction cs arbitrary: p acc)
  case Nil
  then show ?case using rests_check [of p "tok TOKEN_FROM ''FROM''" ts]
    by (subst (1 2) select_loop.simps) simp
next
  case (Cons c cs)
  have c: "name_field c = c" using Cons.prems(2) by (simp add: name_ok_field)
  obtain u us where nx: "rests p (ident c # u # us)"
      "if cs = [] then u = tok TOKEN_FROM ''FROM'' \<and> us = ts
       else u = tok TOKEN_COMMA '','' \<and> us = commas (map (\<lambda>c. [ident c]) cs) @ tok TOKEN_FROM ''FROM'' # ts"
    using Cons.prems(1) by (cases cs) auto
  have a: "rests (advance p) (u # us)" using rests_advance [OF nx(1)] by simp
  show ?case
  proof (cases "cs = []")
    case True
    then show ?thesis
      using a nx Cons.prems(3)
      by (subst (1 2) select_loop.simps)
        (simp add: rests_check [OF nx(1)] rests_check [OF a] rests_current [OF nx(1)] c)
  next
    case False
    then have b: "rests (advance (advance p)) (commas (map (\<lambda>c. [ident c]) cs) @ tok TOKEN_FROM ''FROM'' # ts)"
      using rests_advance [OF a] nx(2) by simp
    show ?thesis
      using Cons.IH [OF b, of "acc @ [c]"] Cons.prems(2,3) False nx(2)
      by (subst (1 2) select_loop.simps)
        (simp add: rests_check [OF nx(1)] rests_check [OF a] rests_current [OF nx(1)] c Let_def)
  qed
qed

lemma where_tokens_ok: "where_ok w \<Longrightarrow> (\<forall>t \<in> set (where_tokens w). token_ok t) \<and> length (where_tokens w) \<le> 4"
  by (cases w) (auto simp: name_ok_def value_ok_def)

lemma set_commas: "set (commas xs) \<subseteq> insert (tok TOKEN_COMMA '','') (\<Union> (set ` set xs))"
  by (induction xs rule: commas.induct) auto

lemma length_commas: "\<forall>x \<in> set xs. length x \<le> k \<Longrightarrow> length (commas xs) \<le> length xs * Suc k"
  by (induction xs rule: commas.induct) auto

lemma commas_ok:
  assumes "\<forall>x \<in> set xs. \<forall>t \<in> set x. token_ok t" and "\<forall>x \<in> set xs. length x \<le> k"
  shows "(\<forall>t \<in> set (commas xs). token_ok t) \<and> length (commas xs) \<le> length xs * Suc k"
  using assms set_commas [of xs] length_commas [of xs k] by fastforce

lemma stmt_tokens_ok:
  assumes "stmt_ok s"
  shows "(\<forall>t \<in> set (stmt_tokens s). token_ok t) \<and> length (stmt_tokens s) < MAX_TOKENS"
proof -
  have name: "token_ok (ident n)" if "name_ok n" for n using that by (simp add: name_ok_def)
  have val: "token_ok v" if "value_ok v" for v using that by (simp add: value_ok_def)
  have w: "Ball (set (where_tokens w)) token_ok" "length (where_tokens w) \<le> 4" if "where_ok w" for w
    using where_tokens_ok [OF that] by simp_all
  show ?thesis
  proof (cases s)
    case (Select cols t w)
    show ?thesis
    proof (cases cols)
      case None
      then show ?thesis using assms w(1) [of w] w(2) [of w] name by (simp add: Select ball_Un)
    next
      case (Some cs)
      have c: "Ball (set (commas (map (\<lambda>c. [ident c]) cs))) token_ok"
          "length (commas (map (\<lambda>c. [ident c]) cs)) \<le> length cs * 2" "length cs \<le> 32"
        using assms commas_ok [of "map (\<lambda>c. [ident c]) cs" 1] name by (simp_all add: Select Some)
      then show ?thesis using assms w(1) [of w] w(2) [of w] name by (simp add: Select Some ball_Un)
    qed
  next
    case (Insert t vs)
    have c: "Ball (set (commas (map (\<lambda>v. [v]) vs))) token_ok"
        "length (commas (map (\<lambda>v. [v]) vs)) \<le> length vs * 2" "length vs \<le> 32"
      using assms commas_ok [of "map (\<lambda>v. [v]) vs" 1] val by (simp_all add: Insert)
    then show ?thesis using assms name by (simp add: Insert insert_head_def ball_Un)
  next
    case (CreateTable t cds)
    have c: "Ball (set (commas (map (\<lambda>(n, ty). [ident n, ident ty]) cds))) token_ok"
        "length (commas (map (\<lambda>(n, ty). [ident n, ident ty]) cds)) \<le> length cds * 3" "length cds \<le> 32"
    proof -
      have ok: "length cds \<le> 32" "\<forall>(n, ty) \<in> set cds. token_ok (ident n) \<and> token_ok (ident ty)"
        using assms name by (auto simp: CreateTable)
      have "(\<forall>t \<in> set (commas (map (\<lambda>(n, ty). [ident n, ident ty]) cds)). token_ok t) \<and>
          length (commas (map (\<lambda>(n, ty). [ident n, ident ty]) cds)) \<le>
            length (map (\<lambda>(n, ty). [ident n, ident ty]) cds) * Suc 2"
        by (rule commas_ok) (use ok(2) in \<open>auto split: prod.splits\<close>)
      then show "Ball (set (commas (map (\<lambda>(n, ty). [ident n, ident ty]) cds))) token_ok"
        "length (commas (map (\<lambda>(n, ty). [ident n, ident ty]) cds)) \<le> length cds * 3" "length cds \<le> 32"
        using ok(1) by simp_all
    qed
    then show ?thesis using assms name by (simp add: CreateTable create_head_def ball_Un)
  next
    case (Update t c v w)
    then show ?thesis using assms w(1) [of w] w(2) [of w] name val by (simp add: ball_Un)
  next
    case (Delete t w)
    then show ?thesis using assms w(1) [of w] w(2) [of w] name by (simp add: ball_Un)
  qed (use assms name in simp_all)
qed

lemma parse_stmt_update:
  assumes p: "rests p (stmt_tokens (Update t c v w) @ [eof_token])" and ok: "stmt_ok (Update t c v w)"
  shows "parse_update (advance p) zero_intent = (PARSE_OK, stmt_intent (Update t c v w))"
proof -
  let ?w = "where_tokens w @ [eof_token]"
  have 1: "rests (advance p) (ident t # tok TOKEN_SET ''SET'' # ident c # tok TOKEN_EQUALS ''='' # v # ?w)"
    using p rests_advance by force
  have 2: "rests (advance (advance p)) (tok TOKEN_SET ''SET'' # ident c # tok TOKEN_EQUALS ''='' # v # ?w)"
    using rests_advance [OF 1] by simp
  have 3: "rests (advance (advance (advance p))) (ident c # tok TOKEN_EQUALS ''='' # v # ?w)"
    using rests_advance [OF 2] by simp
  have 4: "rests (advance (advance (advance (advance p)))) (tok TOKEN_EQUALS ''='' # v # ?w)"
    using rests_advance [OF 3] by simp
  have 5: "rests (advance (advance (advance (advance (advance p))))) (v # ?w)"
    using rests_advance [OF 4] by simp
  have v: "is_value v" "tk_type v \<noteq> TOKEN_EOF" using ok value_not [of v] by (simp_all add: value_ok_def)
  have w: "snd (parse_where (advance (advance (advance (advance (advance (advance p)))))) (it_where zero_intent)) = where_of w"
    using where_parsed [OF rests_advance [OF 5 v(2)]] ok by simp
  show ?thesis
    using ok w by (simp add: parse_update_def Let_def rests_expect [OF 1] rests_expect [OF 2] rests_expect [OF 3]
        rests_expect [OF 4] rests_current [OF 5] v(1) name_ok_field value_ok_field zero_intent_def)
qed

lemma parse_select_from:
  assumes q: "rests q (tok TOKEN_FROM ''FROM'' # ident t # where_tokens w @ [eof_token])"
    and ok: "name_ok t" "where_ok w"
    and cols: "(if check p TOKEN_STAR then (advance p, []) else select_loop p []) = (q, cs)"
  shows "parse_select p zero_intent =
    (PARSE_OK, zero_intent\<lparr>it_type := INTENT_SELECT, it_table := t, it_select_all := check p TOKEN_STAR,
       it_select_cols := cs, it_where := where_of w\<rparr>)"
proof -
  have 2: "rests (advance q) (ident t # where_tokens w @ [eof_token])" using rests_advance [OF q] by simp
  have "snd (parse_where (advance (advance q)) (it_where zero_intent)) = where_of w"
    using where_parsed rests_advance [OF 2] ok by simp
  moreover have "parse_select p zero_intent =
      (let it = zero_intent\<lparr>it_type := INTENT_SELECT, it_select_all := check p TOKEN_STAR, it_select_cols := cs,
                  it_table := t\<rparr>
       in (PARSE_OK, it\<lparr>it_where := snd (parse_where (advance (advance q)) (it_where it))\<rparr>))"
  proof (cases "check p TOKEN_STAR")
    case True
    then have "q = advance p" "cs = []" using cols by simp_all
    then show ?thesis
      using True ok by (simp add: parse_select_def zero_intent_def rests_expect [OF q [unfolded \<open>q = advance p\<close>]]
          rests_expect [OF 2 [unfolded \<open>q = advance p\<close>]] name_ok_field)
  next
    case False
    then have "select_loop p [] = (q, cs)" using cols by simp
    then show ?thesis
      using False ok by (simp add: parse_select_def zero_intent_def rests_expect [OF q] rests_expect [OF 2] name_ok_field)
  qed
  ultimately show ?thesis by (simp add: zero_intent_def)
qed

lemma parse_stmt_select:
  assumes p: "rests p (stmt_tokens (Select cols t w) @ [eof_token])" and ok: "stmt_ok (Select cols t w)"
  shows "parse_select (advance p) zero_intent = (PARSE_OK, stmt_intent (Select cols t w))"
proof -
  let ?f = "tok TOKEN_FROM ''FROM'' # ident t # where_tokens w @ [eof_token]"
  have tw: "name_ok t" "where_ok w" using ok by simp_all
  show ?thesis
  proof (cases cols)
    case None
    have 1: "rests (advance p) (tok TOKEN_STAR ''*'' # ?f)" using p rests_advance None by force
    have "rests (advance (advance p)) ?f" using rests_advance [OF 1] by simp
    then show ?thesis
      using rests_check [OF 1, of TOKEN_STAR] parse_select_from [OF _ tw, of _ "advance p"] by (simp add: None)
  next
    case (Some cs)
    have 1: "rests (advance p) (commas (map (\<lambda>c. [ident c]) cs) @ ?f)"
      using p rests_advance Some by force
    have "\<not> check (advance p) TOKEN_STAR"
    proof (cases cs)
      case Nil then show ?thesis using rests_check [of "advance p"] 1 by simp
    next
      case (Cons c r)
      then obtain us where "commas (map (\<lambda>c. [ident c]) cs) @ ?f = ident c # us" by (cases r) auto
      then show ?thesis using 1 rests_check [of "advance p" "ident c" us] by simp
    qed
    moreover have "rests (fst (select_loop (advance p) [])) ?f \<and> snd (select_loop (advance p) []) = cs"
      using select_loop_reads [OF 1, of "[]"] ok Some by simp
    ultimately show ?thesis
      using parse_select_from [OF _ tw, of "fst (select_loop (advance p) [])" "advance p" cs]
      by (simp add: Some prod_eq_iff)
  qed
qed

lemma parse_stmt_delete:
  assumes p: "rests p (stmt_tokens (Delete t w) @ [eof_token])" and ok: "stmt_ok (Delete t w)"
  shows "parse_delete (advance p) zero_intent = (PARSE_OK, stmt_intent (Delete t w))"
proof -
  let ?w = "where_tokens w @ [eof_token]"
  have 1: "rests (advance p) (tok TOKEN_FROM ''FROM'' # ident t # ?w)" using p rests_advance by force
  have 2: "rests (advance (advance p)) (ident t # ?w)" using rests_advance [OF 1] by simp
  have "snd (parse_where (advance (advance (advance p))) (it_where zero_intent)) = where_of w"
    using where_parsed rests_advance [OF 2] ok by simp
  then show ?thesis
    using ok by (simp add: parse_delete_def Let_def rests_expect [OF 1] rests_expect [OF 2] name_ok_field zero_intent_def)
qed

lemma parse_stmt:
  assumes p: "rests \<lparr>ps_list = lexer_tokenize sql, ps_pos = 0\<rparr> (stmt_tokens s @ [eof_token])"
    and ok: "stmt_ok s"
  shows "parse sql = Some (PARSE_OK, stmt_intent s)"
proof -
  let ?p = "\<lparr>ps_list = lexer_tokenize sql, ps_pos = 0\<rparr>"
  note cur = rests_current [of ?p]
  show ?thesis
  proof (cases s)
    case (Select cols t w)
    then show ?thesis using p cur parse_stmt_select [of ?p cols t w] ok by (simp add: parse_def)
  next
    case (Insert t vs)
    then obtain q where q: "rests q (commas (map (\<lambda>v. [v]) vs) @ tok TOKEN_RPAREN '')'' # [eof_token])"
        "parse sql = map_option (\<lambda>(_, vs). (PARSE_OK, zero_intent\<lparr>it_type := INTENT_INSERT,
             it_table := name_field t, it_values := vs\<rparr>)) (values_loop q [])"
      using parse_insert_start [of sql t] p by force
    then show ?thesis
      using values_loop_reads [OF q(1), of "[]"] ok Insert by (auto simp: name_ok_field)
  next
    case (Update t c v w)
    then show ?thesis using p cur parse_stmt_update [of ?p t c v w] ok by (simp add: parse_def)
  next
    case (Delete t w)
    then show ?thesis using p cur parse_stmt_delete [of ?p t w] ok by (simp add: parse_def)
  next
    case (CreateTable t cds)
    then obtain q where q: "rests q (commas (map (\<lambda>(n, ty). [ident n, ident ty]) cds) @ tok TOKEN_RPAREN '')'' # [eof_token])"
        "parse sql = map_option (\<lambda>(_, cds). (PARSE_OK, zero_intent\<lparr>it_type := INTENT_CREATE_TABLE,
             it_table := name_field t, it_columns := cds\<rparr>)) (columns_loop q [])"
      using parse_create_start [of sql t] p by force
    then show ?thesis
      using columns_loop_reads [OF q(1), of "[]"] ok CreateTable by (auto simp: name_ok_field)
  next
    case (CreateDb d)
    then have 1: "rests (advance ?p) (ident (lit ''DATABASE'') # ident d # [eof_token])" using p rests_advance by force
    have 2: "rests (advance (advance ?p)) (ident d # [eof_token])" using rests_advance [OF 1] by simp
    show ?thesis
      using p cur CreateDb ok
      by (simp add: parse_def parse_create_def rests_check [OF 1] rests_current [OF 1] strcasecmp_eq_def
          rests_expect [OF 2] name_ok_field Let_def)
  next
    case (DropTable t)
    then have 1: "rests (advance ?p) (tok TOKEN_TABLE ''TABLE'' # ident t # [eof_token])" using p rests_advance by force
    have 2: "rests (advance (advance ?p)) (ident t # [eof_token])" using rests_advance [OF 1] by simp
    show ?thesis
      using p cur DropTable ok
      by (simp add: parse_def parse_drop_def rests_expect [OF 1] rests_expect [OF 2] name_ok_field Let_def)
  next
    case (UseDb d)
    then have 1: "rests (advance ?p) (ident d # [eof_token])" using p rests_advance by force
    show ?thesis
      using p cur UseDb ok by (simp add: parse_def rests_expect [OF 1] name_ok_field Let_def)
  qed (use p cur in \<open>simp_all add: parse_def\<close>)
qed

lemma parse_reads:
  assumes "stmt_ok s"
  shows "parse (render (stmt_tokens s)) = Some (PARSE_OK, stmt_intent s)"
  using assms parse_stmt parse_tokens stmt_tokens_ok by blast

text \<open>
  C9: the parser reads back every statement: written out, a statement whose names and values
  fit and that has at most 32 columns or values is parsed without error to exactly its intent.
\<close>

theorem parse_roundtrip:
  assumes "stmt_ok s"
  shows "parse (render (stmt_tokens s)) = Some (PARSE_OK, stmt_intent s)"
  using assms by (rule parse_reads)

theorem parse_roundtrip_witness:
  "parse (render (stmt_tokens (Update (lit ''t'') (lit ''t'') (ident (lit ''t'')) (Some (lit ''t'', ident (lit ''t'')))))) =
     Some (PARSE_OK, stmt_intent (Update (lit ''t'') (lit ''t'') (ident (lit ''t'')) (Some (lit ''t'', ident (lit ''t'')))))"
  using parse_roundtrip [of "Update (lit ''t'') (lit ''t'') (ident (lit ''t'')) (Some (lit ''t'', ident (lit ''t'')))"] name_t
  by (simp add: name_ok_def value_ok_def is_value_def)

end
