(* ===== verification/ParserTypes.thy ===== *)
theory ParserTypes imports ParserStmt begin

text \<open>
  The type of an intent: every text fits the array it is kept in and every list its fixed
  number of entries. The parser only builds such intents, whatever the statement is.
\<close>

definition name_fits :: "cstr \<Rightarrow> bool" where "name_fits s \<longleftrightarrow> length s < MAX_NAME_LEN"

definition value_fits :: "cstr \<Rightarrow> bool" where "value_fits s \<longleftrightarrow> length s < MAX_VALUE_LEN"

definition intent_typed :: "Intent \<Rightarrow> bool" where
  "intent_typed it \<longleftrightarrow>
     name_fits (it_table it) \<and> name_fits (it_db_name it) \<and>
     length (it_select_cols it) \<le> MAX_COLUMNS \<and> list_all name_fits (it_select_cols it) \<and>
     length (it_columns it) \<le> MAX_COLUMNS \<and>
     list_all (\<lambda>cd. name_fits (cd_name cd) \<and> name_fits (cd_type cd)) (it_columns it) \<and>
     length (it_values it) \<le> MAX_VALUES \<and> list_all value_fits (it_values it) \<and>
     name_fits (wh_column (it_where it)) \<and> value_fits (wh_value (it_where it)) \<and>
     name_fits (sc_column (it_set it)) \<and> value_fits (sc_value (it_set it))"

lemma field_fits [simp]: "name_fits (name_field s)" "value_fits (value_field s)"
  by (simp_all add: name_fits_def value_fits_def name_field_def value_field_def)

lemma where_typed:
  "name_fits (wh_column wh) \<Longrightarrow> value_fits (wh_value wh) \<Longrightarrow>
     name_fits (wh_column (snd (parse_where p wh))) \<and> value_fits (wh_value (snd (parse_where p wh)))"
  by (auto simp: parse_where_def Let_def split: option.splits prod.splits)

lemma intent_where_typed:
  "intent_typed it \<Longrightarrow> intent_typed (it\<lparr>it_where := snd (parse_where p (it_where it))\<rparr>)"
  using where_typed [of "it_where it" p] by (simp add: intent_typed_def)

lemma select_loop_typed:
  "length cols \<le> MAX_COLUMNS \<Longrightarrow> list_all name_fits cols \<Longrightarrow>
     length (snd (select_loop p cols)) \<le> MAX_COLUMNS \<and> list_all name_fits (snd (select_loop p cols))"
proof (induction p cols rule: select_loop.induct)
  case (1 p cols)
  then show ?case by (subst (1 2) select_loop.simps) (auto simp: Let_def)
qed

lemma values_loop_typed:
  assumes "values_loop p vs = Some (q, ws)" and "length vs \<le> MAX_VALUES" and "list_all value_fits vs"
  shows "length ws \<le> MAX_VALUES \<and> list_all value_fits ws"
proof -
  have "length vs \<le> MAX_VALUES \<and> list_all value_fits vs \<longrightarrow>
      length (snd r) \<le> MAX_VALUES \<and> list_all value_fits (snd r)" if "values_loop p vs = Some r" for r
    using that
  proof (rule values_loop.raw_induct [rotated])
    fix loop p vs r
    assume ih: "\<And>p vs r. loop p vs = Some r \<Longrightarrow> length vs \<le> MAX_VALUES \<and> list_all value_fits vs \<longrightarrow>
        length (snd r) \<le> MAX_VALUES \<and> list_all value_fits (snd r)"
      and r: "(if \<not> check p TOKEN_RPAREN \<and> \<not> check p TOKEN_EOF
          then loop (fst (values_step p vs)) (snd (values_step p vs)) else Some (p, vs)) = Some r"
    have "length vs \<le> MAX_VALUES \<and> list_all value_fits vs \<Longrightarrow>
        length (snd (values_step p vs)) \<le> MAX_VALUES \<and> list_all value_fits (snd (values_step p vs))"
      by (auto simp: values_step_def Let_def)
    then show "length vs \<le> MAX_VALUES \<and> list_all value_fits vs \<longrightarrow>
        length (snd r) \<le> MAX_VALUES \<and> list_all value_fits (snd r)"
      using ih [of "fst (values_step p vs)" "snd (values_step p vs)" r] r by (auto split: if_splits)
  qed
  from this [OF assms(1)] show ?thesis using assms(2,3) by simp
qed

abbreviation col_fits :: "ColumnDef \<Rightarrow> bool" where
  "col_fits cd \<equiv> name_fits (cd_name cd) \<and> name_fits (cd_type cd)"

lemma columns_loop_typed:
  assumes "columns_loop p cds = Some (q, ds)" and "length cds \<le> MAX_COLUMNS" and "list_all col_fits cds"
  shows "length ds \<le> MAX_COLUMNS \<and> list_all col_fits ds"
proof -
  have "length cds \<le> MAX_COLUMNS \<and> list_all col_fits cds \<longrightarrow>
      length (snd r) \<le> MAX_COLUMNS \<and> list_all col_fits (snd r)" if "columns_loop p cds = Some r" for r
    using that
  proof (rule columns_loop.raw_induct [rotated])
    fix loop p cds r
    assume ih: "\<And>p cds r. loop p cds = Some r \<Longrightarrow> length cds \<le> MAX_COLUMNS \<and> list_all col_fits cds \<longrightarrow>
        length (snd r) \<le> MAX_COLUMNS \<and> list_all col_fits (snd r)"
      and r: "(if \<not> check p TOKEN_RPAREN \<and> \<not> check p TOKEN_EOF
          then loop (fst (columns_step p cds)) (snd (columns_step p cds)) else Some (p, cds)) = Some r"
    have "length cds \<le> MAX_COLUMNS \<and> list_all col_fits cds \<Longrightarrow>
        length (snd (columns_step p cds)) \<le> MAX_COLUMNS \<and> list_all col_fits (snd (columns_step p cds))"
      by (auto simp: columns_step_def split: option.splits prod.splits)
    then show "length cds \<le> MAX_COLUMNS \<and> list_all col_fits cds \<longrightarrow>
        length (snd r) \<le> MAX_COLUMNS \<and> list_all col_fits (snd r)"
      using ih [of "fst (columns_step p cds)" "snd (columns_step p cds)" r] r by (auto split: if_splits)
  qed
  from this [OF assms(1)] show ?thesis using assms(2,3) by simp
qed

lemma zero_intent_typed: "intent_typed zero_intent"
  by (simp add: intent_typed_def zero_intent_def name_fits_def value_fits_def)

lemma parse_select_typed: "intent_typed it \<Longrightarrow> intent_typed (snd (parse_select p it))"
  using select_loop_typed [of "it_select_cols it" p]
  by (auto simp: parse_select_def Let_def intent_typed_def where_typed split: option.splits prod.splits)

lemma parse_insert_typed:
  "intent_typed it \<Longrightarrow> parse_insert p it = Some (r, it') \<Longrightarrow> intent_typed it'"
  by (auto simp: parse_insert_def Let_def intent_typed_def dest!: values_loop_typed split: option.splits prod.splits)

lemma parse_update_typed: "intent_typed it \<Longrightarrow> intent_typed (snd (parse_update p it))"
  by (auto simp: parse_update_def Let_def intent_typed_def where_typed split: option.splits prod.splits)

lemma parse_delete_typed: "intent_typed it \<Longrightarrow> intent_typed (snd (parse_delete p it))"
  by (auto simp: parse_delete_def Let_def intent_typed_def where_typed split: option.splits prod.splits)

lemma parse_create_typed:
  "intent_typed it \<Longrightarrow> parse_create p it = Some (r, it') \<Longrightarrow> intent_typed it'"
  by (auto simp: parse_create_def Let_def intent_typed_def dest!: columns_loop_typed
      split: option.splits prod.splits if_splits)

lemma parse_drop_typed: "intent_typed it \<Longrightarrow> intent_typed (snd (parse_drop p it))"
  by (auto simp: parse_drop_def Let_def intent_typed_def split: option.splits prod.splits)

lemma parse_typed_run:
  assumes "parse sql = Some (r, it)"
  shows "intent_typed it"
proof -
  note z = zero_intent_typed
  have k: "intent_typed (zero_intent\<lparr>it_type := ty\<rparr>)" "name_fits n \<Longrightarrow> intent_typed (zero_intent\<lparr>it_type := ty, it_db_name := n\<rparr>)"
    for ty n using z by (simp_all add: intent_typed_def)
  show ?thesis
    using assms z k parse_select_typed [OF z] parse_update_typed [OF z] parse_delete_typed [OF z] parse_drop_typed [OF z]
      parse_insert_typed [OF z] parse_create_typed [OF z]
    by (auto simp: parse_def Let_def split: TokenType.splits option.splits prod.splits) (metis snd_conv)+
qed

text \<open>
  C31: no statement drives the parser beyond the arrays of an intent: whatever the text is, when
  the parser returns, every name and value it stored is shorter than its array and the lists of
  columns, selected columns and values have at most 32 entries.
\<close>

theorem parse_typed:
  "case parse sql of None \<Rightarrow> True | Some (r, it) \<Rightarrow> intent_typed it"
  using parse_typed_run by (auto split: option.split)

end
