(* ===== verification/CText.thy ===== *)
theory CText imports CString begin

text \<open>
  The routines of the C library the table and the dispatcher use on text: \<open>strtok\<close>,
  \<open>snprintf\<close> and \<open>strncpy\<close> into a buffer at a position, \<open>atoi\<close>, \<open>fgets\<close> and the directives
  of \<open>fscanf\<close> and \<open>fprintf\<close>. A pointer into a buffer is an offset, and \<open>None\<close> is an access
  outside the buffer.
\<close>

text \<open>
  An uninitialised array of \<open>n\<close> bytes holds whatever the stack held before; the residue is
  given, cut or filled to the size.
\<close>

definition residue :: "nat \<Rightarrow> bytes \<Rightarrow> bytes" where
  "residue n s = take n s @ replicate (n - length s) 0"

lemma length_residue [simp]: "length (residue n s) = n"
  by (simp add: residue_def)

text \<open>
  \<open>strtok (buf + pos, d)\<close>, also as the continuation \<open>strtok (NULL, d)\<close> at the saved position:
  the token, the buffer and the position saved for the next call.
\<close>

definition strtok :: "u8 \<Rightarrow> bytes \<Rightarrow> nat \<Rightarrow> (nat option \<times> bytes \<times> nat) option" where
  "strtok d buf pos =
     (let s = pos + length (takeWhile (\<lambda>c. c = d) (drop pos buf)) in
      if length buf \<le> s then None
      else if buf ! s = 0 then Some (None, buf, s)
      else
        let e = s + length (takeWhile (\<lambda>c. c \<noteq> d \<and> c \<noteq> 0) (drop s buf)) in
        if length buf \<le> e then None
        else if buf ! e = 0 then Some (Some s, buf, e)
        else Some (Some s, buf[e := 0], e + 1))"

text \<open>\<open>for (i = 0; i < n && tok; i++) tok = strtok (NULL, d)\<close>\<close>

fun next_toks :: "u8 \<Rightarrow> nat \<Rightarrow> nat option \<times> bytes \<times> nat \<Rightarrow> (nat option \<times> bytes \<times> nat) option" where
  "next_toks d 0 st = Some st"
| "next_toks d (Suc n) (None, buf, pos) = Some (None, buf, pos)"
| "next_toks d (Suc n) (Some t, buf, pos) = do { st \<leftarrow> strtok d buf pos; next_toks d n st }"

lemma strtok_facts:
  assumes "strtok d buf pos = Some (Some t, buf', pos')"
  shows "length buf' = length buf" and "pos < pos'" and "pos < length buf" and "pos \<le> t" and "t < pos'"
proof -
  define s where "s = pos + length (takeWhile (\<lambda>c. c = d) (drop pos buf))"
  define e where "e = s + length (takeWhile (\<lambda>c. c \<noteq> d \<and> c \<noteq> 0) (drop s buf))"
  have r: "s < length buf" "buf ! s \<noteq> 0" "t = s" "length buf' = length buf" "pos' = e \<or> pos' = e + 1"
    using assms by (auto simp: strtok_def Let_def s_def [symmetric] e_def [symmetric] split: if_splits)
  have "s < e"
  proof -
    have "drop s buf = buf ! s # drop (Suc s) buf" using r(1) by (simp add: Cons_nth_drop_Suc)
    moreover have "buf ! s \<noteq> d"
    proof
      assume "buf ! s = d"
      have "length (takeWhile (\<lambda>c. c = d) (drop pos buf)) < length (drop pos buf)"
        using r(1) by (simp add: s_def)
      from nth_length_takeWhile [OF this] show False using \<open>buf ! s = d\<close> r(1) by (simp add: s_def)
    qed
    ultimately show ?thesis using r(2) by (simp add: e_def)
  qed
  then show "length buf' = length buf" "pos < pos'" "pos < length buf" "pos \<le> t" "t < pos'"
    using r s_def by auto
qed

lemma strtok_less: "strtok d buf pos = Some (Some t, buf', pos') \<Longrightarrow> length buf' - pos' < length buf - pos"
  using strtok_facts [of d buf pos t buf' pos'] by simp

text \<open>
  \<open>while (tok) \{ ...; tok = strtok (NULL, d); \}\<close>: the tokens from a position on, each read
  when it is found.
\<close>

function tokens_from :: "u8 \<Rightarrow> bytes \<Rightarrow> nat \<Rightarrow> cstr list option" where
  "tokens_from d buf pos =
     (case strtok d buf pos of
        None \<Rightarrow> None
      | Some (None, buf', pos') \<Rightarrow> Some []
      | Some (Some t, buf', pos') \<Rightarrow>
          do { s \<leftarrow> str_at (drop t buf'); ts \<leftarrow> tokens_from d buf' pos'; Some (s # ts) })"
  by pat_completeness auto
termination
proof (relation "measure (\<lambda>(d, buf, pos). length buf - pos)", goal_cases)
  case 2
  then show ?case using strtok_less by (auto dest: sym)
qed simp

declare tokens_from.simps [simp del]

text \<open>
  \<open>snprintf (buf + pos, cap - pos, "%s", s)\<close> for an array of \<open>cap\<close> bytes: the text is cut to
  the room and terminated, nothing is written when there is no room at all, and a position
  behind the array makes the size wrap to a huge one.
\<close>

definition snprintf_at :: "bytes \<Rightarrow> nat \<Rightarrow> cstr \<Rightarrow> bytes option" where
  "snprintf_at buf pos s =
     (if length buf < pos then None
      else if pos = length buf then Some buf
      else mem_write buf pos (take (length buf - pos - 1) s @ [0]))"

text \<open>The characters \<open>strncpy (.., src, n)\<close> copies from a buffer.\<close>

definition strncpy_src :: "bytes \<Rightarrow> nat \<Rightarrow> cstr option" where
  "strncpy_src src n =
     (if 0 \<in> set (take n src) \<or> n \<le> length src then Some (takeWhile (\<lambda>c. c \<noteq> 0) (take n src)) else None)"

text \<open>
  \<open>atoi\<close> is \<open>(int) strtol (s, NULL, 10)\<close>: blanks, a sign, digits; clamped to 64 bits and
  then cut to 32.
\<close>

fun digits_value :: "cstr \<Rightarrow> nat \<Rightarrow> nat" where
  "digits_value [] acc = acc"
| "digits_value (c # s) acc =
     (if c_isdigit c then digits_value s (acc * 10 + (unat c - 48)) else acc)"

definition strtol :: "cstr \<Rightarrow> int" where
  "strtol s =
     (let s = dropWhile c_isspace s;
          neg = (s \<noteq> [] \<and> hd s = 45);
          s = (if s \<noteq> [] \<and> (hd s = 45 \<or> hd s = 43) then tl s else s);
          v = int (digits_value s 0)
      in if neg then max (- (2 ^ 63)) (- v) else min (2 ^ 63 - 1) v)"

definition atoi :: "cstr \<Rightarrow> int" where
  "atoi s = sint (word_of_int (strtol s) :: 32 word)"

text \<open>\<open>fgets\<close> with a buffer of \<open>n\<close> bytes: the line read and the rest of the file.\<close>

fun fgets :: "nat \<Rightarrow> bytes \<Rightarrow> bytes \<times> bytes" where
  "fgets 0 s = ([], s)"
| "fgets (Suc 0) s = ([], s)"
| "fgets (Suc (Suc n)) [] = ([], [])"
| "fgets (Suc (Suc n)) (c # s) =
     (if c = 10 then ([c], s) else case fgets (Suc n) s of (l, r) \<Rightarrow> (c # l, r))"

lemma fgets_rest: "length (snd (fgets n s)) \<le> length s"
  by (induction n s rule: fgets.induct) (auto split: prod.splits)

lemma fgets_less:
  assumes "fgets n (c # s) = (line, rest)" and "2 \<le> n"
  shows "length rest < Suc (length s)"
proof -
  obtain k where "n = Suc (Suc k)" using assms(2) by (metis add_2_eq_Suc le_Suc_ex)
  then show ?thesis
    using assms(1) fgets_rest [of "Suc k" s] by (auto split: if_splits prod.splits)
qed

text \<open>\<open>%d\<close> of \<open>fprintf\<close> for a count, and \<open>%d\<close> and \<open>%63s\<close> of \<open>fscanf\<close>.\<close>

fun dec_digits :: "nat \<Rightarrow> cstr" where
  "dec_digits n = (if n < 10 then [of_nat (48 + n)] else dec_digits (n div 10) @ [of_nat (48 + n mod 10)])"

declare dec_digits.simps [simp del]

definition scan_int :: "cstr \<Rightarrow> (int \<times> cstr) option" where
  "scan_int s =
     (let s = dropWhile c_isspace s;
          t = (if s \<noteq> [] \<and> (hd s = 45 \<or> hd s = 43) then tl s else s)
      in if t \<noteq> [] \<and> c_isdigit (hd t) then Some (atoi s, dropWhile c_isdigit t) else None)"

definition scan_word :: "nat \<Rightarrow> cstr \<Rightarrow> (cstr \<times> cstr) option" where
  "scan_word n s =
     (let s = dropWhile c_isspace s;
          w = takeWhile (\<lambda>c. \<not> c_isspace c) (take n s)
      in if w = [] then None else Some (w, drop (length w) s))"

text \<open>\<open>line[strcspn (line, "\\n")] = 0\<close>: the C string that is left.\<close>

definition chomp :: "cstr \<Rightarrow> cstr" where
  "chomp line = takeWhile (\<lambda>c. c \<noteq> 10 \<and> c \<noteq> 0) line"

end
