(* ===== verification/System.thy ===== *)
theory System imports CText Buffer Index Wal Parser begin

text \<open>
  What the table layer and the dispatcher share: the global variables of the program, the
  directory of files behind the path names, and the outcomes the environment gives to the
  calls that can fail. Each kind of outcome is a list whose head is taken by the next call;
  an exhausted list answers success (or a stack of zeros). A file that a descriptor names is
  an \<open>osfile\<close> on its own and is put back under its path when it is closed.
\<close>

record Env =
  e_files :: "cstr \<Rightarrow> bytes option"
  e_dirs :: "cstr list"
  e_open :: "bool list"
  e_io :: "io_outcome list list"
  e_mem :: "bool list"
  e_heap :: heap
  e_stack :: "bytes list"
  current_db :: cstr
  g_wal :: "WAL option"
  g_wal_file :: osfile
  txn_active :: bool
  current_txn :: u32

text \<open>The part of the state that no draw touches.\<close>

type_synonym core =
  "(cstr \<Rightarrow> bytes option) \<times> cstr list \<times> cstr \<times> WAL option \<times> osfile \<times> bool \<times> u32"

definition core :: "Env \<Rightarrow> core" where
  "core e = (e_files e, e_dirs e, current_db e, g_wal e, g_wal_file e, txn_active e, current_txn e)"

definition draw_open :: "Env \<Rightarrow> bool \<times> Env" where
  "draw_open e = (case e_open e of [] \<Rightarrow> (True, e) | x # xs \<Rightarrow> (x, e\<lparr>e_open := xs\<rparr>))"

definition draw_mem :: "Env \<Rightarrow> bool \<times> Env" where
  "draw_mem e = (case e_mem e of [] \<Rightarrow> (True, e) | x # xs \<Rightarrow> (x, e\<lparr>e_mem := xs\<rparr>))"

text \<open>The indeterminate contents of a local array of \<open>n\<close> bytes.\<close>

definition draw_stack :: "nat \<Rightarrow> Env \<Rightarrow> bytes \<times> Env" where
  "draw_stack n e =
     (case e_stack e of [] \<Rightarrow> (replicate n 0, e) | x # xs \<Rightarrow> (residue n x, e\<lparr>e_stack := xs\<rparr>))"

text \<open>\<open>open\<close> and \<open>close\<close>. Every open file has a schedule of I/O outcomes of its own.\<close>

definition new_file :: "Env \<Rightarrow> bytes \<Rightarrow> osfile \<times> Env" where
  "new_file e c =
     (case e_io e of
        [] \<Rightarrow> (\<lparr>fcontents = c, foffset = 0, fsched = []\<rparr>, e)
      | x # xs \<Rightarrow> (\<lparr>fcontents = c, foffset = 0, fsched = x\<rparr>, e\<lparr>e_io := xs\<rparr>))"

definition os_open :: "bool \<Rightarrow> Env \<Rightarrow> cstr \<Rightarrow> osfile option \<times> Env" where
  "os_open creat e path =
     (case draw_open e of
        (ok, e) \<Rightarrow>
          if \<not> ok then (None, e)
          else case e_files e path of
            Some c \<Rightarrow> (case new_file e c of (f, e) \<Rightarrow> (Some f, e))
          | None \<Rightarrow>
              if creat
              then (case new_file (e\<lparr>e_files := (e_files e)(path \<mapsto> [])\<rparr>) [] of (f, e) \<Rightarrow> (Some f, e))
              else (None, e))"

definition os_close :: "Env \<Rightarrow> cstr \<Rightarrow> osfile \<Rightarrow> Env" where
  "os_close e path f = e\<lparr>e_files := (e_files e)(path \<mapsto> fcontents f)\<rparr>"

text \<open>
  \<open>fopen\<close> for reading yields the contents. Text that is written goes to the file when the
  stream is closed.
\<close>

definition fopen_read :: "Env \<Rightarrow> cstr \<Rightarrow> bytes option \<times> Env" where
  "fopen_read e path =
     (case draw_open e of (ok, e) \<Rightarrow> (if ok then e_files e path else None, e))"

definition write_text :: "Env \<Rightarrow> cstr \<Rightarrow> bytes \<Rightarrow> bool \<times> Env" where
  "write_text e path text =
     (case draw_open e of
        (ok, e) \<Rightarrow> if ok then (True, e\<lparr>e_files := (e_files e)(path \<mapsto> text)\<rparr>) else (False, e))"

definition append_text :: "Env \<Rightarrow> cstr \<Rightarrow> bytes \<Rightarrow> bool \<times> Env" where
  "append_text e path text =
     (case draw_open e of
        (ok, e) \<Rightarrow>
          if ok
          then (True, e\<lparr>e_files := (e_files e)(path \<mapsto> (case e_files e path of None \<Rightarrow> [] | Some c \<Rightarrow> c) @ text)\<rparr>)
          else (False, e))"

definition os_remove :: "Env \<Rightarrow> cstr \<Rightarrow> Env" where
  "os_remove e path = e\<lparr>e_files := (e_files e)(path := None)\<rparr>"

definition os_rename :: "Env \<Rightarrow> cstr \<Rightarrow> cstr \<Rightarrow> Env" where
  "os_rename e old new =
     (case e_files e old of
        None \<Rightarrow> e
      | Some c \<Rightarrow> e\<lparr>e_files := ((e_files e)(old := None))(new \<mapsto> c)\<rparr>)"

definition os_stat :: "Env \<Rightarrow> cstr \<Rightarrow> bool" where
  "os_stat e path \<longleftrightarrow> path \<in> set (e_dirs e) \<or> e_files e path \<noteq> None"

definition os_mkdir :: "Env \<Rightarrow> cstr \<Rightarrow> bool \<times> Env" where
  "os_mkdir e path =
     (case draw_open e of
        (ok, e) \<Rightarrow>
          if ok \<and> \<not> os_stat e path then (True, e\<lparr>e_dirs := path # e_dirs e\<rparr>) else (False, e))"

end
