(* ===== verification/Table.thy ===== *)
theory Table imports System begin

text \<open>
  The tables of storage/Table/table.c: the path names, the catalog and schema files, the text
  of a row, and the operations on an open table. A row that is read back is whatever is in
  the row buffer up to the first zero byte; \<open>row_matches_where\<close> and \<open>get_col_value\<close> start
  \<open>strtok\<close> on the array \<open>tmp\<close> before it is filled, so their result depends on the residue of
  the stack, which is drawn from the environment.
\<close>

definition MAX_TABLE_NAME :: nat where "MAX_TABLE_NAME = 64"

lemma MAX_TABLE_NAME_eq [simp]: "MAX_TABLE_NAME = 64"
  by (simp add: MAX_TABLE_NAME_def)

text \<open>\<open>tb_path\<close> is the file that \<open>fd\<close> names, \<open>tb_file\<close> its state.\<close>

record Table =
  tb_name :: cstr
  tb_path :: cstr
  tb_file :: osfile
  tb_pool :: BufferPool
  tb_index :: "INDEX option"
  tb_page_count :: u32
  tb_col_defs :: "ColumnDef list"
  tb_col_count :: int
  tb_index_col :: nat

datatype TableResult = TABLE_OK | TABLE_NOT_FOUND | TABLE_ALREADY_EXISTS | TABLE_FULL | TABLE_ERROR

definition data_path :: "Env \<Rightarrow> cstr \<Rightarrow> cstr" where
  "data_path e name = take 255 (lit ''data/'' @ current_db e @ lit ''/'' @ name @ lit ''.db'')"

definition catalog_path :: "Env \<Rightarrow> cstr" where
  "catalog_path e = take 255 (lit ''data/'' @ current_db e @ lit ''/catalog.db'')"

definition schema_path :: "Env \<Rightarrow> cstr \<Rightarrow> cstr" where
  "schema_path e name = take 255 (lit ''data/'' @ current_db e @ lit ''/'' @ name @ lit ''.schema'')"

definition catalog_add :: "Env \<Rightarrow> cstr \<Rightarrow> Env" where
  "catalog_add e name = snd (append_text e (catalog_path e) (name @ [10]))"

function catalog_loop :: "cstr \<Rightarrow> bytes \<Rightarrow> bytes" where
  "catalog_loop name [] = []"
| "catalog_loop name (c # s) =
     (case fgets MAX_TABLE_NAME (c # s) of
        (line, rest) \<Rightarrow>
          (if chomp line \<noteq> name then chomp line @ [10] else []) @ catalog_loop name rest)"
  by pat_completeness auto
termination
proof (relation "measure (\<lambda>(name, s). length s)", goal_cases)
  case 2
  then show ?case using fgets_less by (auto dest: sym)
qed simp

definition catalog_remove :: "Env \<Rightarrow> cstr \<Rightarrow> Env" where
  "catalog_remove e name =
     (let path = catalog_path e;
          tmp_path = take 255 (lit ''data/'' @ current_db e @ lit ''/catalog.tmp'')
      in case fopen_read e path of
           (None, e) \<Rightarrow> e
         | (Some text, e) \<Rightarrow>
             (case write_text e tmp_path (catalog_loop name text) of
                (False, e) \<Rightarrow> e
              | (True, e) \<Rightarrow> os_rename e tmp_path path))"

definition schema_text :: "ColumnDef list \<Rightarrow> bytes" where
  "schema_text cols =
     dec_digits (length cols) @ [10] @ concat (map (\<lambda>cd. cd_name cd @ [32] @ cd_type cd @ [10]) cols)"

definition save_schema :: "Env \<Rightarrow> cstr \<Rightarrow> ColumnDef list \<Rightarrow> bool \<times> Env" where
  "save_schema e name cols = write_text e (schema_path e name) (schema_text cols)"

text \<open>
  \<open>fscanf (f, "%63s %63s\\n", cols[i].name, cols[i].type)\<close> for \<open>i < count\<close>; the result of
  \<open>fscanf\<close> is ignored. \<open>None\<close> is a column behind the array.
\<close>

fun load_columns :: "nat \<Rightarrow> nat \<Rightarrow> cstr \<Rightarrow> ColumnDef list \<Rightarrow> ColumnDef list option" where
  "load_columns i 0 s cols = Some cols"
| "load_columns i (Suc n) s cols =
     (if length cols \<le> i then None
      else case scan_word (MAX_NAME_LEN - 1) s of
        None \<Rightarrow> load_columns (Suc i) n (dropWhile c_isspace s) cols
      | Some (nm, s) \<Rightarrow>
          (let cols = cols[i := (cols ! i)\<lparr>cd_name := nm\<rparr>] in
           case scan_word (MAX_NAME_LEN - 1) s of
             None \<Rightarrow> load_columns (Suc i) n (dropWhile c_isspace s) cols
           | Some (ty, s) \<Rightarrow>
               load_columns (Suc i) n (dropWhile c_isspace s) (cols[i := (cols ! i)\<lparr>cd_type := ty\<rparr>])))"

definition zero_columns :: "ColumnDef list" where
  "zero_columns = replicate MAX_COLUMNS \<lparr>cd_name = [], cd_type = []\<rparr>"

text \<open>\<open>load_schema\<close> into the zeroed arrays of a new table: \<open>Inl\<close> is the result -1.\<close>

definition load_schema :: "Env \<Rightarrow> cstr \<Rightarrow> ((unit + ColumnDef list \<times> int) \<times> Env) option" where
  "load_schema e name =
     (case fopen_read e (schema_path e name) of
        (None, e) \<Rightarrow> Some (Inl (), e)
      | (Some s, e) \<Rightarrow>
          (case scan_int s of
             None \<Rightarrow> Some (Inr (zero_columns, 0), e)
           | Some (count, s) \<Rightarrow> do {
               cols \<leftarrow> load_columns 0 (nat count) (dropWhile c_isspace s) zero_columns;
               Some (Inr (cols, count), e)
             }))"

text \<open>\<open>serialise_row\<close>: the row buffer, and the length with its terminator.\<close>

fun serialise_loop :: "cstr list \<Rightarrow> bytes \<Rightarrow> nat \<Rightarrow> (bytes \<times> nat) option" where
  "serialise_loop [] buf pos = Some (buf, pos)"
| "serialise_loop (v # vs) buf pos = do {
     buf \<leftarrow> snprintf_at buf pos v;
     let pos = pos + length v;
     if vs \<noteq> [] \<and> pos < length buf - 1
     then serialise_loop vs (buf[pos := ch CHR ''|'']) (pos + 1)
     else serialise_loop vs buf pos
   }"

definition serialise_row :: "Intent \<Rightarrow> bytes \<Rightarrow> (bytes \<times> u16) option" where
  "serialise_row intent buf = do {
     (buf, pos) \<leftarrow> serialise_loop (it_values intent) buf 0;
     buf \<leftarrow> mem_write buf pos [0];
     Some (buf, of_nat (pos + 1))
   }"

definition TMP_SIZE :: nat where "TMP_SIZE = MAX_VALUE_LEN * MAX_COLUMNS"

lemma TMP_SIZE_eq [simp]: "TMP_SIZE = 8192"
  by (simp add: TMP_SIZE_def)

text \<open>\<open>strncpy (tmp, row, sizeof (tmp) - 1); tmp[sizeof (tmp) - 1] = 0\<close>\<close>

definition fill_tmp :: "nat \<Rightarrow> bytes \<Rightarrow> bytes option" where
  "fill_tmp n row = do { s \<leftarrow> strncpy_src row (n - 1); Some (strncpy_bytes s (n - 1) @ [0]) }"

text \<open>
  The common core of the two readers of a field: \<open>strtok\<close> on the unfilled array, then the row
  is copied in, and \<open>col_idx\<close> further calls go on from the saved position.
\<close>

definition field_token :: "bytes \<Rightarrow> bytes \<Rightarrow> nat \<Rightarrow> cstr option option" where
  "field_token tmp row col_idx = do {
     (tok, _, saved) \<leftarrow> strtok (ch CHR ''|'') tmp 0;
     tmp \<leftarrow> fill_tmp (length tmp) row;
     (tok, tmp, _) \<leftarrow> next_toks (ch CHR ''|'') col_idx (tok, tmp, saved);
     (case tok of
        None \<Rightarrow> Some None
      | Some t \<Rightarrow> do { s \<leftarrow> str_at (drop t tmp); Some (Some s) })
   }"

text \<open>The scan \<open>for (i = 0; i < col_count; i++) if (strcmp (...) == 0) ...\<close>.\<close>

definition find_col :: "(ColumnDef \<Rightarrow> bool) \<Rightarrow> Table \<Rightarrow> nat option" where
  "find_col P t = first_from P 0 (take (nat (tb_col_count t)) (tb_col_defs t))"

definition row_matches_where :: "Env \<Rightarrow> bytes \<Rightarrow> Intent \<Rightarrow> Table \<Rightarrow> (bool \<times> Env) option" where
  "row_matches_where e row intent t =
     (case draw_stack TMP_SIZE e of
        (tmp, e) \<Rightarrow> do {
          _ \<leftarrow> strtok (ch CHR ''|'') tmp 0;
          if \<not> wh_active (it_where intent) then Some (True, e)
          else case find_col (\<lambda>cd. cd_name cd = wh_column (it_where intent)) t of
            None \<Rightarrow> Some (False, e)
          | Some col_idx \<Rightarrow> do {
              tok \<leftarrow> field_token tmp row col_idx;
              Some (tok = Some (wh_value (it_where intent)), e)
            }
        })"

definition get_col_value :: "Env \<Rightarrow> bytes \<Rightarrow> nat \<Rightarrow> nat \<Rightarrow> (cstr \<times> Env) option" where
  "get_col_value e row col_idx out_size =
     (case draw_stack TMP_SIZE e of
        (tmp, e) \<Rightarrow> do {
          tok \<leftarrow> field_token tmp row col_idx;
          Some (case tok of Some s \<Rightarrow> take (out_size - 1) s | None \<Rightarrow> [], e)
        })"

definition find_index_col :: "Table \<Rightarrow> nat" where
  "find_index_col t = (case find_col (\<lambda>cd. cd_type cd = lit ''INT'') t of Some i \<Rightarrow> i | None \<Rightarrow> 0)"

definition wal_log_row :: "Env \<Rightarrow> u8 \<Rightarrow> cstr \<Rightarrow> bytes \<Rightarrow> u16 \<Rightarrow> u32 \<Rightarrow> Env option" where
  "wal_log_row e ty table_name row len pid =
     (case g_wal e of
        None \<Rightarrow> Some e
      | Some _ \<Rightarrow>
          (case wal_begin (g_wal e) (g_wal_file e) of
             (_, txn, wal, f) \<Rightarrow> do {
               txn \<leftarrow> txn;
               (_, wal, f) \<leftarrow> wal_write wal f txn ty table_name (Some row) len pid;
               (case wal_commit wal f txn of
                  (_, wal, f) \<Rightarrow> Some (e\<lparr>g_wal := wal, g_wal_file := f\<rparr>))
             }))"

end
