(* ===== verification/TableOps.thy ===== *)
theory TableOps imports Table begin

text \<open>
  The operations of storage/Table/table.c on an open table. The steps on a pinned frame
  (locking, page operation, unlocking) are functions of their own; a loop over the pages is a
  recursion over the list of page ids, with \<open>continue\<close> as the recursive call.
\<close>

text \<open>Calls of the layers below, with the state threaded through.\<close>

definition tb_pin :: "Table \<Rightarrow> Env \<Rightarrow> u32 \<Rightarrow> nat option \<times> Table \<times> Env" where
  "tb_pin t e pid =
     (case draw_mem e of
        (mem, e) \<Rightarrow>
          (case buf_pin mem (tb_pool t) (tb_file t) pid of
             (r, pool, f) \<Rightarrow> (r, t\<lparr>tb_pool := pool, tb_file := f\<rparr>, e)))"

definition tb_new_page :: "Table \<Rightarrow> Env \<Rightarrow> u32 \<Rightarrow> nat option \<times> Table \<times> Env" where
  "tb_new_page t e pid =
     (case draw_mem e of
        (mem, e) \<Rightarrow>
          (case buf_new_page mem (tb_pool t) (tb_file t) pid of
             (r, pool, f) \<Rightarrow> (r, t\<lparr>tb_pool := pool, tb_file := f\<rparr>, e)))"

definition tb_unpin :: "Table \<Rightarrow> nat \<Rightarrow> Table" where
  "tb_unpin t i = t\<lparr>tb_pool := buf_unpin (tb_pool t) (Some i)\<rparr>"

definition tb_mark_dirty :: "Table \<Rightarrow> nat \<Rightarrow> Table" where
  "tb_mark_dirty t i = t\<lparr>tb_pool := buf_mark_dirty (tb_pool t) (Some i)\<rparr>"

definition frame_page :: "Table \<Rightarrow> nat \<Rightarrow> page option" where
  "frame_page t i = fr_page (frames (tb_pool t) ! i)"

definition frame_set_page :: "Table \<Rightarrow> nat \<Rightarrow> page \<Rightarrow> Table" where
  "frame_set_page t i p = t\<lparr>tb_pool := upd_frame (tb_pool t) i (\<lambda>fr. fr\<lparr>fr_page := Some p\<rparr>)\<rparr>"

definition frame_lock :: "Table \<Rightarrow> nat \<Rightarrow> RWLock" where
  "frame_lock t i = fr_lock (frames (tb_pool t) ! i)"

definition frame_set_lock :: "Table \<Rightarrow> nat \<Rightarrow> RWLock \<Rightarrow> Table" where
  "frame_set_lock t i l = t\<lparr>tb_pool := upd_frame (tb_pool t) i (\<lambda>fr. fr\<lparr>fr_lock := l\<rparr>)\<rparr>"

text \<open>
  The lock calls on a frame. The callers ignore the result, and the unlock behind the access is
  not conditional: after a failed call the page is used without the lock.
\<close>

definition frame_write_lock :: "Table \<Rightarrow> nat \<Rightarrow> Table option" where
  "frame_write_lock t i = do {
     (_, l) \<leftarrow> rwlock_write_lock (wrlock_ok (lock (frame_lock t i))) (frame_lock t i);
     Some (frame_set_lock t i l)
   }"

definition frame_write_unlock :: "Table \<Rightarrow> nat \<Rightarrow> Table" where
  "frame_write_unlock t i = frame_set_lock t i (rwlock_write_unlock (frame_lock t i))"

definition frame_read_lock :: "Table \<Rightarrow> nat \<Rightarrow> Table option" where
  "frame_read_lock t i = do {
     (_, l) \<leftarrow> rwlock_read_lock (rdlock_ok (lock (frame_lock t i))) (frame_lock t i);
     Some (frame_set_lock t i l)
   }"

definition frame_read_unlock :: "Table \<Rightarrow> nat \<Rightarrow> Table" where
  "frame_read_unlock t i = frame_set_lock t i (rwlock_read_unlock (frame_lock t i))"

definition frame_insert ::
  "Table \<Rightarrow> nat \<Rightarrow> bytes \<Rightarrow> u16 \<Rightarrow> (Table \<times> PageResult \<times> u16 option) option" where
  "frame_insert t i row len = do {
     t \<leftarrow> frame_write_lock t i;
     p \<leftarrow> frame_page t i;
     (p, pr, slot) \<leftarrow> page_insert p row len;
     Some (frame_write_unlock (frame_set_page t i p) i, pr, slot)
   }"

definition frame_read ::
  "Table \<Rightarrow> nat \<Rightarrow> u16 \<Rightarrow> bytes \<Rightarrow> (Table \<times> PageResult \<times> bytes \<times> u16 option) option" where
  "frame_read t i s buf = do {
     t \<leftarrow> frame_read_lock t i;
     p \<leftarrow> frame_page t i;
     (pr, buf, len) \<leftarrow> page_read p s buf (of_nat PAGE_SIZE);
     Some (frame_read_unlock t i, pr, buf, len)
   }"

definition frame_delete :: "Table \<Rightarrow> nat \<Rightarrow> u16 \<Rightarrow> (Table \<times> PageResult) option" where
  "frame_delete t i s = do {
     t \<leftarrow> frame_write_lock t i;
     p \<leftarrow> frame_page t i;
     (p, pr) \<leftarrow> page_delete p s;
     Some (frame_write_unlock (frame_set_page t i p) i, pr)
   }"

definition index_insert :: "Table \<Rightarrow> Env \<Rightarrow> int \<Rightarrow> RowLocation \<Rightarrow> (Table \<times> Env) option" where
  "index_insert t e key loc =
     (case tb_index t of
        None \<Rightarrow> Some (t, e)
      | Some ix \<Rightarrow> do {
          (ix, _, h) \<leftarrow> INDEX_insert (e_heap e) ix key loc;
          Some (t\<lparr>tb_index := Some ix\<rparr>, e\<lparr>e_heap := h\<rparr>)
        })"

definition index_delete :: "Table \<Rightarrow> int \<Rightarrow> Table option" where
  "index_delete t key =
     (case tb_index t of
        None \<Rightarrow> Some t
      | Some ix \<Rightarrow> do { (ix, _) \<leftarrow> INDEX_delete ix key; Some (t\<lparr>tb_index := Some ix\<rparr>) })"

text \<open>The key of a row: the text of the index column up to the size of \<open>key_str\<close>.\<close>

definition row_key :: "Table \<Rightarrow> Env \<Rightarrow> bytes \<Rightarrow> (int \<times> Env) option" where
  "row_key t e row = do {
     (key_str, e) \<leftarrow> get_col_value e row (tb_index_col t) MAX_VALUE_LEN;
     Some (atoi key_str, e)
   }"

definition index_row :: "Table \<Rightarrow> Env \<Rightarrow> bytes \<Rightarrow> u32 \<Rightarrow> u16 \<Rightarrow> (Table \<times> Env) option" where
  "index_row t e row pid slot = do {
     (key, e) \<leftarrow> row_key t e row;
     index_insert t e key \<lparr>page_id = pid, slot_id = slot\<rparr>
   }"

text \<open>\<open>for (pid = 0; pid < page_count; pid++)\<close> and \<open>for (s = 0; s < slot_count; s++)\<close>.\<close>

definition pids :: "Table \<Rightarrow> u32 list" where
  "pids t = map of_nat [0 ..< unat (tb_page_count t)]"

definition slot_ids :: "page \<Rightarrow> u16 list" where
  "slot_ids p = map of_nat [0 ..< unat (hdr_slot_count p)]"

text \<open>
  \<open>table_insert\<close> and \<open>table_insert_raw\<close> differ in where the row comes from and in the log
  record, which is the argument \<open>log\<close>.
\<close>

fun insert_pages ::
  "(Env \<Rightarrow> u32 \<Rightarrow> Env option) \<Rightarrow> bytes \<Rightarrow> u16 \<Rightarrow> u32 list \<Rightarrow> Table \<Rightarrow> Env \<Rightarrow>
     (bool \<times> Table \<times> Env) option" where
  "insert_pages log row len [] t e = Some (False, t, e)"
| "insert_pages log row len (pid # ps) t e =
     (case tb_pin t e pid of
        (None, t, e) \<Rightarrow> insert_pages log row len ps t e
      | (Some i, t, e) \<Rightarrow> do {
          (t, pr, slot) \<leftarrow> frame_insert t i row len;
          if pr \<noteq> PAGE_OK then insert_pages log row len ps (tb_unpin t i) e
          else do {
            e \<leftarrow> log e pid;
            let t = tb_mark_dirty t i;
            slot \<leftarrow> slot;
            (t, e) \<leftarrow> index_row t e row pid slot;
            Some (True, tb_unpin t i, e)
          }
        })"

definition insert_new_page ::
  "(Env \<Rightarrow> u32 \<Rightarrow> Env option) \<Rightarrow> bytes \<Rightarrow> u16 \<Rightarrow> u32 \<Rightarrow> Table \<Rightarrow> Env \<Rightarrow>
     (TableResult \<times> Table \<times> Env) option" where
  "insert_new_page log row len new_pid t e =
     (case tb_new_page t e new_pid of
        (None, t, e) \<Rightarrow> Some (TABLE_ERROR, t, e)
      | (Some i, t, e) \<Rightarrow> do {
          (t, pr, slot) \<leftarrow> frame_insert t i row len;
          if pr \<noteq> PAGE_OK then Some (TABLE_ERROR, tb_unpin t i, e)
          else do {
            e \<leftarrow> log e new_pid;
            let t = tb_mark_dirty t i;
            let t = t\<lparr>tb_page_count := tb_page_count t + 1\<rparr>;
            slot \<leftarrow> slot;
            (t, e) \<leftarrow> index_row t e row new_pid slot;
            Some (TABLE_OK, tb_unpin t i, e)
          }
        })"

definition table_insert :: "Table \<Rightarrow> Env \<Rightarrow> Intent \<Rightarrow> (TableResult \<times> Table \<times> Env) option" where
  "table_insert t e intent =
     (case draw_stack PAGE_SIZE e of
        (buf, e) \<Rightarrow> do {
          let new_pid = tb_page_count t;
          (row, len) \<leftarrow> serialise_row intent buf;
          let log = (\<lambda>e pid. wal_log_row e WAL_INSERT (tb_name t) row len pid);
          (ok, t, e) \<leftarrow> insert_pages log row len (pids t) t e;
          if ok then Some (TABLE_OK, t, e) else insert_new_page log row len new_pid t e
        })"

definition table_insert_raw :: "Table \<Rightarrow> Env \<Rightarrow> bytes \<Rightarrow> u16 \<Rightarrow> (TableResult \<times> Table \<times> Env) option" where
  "table_insert_raw t e row len = do {
     let log = (\<lambda>e pid. Some e);
     (ok, t, e) \<leftarrow> insert_pages log row len (pids t) t e;
     if ok then Some (TABLE_OK, t, e) else insert_new_page log row len (tb_page_count t) t e
   }"

text \<open>\<open>table_open\<close>: the rows are entered into the index in the order of pages and slots.\<close>

fun load_slots ::
  "u32 \<Rightarrow> nat \<Rightarrow> u16 list \<Rightarrow> Table \<Rightarrow> Env \<Rightarrow> bytes \<Rightarrow> (Table \<times> Env \<times> bytes) option" where
  "load_slots pid i [] t e buf = Some (t, e, buf)"
| "load_slots pid i (s # ss) t e buf = do {
     p \<leftarrow> frame_page t i;
     (pr, buf, len) \<leftarrow> page_read p s buf (of_nat PAGE_SIZE);
     if pr \<noteq> PAGE_OK then load_slots pid i ss t e buf
     else do { (t, e) \<leftarrow> index_row t e buf pid s; load_slots pid i ss t e buf }
   }"

fun load_pages :: "u32 list \<Rightarrow> Table \<Rightarrow> Env \<Rightarrow> bytes \<Rightarrow> (Table \<times> Env \<times> bytes) option" where
  "load_pages [] t e buf = Some (t, e, buf)"
| "load_pages (pid # ps) t e buf =
     (case tb_pin t e pid of
        (None, t, e) \<Rightarrow> load_pages ps t e buf
      | (Some i, t, e) \<Rightarrow> do {
          p \<leftarrow> frame_page t i;
          (t, e, buf) \<leftarrow> load_slots pid i (slot_ids p) t e buf;
          load_pages ps (tb_unpin t i) e buf
        })"

definition table_exists :: "Env \<Rightarrow> cstr \<Rightarrow> bool" where
  "table_exists e name \<longleftrightarrow> os_stat e (data_path e name)"

definition table_open :: "Env \<Rightarrow> cstr \<Rightarrow> (Table option \<times> Env) option" where
  "table_open e name =
     (if \<not> table_exists e name then Some (None, e)
      else case draw_mem e of
        (mem, e) \<Rightarrow>
          if \<not> mem then Some (None, e)
          else do {
            (r, e) \<leftarrow> load_schema e name;
            (case r of
               Inl _ \<Rightarrow> Some (None, e)
             | Inr (cols, count) \<Rightarrow>
                 (case os_open False e (data_path e name) of
                    (None, e) \<Rightarrow> Some (None, e)
                  | (Some f, e) \<Rightarrow>
                      (case os_lseek_end f of
                         (ok, f) \<Rightarrow>
                           (case INDEX_create (e_heap e) of
                              (ix, h) \<Rightarrow> do {
                                let e = e\<lparr>e_heap := h\<rparr>;
                                let t = \<lparr>tb_name = take (MAX_TABLE_NAME - 1) name, tb_path = data_path e name,
                                         tb_file = f, tb_pool = buf_init, tb_index = ix,
                                         tb_page_count = (if ok then of_nat (foffset f div PAGE_SIZE) else 0),
                                         tb_col_defs = cols, tb_col_count = count, tb_index_col = 0\<rparr>;
                                let t = t\<lparr>tb_index_col := find_index_col t\<rparr>;
                                let (buf, e) = draw_stack PAGE_SIZE e;
                                (t, e, _) \<leftarrow> load_pages (pids t) t e buf;
                                Some (Some t, e)
                              }))))
          })"

text \<open>\<open>INDEX_destroy\<close> and \<open>free\<close> only release memory.\<close>

definition table_close :: "Table \<Rightarrow> Env \<Rightarrow> Env" where
  "table_close t e =
     (case buf_destroy (tb_pool t) (tb_file t) of (pool, f) \<Rightarrow> os_close e (tb_path t) f)"

fun flush_pages :: "u32 list \<Rightarrow> Table \<Rightarrow> Env \<Rightarrow> (Table \<times> Env) option" where
  "flush_pages [] t e = Some (t, e)"
| "flush_pages (pid # ps) t e =
     (case tb_pin t e pid of
        (None, t, e) \<Rightarrow> flush_pages ps t e
      | (Some i, t, e) \<Rightarrow> do {
          t \<leftarrow> frame_write_lock t i;
          t \<leftarrow> (if fr_dirty (frames (tb_pool t) ! i)
               then do {
                 p \<leftarrow> frame_page t i;
                 let (pr, p, f) = page_write_disk p (tb_file t);
                 let t = (frame_set_page t i p)\<lparr>tb_file := f\<rparr>;
                 pool \<leftarrow> buf_mark_clean (tb_pool t) (Some i);
                 Some (t\<lparr>tb_pool := pool\<rparr>)
               }
               else Some t);
          flush_pages ps (tb_unpin (frame_write_unlock t i) i) e
        })"

definition table_flush :: "Table \<Rightarrow> Env \<Rightarrow> (Table \<times> Env) option" where
  "table_flush t e = flush_pages (pids t) t e"

end
