(* ===== verification/TableDml.thy ===== *)
theory TableDml imports TableOps begin

text \<open>
  The rest of storage/Table/table.c: start-up, creating and dropping a table, and the scans of
  \<open>SELECT\<close>, \<open>DELETE\<close> and \<open>UPDATE\<close>. What \<open>table_scan\<close> prints of a row is the list of its
  fields; the headings and the counts are left out.
\<close>

definition table_subsystem_init :: "Env \<Rightarrow> Env" where
  "table_subsystem_init e =
     (let e = (if \<not> os_stat e (lit ''data'') then snd (os_mkdir e (lit ''data'')) else e);
          db_path = take 127 (lit ''data/'' @ current_db e)
      in if \<not> os_stat e db_path then snd (os_mkdir e db_path) else e)"

definition table_create :: "Env \<Rightarrow> Intent \<Rightarrow> TableResult \<times> Env" where
  "table_create e intent =
     (if table_exists e (it_table intent) then (TABLE_ALREADY_EXISTS, e)
      else
        let path = data_path e (it_table intent) in
        case os_open True e path of
          (None, e) \<Rightarrow> (TABLE_ERROR, e)
        | (Some f, e) \<Rightarrow>
            (case draw_mem e of
               (mem, e) \<Rightarrow>
                 (case page_alloc mem 0 of
                    None \<Rightarrow> (TABLE_ERROR, os_close e path f)
                  | Some page \<Rightarrow>
                      (case page_write_disk page f of
                         (pr, page, f) \<Rightarrow>
                           let e = os_close e path f in
                           if pr \<noteq> PAGE_OK then (TABLE_ERROR, e)
                           else case save_schema e (it_table intent) (it_columns intent) of
                             (False, e) \<Rightarrow> (TABLE_ERROR, e)
                           | (True, e) \<Rightarrow> (TABLE_OK, catalog_add e (it_table intent))))))"

definition table_drop :: "Env \<Rightarrow> cstr \<Rightarrow> TableResult \<times> Env" where
  "table_drop e name =
     (if \<not> table_exists e name then (TABLE_NOT_FOUND, e)
      else
        let e = os_remove e (data_path e name);
            e = os_remove e (schema_path e name)
        in (TABLE_OK, catalog_remove e name))"

text \<open>The fields of a row as they are printed: \<open>tmp\<close> is filled before \<open>strtok\<close> here.\<close>

definition row_fields :: "bytes \<Rightarrow> cstr list option" where
  "row_fields buf = do {
     tmp \<leftarrow> fill_tmp PAGE_SIZE buf;
     tokens_from (ch CHR ''|'') tmp 0
   }"

fun scan_slots ::
  "Intent \<Rightarrow> nat \<Rightarrow> u16 list \<Rightarrow> Table \<Rightarrow> Env \<Rightarrow> bytes \<Rightarrow> (cstr list list \<times> Table \<times> Env \<times> bytes) option" where
  "scan_slots intent i [] t e buf = Some ([], t, e, buf)"
| "scan_slots intent i (s # ss) t e buf = do {
     (t, pr, buf, len) \<leftarrow> frame_read t i s buf;
     if pr \<noteq> PAGE_OK then scan_slots intent i ss t e buf
     else do {
       (hit, e) \<leftarrow> row_matches_where e buf intent t;
       if \<not> hit then scan_slots intent i ss t e buf
       else do {
         fields \<leftarrow> row_fields buf;
         (rs, t, e, buf) \<leftarrow> scan_slots intent i ss t e buf;
         Some (fields # rs, t, e, buf)
       }
     }
   }"

fun scan_pages ::
  "Intent \<Rightarrow> u32 list \<Rightarrow> Table \<Rightarrow> Env \<Rightarrow> bytes \<Rightarrow> (cstr list list \<times> Table \<times> Env) option" where
  "scan_pages intent [] t e buf = Some ([], t, e)"
| "scan_pages intent (pid # ps) t e buf =
     (case tb_pin t e pid of
        (None, t, e) \<Rightarrow> scan_pages intent ps t e buf
      | (Some i, t, e) \<Rightarrow> do {
          p \<leftarrow> frame_page t i;
          (rs, t, e, buf) \<leftarrow> scan_slots intent i (slot_ids p) t e buf;
          (rs', t, e) \<leftarrow> scan_pages intent ps (tb_unpin t i) e buf;
          Some (rs @ rs', t, e)
        })"

definition lookup_row ::
  "Intent \<Rightarrow> Table \<Rightarrow> Env \<Rightarrow> bytes \<Rightarrow> (cstr list list \<times> Table \<times> Env) option" where
  "lookup_row intent t e buf =
     (case tb_index t of
        None \<Rightarrow> Some ([], t, e)
      | Some ix \<Rightarrow> do {
          (r, loc) \<leftarrow> INDEX_search ix (atoi (wh_value (it_where intent)));
          (if r \<noteq> INDEX_OK then Some ([], t, e)
           else do {
             loc \<leftarrow> loc;
             (case tb_pin t e (page_id loc) of
                (None, t, e) \<Rightarrow> Some ([], t, e)
              | (Some i, t, e) \<Rightarrow> do {
                  (t, pr, buf, len) \<leftarrow> frame_read t i (slot_id loc) buf;
                  rs \<leftarrow> (if pr = PAGE_OK then do { fs \<leftarrow> row_fields buf; Some [fs] } else Some []);
                  Some (rs, tb_unpin t i, e)
                })
           })
        })"

text \<open>Whether the condition is on the index column, so that the index is used.\<close>

definition on_index :: "Table \<Rightarrow> Intent \<Rightarrow> bool" where
  "on_index t intent \<longleftrightarrow>
     wh_active (it_where intent) \<and> cd_name (tb_col_defs t ! tb_index_col t) = wh_column (it_where intent)"

definition table_scan :: "Table \<Rightarrow> Env \<Rightarrow> Intent \<Rightarrow> (cstr list list \<times> Table \<times> Env) option" where
  "table_scan t e intent =
     (case draw_stack PAGE_SIZE e of
        (buf, e) \<Rightarrow>
          if on_index t intent then lookup_row intent t e buf
          else scan_pages intent (pids t) t e buf)"

fun delete_slots ::
  "Intent \<Rightarrow> u32 \<Rightarrow> nat \<Rightarrow> u16 list \<Rightarrow> Table \<Rightarrow> Env \<Rightarrow> bytes \<Rightarrow> nat \<Rightarrow>
     (Table \<times> Env \<times> bytes \<times> nat) option" where
  "delete_slots intent pid i [] t e buf n = Some (t, e, buf, n)"
| "delete_slots intent pid i (s # ss) t e buf n = do {
     (t, pr, buf, len) \<leftarrow> frame_read t i s buf;
     if pr \<noteq> PAGE_OK then delete_slots intent pid i ss t e buf n
     else do {
       (hit, e) \<leftarrow> row_matches_where e buf intent t;
       if \<not> hit then delete_slots intent pid i ss t e buf n
       else do {
         len \<leftarrow> len;
         e \<leftarrow> wal_log_row e WAL_DELETE (tb_name t) buf len pid;
         (t, del_pr) \<leftarrow> frame_delete t i s;
         if del_pr \<noteq> PAGE_OK then delete_slots intent pid i ss t e buf n
         else do {
           let t = tb_mark_dirty t i;
           (key, e) \<leftarrow> row_key t e buf;
           t \<leftarrow> index_delete t key;
           delete_slots intent pid i ss t e buf (n + 1)
         }
       }
     }
   }"

fun delete_pages ::
  "Intent \<Rightarrow> u32 list \<Rightarrow> Table \<Rightarrow> Env \<Rightarrow> bytes \<Rightarrow> nat \<Rightarrow> (Table \<times> Env \<times> nat) option" where
  "delete_pages intent [] t e buf n = Some (t, e, n)"
| "delete_pages intent (pid # ps) t e buf n =
     (case tb_pin t e pid of
        (None, t, e) \<Rightarrow> delete_pages intent ps t e buf n
      | (Some i, t, e) \<Rightarrow> do {
          p \<leftarrow> frame_page t i;
          (t, e, buf, n) \<leftarrow> delete_slots intent pid i (slot_ids p) t e buf n;
          delete_pages intent ps (tb_unpin t i) e buf n
        })"

text \<open>The number of deleted rows is what the routine prints.\<close>

definition table_delete :: "Table \<Rightarrow> Env \<Rightarrow> Intent \<Rightarrow> (TableResult \<times> nat \<times> Table \<times> Env) option" where
  "table_delete t e intent =
     (case draw_stack PAGE_SIZE e of
        (buf, e) \<Rightarrow> do {
          (t, e, n) \<leftarrow> delete_pages intent (pids t) t e buf 0;
          Some (TABLE_OK, n, t, e)
        })"

text \<open>
  The loop of \<open>table_update\<close> that writes the new row: field \<open>col_idx\<close> gets the new value.
\<close>

fun build_row :: "nat \<Rightarrow> cstr \<Rightarrow> nat \<Rightarrow> cstr list \<Rightarrow> bytes \<Rightarrow> nat \<Rightarrow> (bytes \<times> nat) option" where
  "build_row col_idx v ci [] new_row pos = Some (new_row, pos)"
| "build_row col_idx v ci (tok # toks) new_row pos = do {
     new_row \<leftarrow> (if ci > 0 then mem_write new_row pos [ch CHR ''|''] else Some new_row);
     let pos = (if ci > 0 then pos + 1 else pos);
     let val = (if ci = col_idx then v else tok);
     new_row \<leftarrow> snprintf_at new_row pos val;
     build_row col_idx v (ci + 1) toks new_row (pos + length val)
   }"

definition updated_row :: "bytes \<Rightarrow> bytes \<Rightarrow> nat \<Rightarrow> cstr \<Rightarrow> (bytes \<times> nat) option" where
  "updated_row new_row buf col_idx v = do {
     toks \<leftarrow> row_fields buf;
     (new_row, pos) \<leftarrow> build_row col_idx v 0 toks new_row 0;
     new_row \<leftarrow> mem_write new_row pos [0];
     Some (new_row, pos + 1)
   }"

text \<open>Deleting the old row and inserting the new one, under one lock.\<close>

definition frame_replace ::
  "Table \<Rightarrow> nat \<Rightarrow> u16 \<Rightarrow> bytes \<Rightarrow> u16 \<Rightarrow> (Table \<times> PageResult \<times> PageResult \<times> u16) option" where
  "frame_replace t i s row len = do {
     t \<leftarrow> frame_write_lock t i;
     p \<leftarrow> frame_page t i;
     (p, del_pr) \<leftarrow> page_delete p s;
     (p, ins_pr, new_slot) \<leftarrow>
       (if del_pr = PAGE_OK
        then do { (p, pr, slot) \<leftarrow> page_insert p row len; Some (p, pr, case slot of Some x \<Rightarrow> x | None \<Rightarrow> 0) }
        else Some (p, PAGE_ERROR, 0));
     Some (frame_write_unlock (frame_set_page t i p) i, del_pr, ins_pr, new_slot)
   }"

fun update_slots ::
  "Intent \<Rightarrow> u32 \<Rightarrow> nat \<Rightarrow> u16 list \<Rightarrow> Table \<Rightarrow> Env \<Rightarrow> bytes \<Rightarrow> nat \<Rightarrow>
     (Table \<times> Env \<times> bytes \<times> nat) option" where
  "update_slots intent pid i [] t e buf n = Some (t, e, buf, n)"
| "update_slots intent pid i (s # ss) t e buf n = do {
     (t, pr, buf, len) \<leftarrow> frame_read t i s buf;
     if pr \<noteq> PAGE_OK then update_slots intent pid i ss t e buf n
     else do {
       (hit, e) \<leftarrow> row_matches_where e buf intent t;
       if \<not> hit then update_slots intent pid i ss t e buf n
       else (case find_col (\<lambda>cd. cd_name cd = sc_column (it_set intent)) t of
          None \<Rightarrow> update_slots intent pid i ss t e buf n
        | Some col_idx \<Rightarrow> do {
            let (junk, e) = draw_stack PAGE_SIZE e;
            (new_row, pos) \<leftarrow> updated_row junk buf col_idx (sc_value (it_set intent));
            e \<leftarrow> wal_log_row e WAL_UPDATE (tb_name t) new_row (of_nat pos) pid;
            (t, del_pr, ins_pr, new_slot) \<leftarrow> frame_replace t i s new_row (of_nat pos);
            if del_pr \<noteq> PAGE_OK \<or> ins_pr \<noteq> PAGE_OK then update_slots intent pid i ss t e buf n
            else do {
              let t = tb_mark_dirty t i;
              (old_key, e) \<leftarrow> row_key t e buf;
              t \<leftarrow> index_delete t old_key;
              (t, e) \<leftarrow> index_row t e new_row pid new_slot;
              update_slots intent pid i ss t e buf (n + 1)
            }
          })
     }
   }"

fun update_pages ::
  "Intent \<Rightarrow> u32 list \<Rightarrow> Table \<Rightarrow> Env \<Rightarrow> bytes \<Rightarrow> nat \<Rightarrow> (Table \<times> Env \<times> nat) option" where
  "update_pages intent [] t e buf n = Some (t, e, n)"
| "update_pages intent (pid # ps) t e buf n =
     (case tb_pin t e pid of
        (None, t, e) \<Rightarrow> update_pages intent ps t e buf n
      | (Some i, t, e) \<Rightarrow> do {
          p \<leftarrow> frame_page t i;
          (t, e, buf, n) \<leftarrow> update_slots intent pid i (slot_ids p) t e buf n;
          update_pages intent ps (tb_unpin t i) e buf n
        })"

definition table_update :: "Table \<Rightarrow> Env \<Rightarrow> Intent \<Rightarrow> (TableResult \<times> nat \<times> Table \<times> Env) option" where
  "table_update t e intent =
     (case draw_stack PAGE_SIZE e of
        (buf, e) \<Rightarrow> do {
          (t, e, n) \<leftarrow> update_pages intent (pids t) t e buf 0;
          Some (TABLE_OK, n, t, e)
        })"

end
