(* ===== verification/TableInv.thy ===== *)
theory TableInv imports TableDml BufferProps PageOps IndexOps begin

text \<open>
  When the operations on a table are defined: the text scans stay inside their arrays when the
  stack residue ends in a zero, the index keeps the shape its descents need, and in a single
  thread every lock is free between the operations.
\<close>

text \<open>The scans of a field.\<close>

definition ends0 :: "bytes \<Rightarrow> bool" where
  "ends0 buf \<longleftrightarrow> buf \<noteq> [] \<and> last buf = 0"

lemma ends0_in: "ends0 buf \<Longrightarrow> pos < length buf \<Longrightarrow> 0 \<in> set (drop pos buf)"
  unfolding ends0_def by (metis drop_eq_Nil last_drop last_in_set not_le)

lemma takeWhile_stops:
  assumes "x \<in> set xs" and "\<not> P x"
  shows "length (takeWhile P xs) < length xs" and "\<not> P (xs ! length (takeWhile P xs))"
proof -
  have "takeWhile P xs \<noteq> xs" using assms by (metis set_takeWhileD)
  then show "length (takeWhile P xs) < length xs"
    by (metis length_takeWhile_le linorder_not_le order_le_less takeWhile_eq_take take_all)
  then show "\<not> P (xs ! length (takeWhile P xs))" by (rule nth_length_takeWhile)
qed

lemma strtok_total:
  assumes "ends0 buf" and "pos < length buf" and "d \<noteq> 0"
  shows "\<exists>tok buf' pos'. strtok d buf pos = Some (tok, buf', pos') \<and> length buf' = length buf \<and>
           ends0 buf' \<and> pos' < length buf \<and> (\<forall>t. tok = Some t \<longrightarrow> t < length buf)"
proof -
  define s where "s = pos + length (takeWhile (\<lambda>c. c = d) (drop pos buf))"
  have "length (takeWhile (\<lambda>c. c = d) (drop pos buf)) < length (drop pos buf)"
    using takeWhile_stops(1) [OF ends0_in [OF assms(1,2)]] assms(3) by auto
  then have s: "s < length buf" by (simp add: s_def)
  define e where "e = s + length (takeWhile (\<lambda>c. c \<noteq> d \<and> c \<noteq> 0) (drop s buf))"
  have "length (takeWhile (\<lambda>c. c \<noteq> d \<and> c \<noteq> 0) (drop s buf)) < length (drop s buf)"
    using takeWhile_stops(1) [OF ends0_in [OF assms(1) s]] by auto
  then have e: "e < length buf" by (simp add: e_def)
  show ?thesis
  proof (cases "buf ! s = 0")
    case True
    then show ?thesis
      using assms(1) s by (auto simp: strtok_def Let_def s_def [symmetric])
  next
    case False
    note F = False
    show ?thesis
    proof (cases "buf ! e = 0")
      case True
      then show ?thesis
        using assms(1) s e F by (auto simp: strtok_def Let_def s_def [symmetric] e_def [symmetric])
    next
      case False
      then have "e \<noteq> length buf - 1" using assms(1) by (auto simp: ends0_def last_conv_nth)
      then have "e + 1 < length buf" "last (buf[e := 0]) = last buf"
        using e assms(1) by (auto simp: ends0_def last_list_update)
      then show ?thesis
        using assms(1) s e F False
        by (auto simp: strtok_def Let_def s_def [symmetric] e_def [symmetric] ends0_def)
    qed
  qed
qed

lemma next_toks_total:
  assumes "ends0 buf" and "pos < length buf" and "d \<noteq> 0" and "\<forall>t. tok = Some t \<longrightarrow> t < length buf"
  shows "\<exists>tok' buf' pos'. next_toks d n (tok, buf, pos) = Some (tok', buf', pos') \<and>
           length buf' = length buf \<and> ends0 buf' \<and> (\<forall>t. tok' = Some t \<longrightarrow> t < length buf)"
  using assms
proof (induction n arbitrary: tok buf pos)
  case (Suc n)
  show ?case
  proof (cases tok)
    case (Some t)
    obtain tok' buf' pos' where st: "strtok d buf pos = Some (tok', buf', pos')" "length buf' = length buf"
        "ends0 buf'" "pos' < length buf" "\<forall>t. tok' = Some t \<longrightarrow> t < length buf"
      using strtok_total [OF Suc.prems(1-3)] by blast
    show ?thesis
      using Suc.IH [of buf' pos' tok'] st Suc.prems(3) by (simp add: Some)
  qed (use Suc.prems in simp)
qed simp

lemma str_at_ends0: "ends0 buf \<Longrightarrow> t < length buf \<Longrightarrow> \<exists>s. str_at (drop t buf) = Some s"
  using ends0_in by (simp add: str_at_def)

lemma fill_tmp_total:
  assumes "0 \<in> set row \<or> n \<le> Suc (length row)" and "0 < n"
  shows "\<exists>tmp. fill_tmp n row = Some tmp \<and> length tmp = n \<and> ends0 tmp"
proof (cases "0 \<in> set (take (n - 1) row) \<or> n - 1 \<le> length row")
  case True
  then show ?thesis using assms(2) by (auto simp: fill_tmp_def strncpy_src_def ends0_def)
next
  case False
  then show ?thesis using assms by (auto simp: not_le)
qed

lemma field_token_total:
  assumes "ends0 tmp" and "0 \<in> set row"
  shows "\<exists>r. field_token tmp row c = Some r"
proof -
  have n: "0 < length tmp" using assms(1) by (auto simp: ends0_def)
  have bar: "ch CHR ''|'' \<noteq> 0" by (simp add: ch_def)
  obtain tok b saved where st: "strtok (ch CHR ''|'') tmp 0 = Some (tok, b, saved)" "saved < length tmp"
      "\<forall>t. tok = Some t \<longrightarrow> t < length tmp"
    using strtok_total [OF assms(1) n bar] by blast
  obtain t where f: "fill_tmp (length tmp) row = Some t" "length t = length tmp" "ends0 t"
    using fill_tmp_total [of row "length tmp"] assms(2) n by blast
  obtain tok' t' p' where nx: "next_toks (ch CHR ''|'') c (tok, t, saved) = Some (tok', t', p')"
      "length t' = length t" "ends0 t'" "\<forall>u. tok' = Some u \<longrightarrow> u < length t'"
    using next_toks_total [OF f(3), of saved "ch CHR ''|''" tok c] st f(2) bar by auto
  show ?thesis
  proof (cases tok')
    case (Some u)
    then obtain s where "str_at (drop u t') = Some s" using nx(4) str_at_ends0 [OF nx(3)] by auto
    then show ?thesis using st(1) f(1) nx(1) Some by (simp add: field_token_def)
  qed (use st(1) f(1) nx(1) in \<open>simp add: field_token_def\<close>)
qed

text \<open>
  The environment: memory for the index, and residues with a zero at the end of the arrays.
  \<open>K\<close> is any property of the files, the log and the globals, which the operations on an open
  table leave alone.
\<close>

definition env_ok :: "(core \<Rightarrow> bool) \<Rightarrow> Env \<Rightarrow> bool" where
  "env_ok K e \<longleftrightarrow>
     K (core e) \<and> avail (e_heap e) = None \<and>
     (\<forall>s \<in> set (e_stack e). ends0 (residue 4096 s) \<and> ends0 (residue 8192 s))"

lemma draw_stack_ok:
  assumes "env_ok K e" and "draw_stack n e = (s, e')"
  shows "env_ok K e'" and "length s = n" and "n = 4096 \<or> n = 8192 \<Longrightarrow> ends0 s"
    and "g_wal e' = g_wal e" and "g_wal_file e' = g_wal_file e"
  using assms by (auto simp: draw_stack_def env_ok_def core_def ends0_def split: list.splits)

lemma get_col_value_total:
  assumes "env_ok K e" and "0 \<in> set row"
  shows "\<exists>v e'. get_col_value e row c n = Some (v, e') \<and> env_ok K e'"
proof -
  obtain tmp e' where d: "draw_stack 8192 e = (tmp, e')" by fastforce
  note ok = draw_stack_ok [OF assms(1) d]
  obtain r where "field_token tmp row c = Some r" using field_token_total [OF ok(3) assms(2)] by auto
  then show ?thesis using ok(1) by (simp add: get_col_value_def d)
qed

lemma row_matches_total:
  assumes "env_ok K e" and "0 \<in> set row"
  shows "\<exists>b e'. row_matches_where e row intent t = Some (b, e') \<and> env_ok K e' \<and>
           (\<not> wh_active (it_where intent) \<longrightarrow> b)"
proof -
  obtain tmp e' where d: "draw_stack 8192 e = (tmp, e')" by fastforce
  note ok = draw_stack_ok [OF assms(1) d]
  have bar: "ch CHR ''|'' \<noteq> 0" by (simp add: ch_def)
  obtain x where s: "strtok (ch CHR ''|'') tmp 0 = Some x"
    using strtok_total [OF ok(3) _ bar, of 0] ok(2) by auto
  show ?thesis
  proof (cases "find_col (\<lambda>cd. cd_name cd = wh_column (it_where intent)) t")
    case (Some c)
    obtain r where "field_token tmp row c = Some r" using field_token_total [OF ok(3) assms(2)] by auto
    then show ?thesis using ok(1) s
      by (cases "wh_active (it_where intent)") (auto simp: row_matches_where_def d Some)
  qed (use ok(1) s in \<open>auto simp: row_matches_where_def d\<close>)
qed

text \<open>The shape of the index tree: a child more than keys, which is all the descents need.\<close>

fun shape :: "INDEXNode \<Rightarrow> bool" where
  "shape (Leaf a es nx) \<longleftrightarrow> length es < 4"
| "shape (Inner ks cs) \<longleftrightarrow> length ks < 4 \<and> length cs = Suc (length ks) \<and> (\<forall>c \<in> set cs. shape c)"

lemma shift_from_le: "shift_from ks n k \<le> n"
  by (induction ks n k rule: shift_from.induct) auto

lemma set_insert_at: "set (insert_at p x xs) \<subseteq> insert x (set xs)"
  using set_take_subset [of p xs] set_drop_subset [of p xs] by (auto simp: insert_at_def)

lemma length_insert_at [simp]: "p \<le> length xs \<Longrightarrow> length (insert_at p x xs) = Suc (length xs)"
  by (simp add: insert_at_def)

definition shape_post :: "(INDEXNode \<times> (int \<times> INDEXNode) option \<times> heap) option \<Rightarrow> bool" where
  "shape_post r \<longleftrightarrow>
     (\<exists>t up h. r = Some (t, up, h) \<and> avail h = None \<and> shape t \<and>
        (case up of None \<Rightarrow> True | Some (k, rt) \<Rightarrow> shape rt))"

lemma shape_split_leaf:
  assumes "length es = 4" and "avail h = None"
  shows "\<exists>l k r h'. split_leaf h a es nx = Some (l, k, r, h') \<and> avail h' = None \<and> shape l \<and> shape r"
  using assms by (auto simp: split_leaf_def calloc_def Let_def)

lemma shape_split_internal:
  assumes "length ks = 4" and "length cs = 5" and "avail h = None" and "\<forall>c \<in> set cs. shape c"
  shows "\<exists>l k r h'. split_internal h ks cs = Some (l, k, r, h') \<and> avail h' = None \<and> shape l \<and> shape r"
  using assms by (auto simp: split_internal_def calloc_def Let_def dest: in_set_takeD in_set_dropD)

lemma insert_shape: "shape t \<Longrightarrow> avail h = None \<Longrightarrow> shape_post (insert_recursive h t k loc)"
proof (induction h t k loc rule: insert_recursive.induct)
  case (1 h a es nx key loc)
  let ?es = "insert_at (shift_from (map fst es) (length es) key) (key, loc) es"
  have l: "length ?es = Suc (length es)" by (simp add: shift_from_le)
  show ?case
  proof (cases "length ?es = 4")
    case True
    then obtain x k y h' where "split_leaf h a ?es nx = Some (x, k, y, h')" "avail h' = None" "shape x" "shape y"
      using shape_split_leaf [OF True 1(2)] by blast
    then show ?thesis using True by (simp add: shape_post_def Let_def)
  next
    case False
    then have "length ?es < 4" using l 1(1) by simp
    then show ?thesis using 1(2) False by (simp add: shape_post_def Let_def)
  qed
next
  case (2 h ks cs key loc)
  define i where "i = child_index ks key"
  have i: "i < length cs" using child_index_le [of ks key] 2(2) by (simp add: i_def)
  then have "shape (cs ! i)" using 2(2) by simp
  then obtain c up h' where r: "insert_recursive h (cs ! i) key loc = Some (c, up, h')" "avail h' = None" "shape c"
      "case up of None \<Rightarrow> True | Some (k, rt) \<Rightarrow> shape rt"
    using 2(1) [OF i_def i _ 2(3)] by (auto simp: shape_post_def)
  have cs: "\<forall>x \<in> set (cs[i := c]). shape x" using 2(2) r(3) set_update_subset_insert [of cs i c] by auto
  show ?case
  proof (cases up)
    case None
    then show ?thesis using r i cs 2(2) by (simp add: shape_post_def Let_def i_def [symmetric])
  next
    case (Some kr)
    then obtain pk rt where up: "up = Some (pk, rt)" "shape rt" using r(4) by (cases kr) auto
    define p where "p = shift_from ks (length ks) pk"
    let ?ks = "insert_at p pk ks" and ?cs = "insert_at (p + 1) rt (cs[i := c])"
    have p: "p \<le> length ks" by (simp add: p_def shift_from_le)
    have l: "length ?ks = Suc (length ks)" "length ?cs = Suc (Suc (length ks))" using p 2(2) by simp_all
    have s: "\<forall>x \<in> set ?cs. shape x" using set_insert_at [of "p + 1" rt "cs[i := c]"] cs up(2) by auto
    show ?thesis
    proof (cases "length ?ks = 4")
      case True
      then obtain x k y h'' where "split_internal h' ?ks ?cs = Some (x, k, y, h'')" "avail h'' = None" "shape x" "shape y"
        using shape_split_internal [OF True _ r(2) s] l by auto
      then show ?thesis using True r(1) i up(1) by (simp add: shape_post_def Let_def i_def [symmetric] p_def [symmetric])
    next
      case False
      then show ?thesis
        using r(1,2) i up(1) l s 2(2) by (simp add: shape_post_def Let_def i_def [symmetric] p_def [symmetric])
    qed
  qed
qed

lemma INDEX_insert_total:
  assumes "shape (root ix)" and "avail h = None"
  shows "\<exists>ix' r h'. INDEX_insert h ix k loc = Some (ix', r, h') \<and> shape (root ix') \<and> avail h' = None"
  using insert_shape [OF assms, of k loc]
  by (auto simp: shape_post_def INDEX_insert_def calloc_def split: option.splits)

lemma shape_at_leaf:
  assumes "shape t"
  shows "\<exists>t' r. at_leaf (delete_in_leaf k) t k = Some (t', r) \<and> shape t'"
  using assms
proof (induction t)
  case (Leaf a es nx)
  then show ?case by (auto simp: delete_in_leaf_def remove_at_def split: option.splits)
next
  case (Inner ks cs)
  define i where "i = child_index ks k"
  have i: "i < length cs" using child_index_le [of ks k] Inner.prems by (simp add: i_def)
  then obtain t' r where t': "at_leaf (delete_in_leaf k) (cs ! i) k = Some (t', r)" "shape t'"
    using Inner.IH [of "cs ! i"] Inner.prems by auto
  have "\<forall>x \<in> set (cs[i := t']). shape x"
    using Inner.prems t'(2) set_update_subset_insert [of cs i t'] by auto
  then show ?case using t'(1) i Inner.prems by (simp add: i_def [symmetric] Let_def)
qed

lemma INDEX_delete_total:
  assumes "shape (root ix)"
  shows "\<exists>ix' r. INDEX_delete ix k = Some (ix', r) \<and> shape (root ix')"
  using shape_at_leaf [OF assms, of k] by (auto simp: INDEX_delete_def)

definition index_ok :: "Table \<Rightarrow> bool" where
  "index_ok t \<longleftrightarrow> (case tb_index t of None \<Rightarrow> True | Some ix \<Rightarrow> shape (root ix))"

lemma index_insert_total:
  assumes "index_ok t" and "env_ok K e"
  shows "\<exists>ix e'. index_insert t e k loc = Some (t\<lparr>tb_index := ix\<rparr>, e') \<and> index_ok (t\<lparr>tb_index := ix\<rparr>) \<and> env_ok K e'"
proof (cases "tb_index t")
  case None
  then have "t\<lparr>tb_index := None\<rparr> = t" by simp
  then show ?thesis using None assms by (auto simp: index_insert_def index_ok_def intro!: exI [of _ None])
next
  case (Some ix)
  then obtain ix' r h' where "INDEX_insert (e_heap e) ix k loc = Some (ix', r, h')" "shape (root ix')" "avail h' = None"
    using INDEX_insert_total [of ix "e_heap e" k loc] assms by (auto simp: index_ok_def env_ok_def core_def)
  then show ?thesis using Some assms by (auto simp: index_insert_def index_ok_def env_ok_def core_def intro!: exI [of _ "Some ix'"])
qed

lemma index_delete_total:
  assumes "index_ok t"
  shows "\<exists>ix. index_delete t k = Some (t\<lparr>tb_index := ix\<rparr>) \<and> index_ok (t\<lparr>tb_index := ix\<rparr>)"
proof (cases "tb_index t")
  case None
  then have "t\<lparr>tb_index := None\<rparr> = t" by simp
  then show ?thesis using None assms by (auto simp: index_delete_def index_ok_def intro!: exI [of _ None])
next
  case (Some ix)
  then obtain ix' r where "INDEX_delete ix k = Some (ix', r)" "shape (root ix')"
    using INDEX_delete_total [of ix k] assms by (auto simp: index_ok_def)
  then show ?thesis using Some assms by (auto simp: index_delete_def index_ok_def intro!: exI [of _ "Some ix'"])
qed

lemma row_key_total:
  assumes "env_ok K e" and "0 \<in> set row"
  shows "\<exists>k e'. row_key t e row = Some (k, e') \<and> env_ok K e'"
  using get_col_value_total [OF assms, of "tb_index_col t" 256] by (auto simp: row_key_def)

lemma index_row_total:
  assumes "index_ok t" and "env_ok K e" and "0 \<in> set row"
  shows "\<exists>ix e'. index_row t e row pid s = Some (t\<lparr>tb_index := ix\<rparr>, e') \<and> index_ok (t\<lparr>tb_index := ix\<rparr>) \<and> env_ok K e'"
proof -
  obtain k e1 where k: "row_key t e row = Some (k, e1)" "env_ok K e1" using row_key_total [OF assms(2,3)] by blast
  show ?thesis
    using index_insert_total [OF assms(1) k(2), of k "\<lparr>page_id = pid, slot_id = s\<rparr>"] k(1)
    by (auto simp: index_row_def)
qed

end
