(* ===== verification/TableLaws.thy ===== *)
theory TableLaws imports TableInv begin

text \<open>
  The steps of the table operations on the invariant. \<open>tb_view\<close> is the page a reader sees for
  each page id, \<open>tb_wf\<close> says that exactly the pages below \<open>page_count\<close> are there, and every
  step is described by what it does to \<open>tb_view\<close>.
\<close>

definition locks_free :: "BufferPool \<Rightarrow> bool" where
  "locks_free pool \<longleftrightarrow> (\<forall>fr \<in> set (frames pool). lock (fr_lock fr) = Free)"

lemma locks_free_upd:
  assumes "locks_free pool" and "i < length (frames pool) \<Longrightarrow> lock (fr_lock (g (frames pool ! i))) = Free"
  shows "locks_free (upd_frame pool i g)"
proof (cases "i < length (frames pool)")
  case True
  have "set (frames (upd_frame pool i g)) \<subseteq> insert (g (frames pool ! i)) (set (frames pool))"
    using set_update_subset_insert by (simp add: upd_frame_def)
  then show ?thesis using assms True by (auto simp: locks_free_def)
next
  case False
  then have "frames (upd_frame pool i g) = frames pool" by (simp add: upd_frame_def list_update_beyond)
  then show ?thesis using assms(1) by (simp add: locks_free_def)
qed

lemma locks_free_clock [simp]: "locks_free (pool\<lparr>clock := k\<rparr>) = locks_free pool"
  by (simp add: locks_free_def)

lemma locks_free_nth: "locks_free pool \<Longrightarrow> i < length (frames pool) \<Longrightarrow> lock (fr_lock (frames pool ! i)) = Free"
  by (simp add: locks_free_def)

lemma locks_free_keep:
  assumes "locks_free pool" and "\<And>fr. fr_lock (g fr) = fr_lock fr"
  shows "locks_free (upd_frame pool i g)"
  using assms locks_free_nth by (intro locks_free_upd) simp_all

lemma evict_frame_locks:
  "locks_free pool \<Longrightarrow> evict_frame pool f i = (r, pool', f') \<Longrightarrow> locks_free pool'"
  by (auto simp: evict_frame_def Let_def intro!: locks_free_keep split: option.splits prod.splits if_splits)

lemma take_slot_locks: "locks_free pool \<Longrightarrow> take_slot pool f = (r, pool', f') \<Longrightarrow> locks_free pool'"
  by (auto simp: take_slot_def Let_def dest: evict_frame_locks split: option.splits prod.splits if_splits)

lemma buf_pin_locks:
  assumes "locks_free pool" and "buf_pin mem pool f n = (r, pool', f')"
  shows "locks_free pool'"
proof (cases "find_frame pool n")
  case (Some i)
  then show ?thesis using assms by (auto simp: buf_pin_def intro!: locks_free_keep)
next
  case None
  obtain s p1 f1 where t: "take_slot pool f = (s, p1, f1)" by (cases "take_slot pool f") auto
  have l: "locks_free p1" by (rule take_slot_locks [OF assms(1) t])
  have z: "locks_free (upd_frame q x (\<lambda>fr. fr\<lparr>fr_lock := zero_lock\<rparr>))" if "locks_free q" for q x
    using that by (rule locks_free_upd) (simp add: zero_lock_def)
  show ?thesis
    using assms(2) None t l
    by (auto simp: buf_pin_def Let_def intro!: z locks_free_keep split: option.splits prod.splits if_splits)
qed

lemma buf_new_page_locks:
  assumes "locks_free pool" and "buf_new_page mem pool f n = (r, pool', f')"
  shows "locks_free pool'"
proof -
  obtain s p1 f1 where t: "take_slot pool f = (s, p1, f1)" by (cases "take_slot pool f") auto
  have l: "locks_free p1" by (rule take_slot_locks [OF assms(1) t])
  then show ?thesis
    using assms(2) t by (auto simp: buf_new_page_def intro!: locks_free_keep split: option.splits)
qed

text \<open>The invariant of an open table.\<close>

definition tb_view :: "Table \<Rightarrow> u32 \<Rightarrow> page option" where
  "tb_view t = view (tb_pool t) (fcontents (tb_file t))"

definition tb_ok :: "Table \<Rightarrow> bool" where
  "tb_ok t \<longleftrightarrow> pool_inv (tb_pool t) (fcontents (tb_file t)) \<and> locks_free (tb_pool t) \<and> index_ok t"

definition tb_wf :: "Table \<Rightarrow> bool" where
  "tb_wf t \<longleftrightarrow> tb_ok t \<and>
     (\<forall>n. if n < tb_page_count t then \<exists>p. tb_view t n = Some p \<and> page_wf p else tb_view t n = None)"

definition tb_holds :: "Table \<Rightarrow> nat \<Rightarrow> u32 \<Rightarrow> page \<Rightarrow> bool" where
  "tb_holds t i n p \<longleftrightarrow> holds (tb_pool t) i n p"

definition meta :: "Table \<Rightarrow> cstr \<times> cstr \<times> u32 \<times> ColumnDef list \<times> int \<times> nat" where
  "meta t = (tb_name t, tb_path t, tb_page_count t, tb_col_defs t, tb_col_count t, tb_index_col t)"

lemma meta_fields:
  assumes "meta t' = meta t"
  shows "tb_name t' = tb_name t" "tb_path t' = tb_path t" "tb_page_count t' = tb_page_count t"
    "tb_col_defs t' = tb_col_defs t" "tb_col_count t' = tb_col_count t" "tb_index_col t' = tb_index_col t"
    "pids t' = pids t" "find_col P t' = find_col P t"
  using assms by (simp_all add: meta_def pids_def find_col_def)

lemma index_ok_update [simp]:
  "index_ok (t\<lparr>tb_pool := x\<rparr>) = index_ok t" "index_ok (t\<lparr>tb_file := y\<rparr>) = index_ok t"
  "index_ok (t\<lparr>tb_page_count := z\<rparr>) = index_ok t"
  by (simp_all add: index_ok_def)

lemma tb_index_update [simp]:
  "tb_view (t\<lparr>tb_index := ix\<rparr>) = tb_view t" "meta (t\<lparr>tb_index := ix\<rparr>) = meta t"
  "tb_holds (t\<lparr>tb_index := ix\<rparr>) = tb_holds t"
  "tb_ok t \<Longrightarrow> index_ok (t\<lparr>tb_index := ix\<rparr>) \<Longrightarrow> tb_ok (t\<lparr>tb_index := ix\<rparr>)"
  by (simp_all add: tb_view_def meta_def tb_holds_def fun_eq_iff tb_ok_def)

lemma tb_pin_law:
  assumes ok: "tb_ok t" and e: "env_ok K e" and run: "tb_pin t e n = (r, t', e')"
  shows "tb_ok t'" and "tb_view t' = tb_view t" and "meta t' = meta t" and "env_ok K e'"
    and "r = Some i \<Longrightarrow> \<exists>p. tb_holds t' i n p"
proof -
  obtain mem e1 where m: "draw_mem e = (mem, e1)" by fastforce
  obtain r1 pool f where b: "buf_pin mem (tb_pool t) (tb_file t) n = (r1, pool, f)"
    by (cases "buf_pin mem (tb_pool t) (tb_file t) n") auto
  have t': "r = r1" "t' = t\<lparr>tb_pool := pool, tb_file := f\<rparr>" "e' = e1" using run m b by (simp_all add: tb_pin_def)
  have inv: "pool_inv (tb_pool t) (fcontents (tb_file t))" using ok by (simp add: tb_ok_def)
  note p = buf_pin_run [OF inv b]
  show "tb_ok t'" "tb_view t' = tb_view t" "meta t' = meta t"
    using p ok buf_pin_locks [OF _ b] by (simp_all add: t' tb_ok_def tb_view_def meta_def)
  show "env_ok K e'" using e m by (auto simp: t' draw_mem_def env_ok_def core_def split: list.splits)
  show "r = Some i \<Longrightarrow> \<exists>p. tb_holds t' i n p" using p by (simp add: t' tb_holds_def)
qed

lemma tb_holds_facts:
  assumes "tb_ok t" and "tb_holds t i n p"
  shows "tb_view t n = Some (stamp p)" "length p = 4096" "hdr_page_id p = n" "i < 7"
    "frame_page t i = Some p" "lock (frame_lock t i) = Free" "length (frames (tb_pool t)) = 7"
proof -
  have inv: "pool_inv (tb_pool t) (fcontents (tb_file t))" using assms(1) by (simp add: tb_ok_def)
  note h = holds_view [OF inv assms(2) [unfolded tb_holds_def]]
  have l: "length (frames (tb_pool t)) = 7" using inv by (simp add: pool_inv_def)
  show "tb_view t n = Some (stamp p)" "length p = 4096" "hdr_page_id p = n" "i < 7"
    "frame_page t i = Some p" "length (frames (tb_pool t)) = 7"
    using h assms l by (simp_all add: tb_view_def tb_holds_def holds_def frame_page_def)
  show "lock (frame_lock t i) = Free"
    using assms l by (simp add: tb_ok_def tb_holds_def holds_def frame_lock_def locks_free_nth)
qed

lemma page_wf_unstamp:
  assumes "page_wf (stamp p)" and "length p = 4096"
  shows "page_wf p" and "rows p = rows (stamp p)"
proof -
  define q where "q = stamp p"
  have h: "hdr_slot_count q = hdr_slot_count p" "hdr_free_end q = hdr_free_end p"
      "hdr_free_start q = hdr_free_start p" "bslice q 40 4056 = bslice p 40 4056"
    using assms(2) by (simp_all add: q_def stamp_def)
  have c: "core_wf q" "unat (hdr_free_start q) = slot_addr (unat (hdr_slot_count q))"
    using assms(1) by (simp_all add: page_wf_def q_def)
  have "core_wf p" "rows p = rows q"
    using core_wf_cong [OF c(1) assms(2)] h by simp_all
  then show "page_wf p" "rows p = rows (stamp p)"
    using c(2) h by (simp_all add: page_wf_def q_def)
qed

text \<open>A frame is updated in place.\<close>

lemma upd_frame_cong:
  "g (frames pool ! i) = h (frames pool ! i) \<Longrightarrow> upd_frame pool i g = upd_frame pool i h"
  by (simp add: upd_frame_def)

lemma upd_frame_id: "g (frames pool ! i) = frames pool ! i \<Longrightarrow> upd_frame pool i g = pool"
  by (cases pool) (simp add: upd_frame_def)

lemma tb_unpin_law:
  assumes "tb_ok t" and "i < 7"
  shows "tb_ok (tb_unpin t i)" and "tb_view (tb_unpin t i) = tb_view t" and "meta (tb_unpin t i) = meta t"
proof -
  have inv: "pool_inv (tb_pool t) (fcontents (tb_file t))" using assms(1) by (simp add: tb_ok_def)
  let ?g = "\<lambda>fr. fr\<lparr>fr_pin_count := fr_pin_count fr - 1\<rparr>"
  have f: "pool_inv (upd_frame (tb_pool t) i ?g) (fcontents (tb_file t))"
      "view (upd_frame (tb_pool t) i ?g) (fcontents (tb_file t)) = view (tb_pool t) (fcontents (tb_file t))"
    by (rule frame_touched [OF inv assms(2)]; simp)+
  have l: "locks_free (upd_frame (tb_pool t) i ?g)"
    using assms(1) by (intro locks_free_keep) (simp_all add: tb_ok_def)
  define pool where "pool = (if fr_pin_count (frames (tb_pool t) ! i) > 0 then upd_frame (tb_pool t) i ?g else tb_pool t)"
  have "tb_unpin t i = t\<lparr>tb_pool := pool\<rparr>" by (simp add: tb_unpin_def buf_unpin_def pool_def)
  moreover have "pool_inv pool (fcontents (tb_file t))" "locks_free pool"
      "view pool (fcontents (tb_file t)) = view (tb_pool t) (fcontents (tb_file t))"
    using inv f l assms(1) by (simp_all add: pool_def tb_ok_def)
  ultimately show "tb_ok (tb_unpin t i)" "tb_view (tb_unpin t i) = tb_view t" "meta (tb_unpin t i) = meta t"
    using assms(1) by (simp_all add: tb_ok_def tb_view_def meta_def)
qed

lemma tb_changed:
  assumes ok: "tb_ok t" and h: "tb_holds t i n p" and q: "length q = 4096" "hdr_page_id q = n"
  defines "t' \<equiv> tb_mark_dirty (frame_set_page t i q) i"
  shows "tb_ok t'" and "tb_view t' = (tb_view t)(n \<mapsto> stamp q)" and "meta t' = meta t" and "tb_holds t' i n q"
proof -
  have inv: "pool_inv (tb_pool t) (fcontents (tb_file t))" using ok by (simp add: tb_ok_def)
  have i: "i < 7" "fr_page (frames (tb_pool t) ! i) = Some p" "fr_page_id (frames (tb_pool t) ! i) = n"
    using h by (simp_all add: tb_holds_def holds_def)
  note l = tb_holds_facts(7) [OF ok h]
  note c = frame_changed [OF inv i(1,2), of q]
  have lf: "locks_free (tb_pool t')"
    using ok l i(1) locks_free_nth [of "tb_pool t" i]
    by (simp add: t'_def tb_mark_dirty_def frame_set_page_def buf_mark_dirty_def tb_ok_def locks_free_upd)
  show "tb_ok t'" "tb_view t' = (tb_view t)(n \<mapsto> stamp q)" "meta t' = meta t"
    using ok c q i(3) lf
    by (simp_all add: t'_def tb_ok_def tb_mark_dirty_def frame_set_page_def tb_view_def meta_def)
  show "tb_holds t' i n q"
    using i l by (simp add: t'_def tb_holds_def holds_def tb_mark_dirty_def frame_set_page_def buf_mark_dirty_def)
qed

text \<open>The locked steps: the lock is free again behind them.\<close>

lemma frame_write_lock_free:
  assumes "lock (frame_lock t i) = Free" and "i < length (frames (tb_pool t))"
  shows "\<exists>l. frame_write_lock t i = Some (frame_set_lock t i l) \<and> rwlock_write_unlock l = frame_lock t i"
  using rwlock_write_pair [OF assms(1)] by (auto simp: frame_write_lock_def)

lemma frame_read_lock_free:
  assumes "lock (frame_lock t i) = Free" and "i < length (frames (tb_pool t))"
  shows "\<exists>l. frame_read_lock t i = Some (frame_set_lock t i l) \<and> rwlock_read_unlock l = frame_lock t i"
  using rwlock_read_pair [OF assms(1)] by (auto simp: frame_read_lock_def)

lemma frame_page_set_lock [simp]:
  "i < length (frames (tb_pool t)) \<Longrightarrow> frame_page (frame_set_lock t i l) i = frame_page t i"
  by (simp add: frame_page_def frame_set_lock_def)

lemma frame_unlock:
  assumes "i < length (frames (tb_pool t))"
  shows "rwlock_write_unlock l = frame_lock t i \<Longrightarrow>
      frame_write_unlock (frame_set_page (frame_set_lock t i l) i p) i = frame_set_page t i p"
    and "rwlock_read_unlock l = frame_lock t i \<Longrightarrow> frame_read_unlock (frame_set_lock t i l) i = t"
proof -
  let ?pool = "tb_pool t"
  assume "rwlock_write_unlock l = frame_lock t i"
  then have "upd_frame ?pool i (\<lambda>fr. fr\<lparr>fr_lock := l, fr_page := Some p, fr_lock := rwlock_write_unlock l\<rparr>) =
      upd_frame ?pool i (\<lambda>fr. fr\<lparr>fr_page := Some p\<rparr>)"
    by (intro upd_frame_cong) (simp add: frame_lock_def)
  then show "frame_write_unlock (frame_set_page (frame_set_lock t i l) i p) i = frame_set_page t i p"
    using assms by (simp add: frame_write_unlock_def frame_set_lock_def frame_set_page_def frame_lock_def)
next
  let ?pool = "tb_pool t"
  assume "rwlock_read_unlock l = frame_lock t i"
  then have "upd_frame ?pool i (\<lambda>fr. fr\<lparr>fr_lock := rwlock_read_unlock l\<rparr>) = ?pool"
    by (intro upd_frame_id) (simp add: frame_lock_def)
  then show "frame_read_unlock (frame_set_lock t i l) i = t"
    using assms by (simp add: frame_read_unlock_def frame_set_lock_def frame_lock_def)
qed

lemma frame_set_same: "frame_page t i = Some p \<Longrightarrow> frame_set_page t i p = t"
  using upd_frame_id [of "\<lambda>fr. fr\<lparr>fr_page := Some p\<rparr>" "tb_pool t" i]
  by (simp add: frame_set_page_def frame_page_def)

lemma frame_insert_law:
  assumes ok: "tb_ok t" and h: "tb_holds t i n p" and wf: "page_wf p"
    and len: "unat len \<le> length row" "unat len < 65530"
  shows "if has_room p len
         then \<exists>p'. frame_insert t i row len = Some (frame_set_page t i p', PAGE_OK, Some (hdr_slot_count p)) \<and>
                page_wf p' \<and> rows p' = rows p @ [Some (take (unat len) row)] \<and> hdr_page_id p' = n
         else frame_insert t i row len = Some (t, PAGE_FULL, None)"
proof -
  note f = tb_holds_facts [OF ok h]
  have i: "i < length (frames (tb_pool t))" using f by simp
  obtain l where l: "frame_write_lock t i = Some (frame_set_lock t i l)" "rwlock_write_unlock l = frame_lock t i"
    using frame_write_lock_free [OF f(6) i] by blast
  note law = page_insert_law [OF wf len]
  show ?thesis
  proof (cases "has_room p len")
    case True
    then obtain p' where p': "page_insert p row len = Some (p', PAGE_OK, Some (hdr_slot_count p))" "page_wf p'"
        "rows p' = rows p @ [Some (take (unat len) row)]" "hdr_page_id p' = hdr_page_id p"
      using law by auto
    then show ?thesis
      using True f(3) by (auto simp: frame_insert_def l f(5) i p'(1) frame_unlock(1) [OF i l(2)])
  next
    case False
    then have "page_insert p row len = Some (p, PAGE_FULL, None)" using law by simp
    then show ?thesis
      using False by (simp add: frame_insert_def l f(5) i frame_unlock(1) [OF i l(2)] frame_set_same [OF f(5)])
  qed
qed

lemma frame_read_law:
  assumes ok: "tb_ok t" and h: "tb_holds t i n p" and wf: "page_wf p" and b: "length buf = 4096"
  shows "frame_read t i s buf =
           Some (if unat s < length (rows p)
                 then case rows p ! unat s of
                        Some row \<Rightarrow> (t, PAGE_OK, row @ drop (length row) buf, Some (of_nat (length row)))
                      | None \<Rightarrow> (t, PAGE_NOT_FOUND, buf, None)
                 else (t, PAGE_NOT_FOUND, buf, None))"
proof -
  note f = tb_holds_facts [OF ok h]
  have i: "i < length (frames (tb_pool t))" using f by simp
  obtain l where l: "frame_read_lock t i = Some (frame_set_lock t i l)" "rwlock_read_unlock l = frame_lock t i"
    using frame_read_lock_free [OF f(6) i] by blast
  show ?thesis
    using page_read_law [OF wf, of buf s] b
    by (auto simp: frame_read_def l f(5) i frame_unlock(2) [OF i l(2)] split: option.split)
qed

lemma frame_delete_law:
  assumes ok: "tb_ok t" and h: "tb_holds t i n p" and wf: "page_wf p"
  shows "if unat s < length (rows p) \<and> rows p ! unat s \<noteq> None
         then \<exists>p'. frame_delete t i s = Some (frame_set_page t i p', PAGE_OK) \<and> page_wf p' \<and>
                rows p' = (rows p)[unat s := None] \<and> hdr_page_id p' = n
         else frame_delete t i s = Some (t, PAGE_NOT_FOUND)"
proof -
  note f = tb_holds_facts [OF ok h]
  have i: "i < length (frames (tb_pool t))" using f by simp
  obtain l where l: "frame_write_lock t i = Some (frame_set_lock t i l)" "rwlock_write_unlock l = frame_lock t i"
    using frame_write_lock_free [OF f(6) i] by blast
  note law = page_delete_law [OF wf, of s]
  show ?thesis
  proof (cases "unat s < length (rows p) \<and> rows p ! unat s \<noteq> None")
    case True
    then obtain p' where "page_delete p s = Some (p', PAGE_OK)" "page_wf p'" "rows p' = (rows p)[unat s := None]"
        "hdr_page_id p' = hdr_page_id p"
      using law by auto
    then show ?thesis
      using True f(3) by (auto simp: frame_delete_def l f(5) i frame_unlock(1) [OF i l(2)])
  next
    case False
    then have "page_delete p s = Some (p, PAGE_NOT_FOUND)" using law by auto
    then show ?thesis
      using False by (auto simp: frame_delete_def l f(5) i frame_unlock(1) [OF i l(2)] frame_set_same [OF f(5)])
  qed
qed

end
