(* ===== verification/TableProps.thy ===== *)
theory TableProps imports TableLaws begin

text \<open>
  What an insertion does to the rows of a table: \<open>tb_rows\<close> is the list of row slots of each
  page, \<open>None\<close> for a deleted row.
\<close>

definition tb_rows :: "Table \<Rightarrow> u32 \<Rightarrow> bytes option list option" where
  "tb_rows t n = map_option rows (tb_view t n)"

lemma tb_rows_index [simp]: "tb_rows (t\<lparr>tb_index := ix\<rparr>) = tb_rows t"
  by (simp add: tb_rows_def fun_eq_iff)

lemma tb_wf_ok: "tb_wf t \<Longrightarrow> tb_ok t"
  by (simp add: tb_wf_def)

lemma tb_wf_same:
  assumes "tb_wf t" and "tb_ok t'" and "tb_view t' = tb_view t" and "tb_page_count t' = tb_page_count t"
  shows "tb_wf t'"
  using assms by (simp add: tb_wf_def)

lemma tb_wf_page:
  assumes "tb_wf t" and "tb_holds t i n p"
  shows "page_wf p" and "tb_rows t n = Some (rows p)" and "n < tb_page_count t"
proof -
  note f = tb_holds_facts [OF tb_wf_ok [OF assms(1)] assms(2)]
  have "\<forall>n. if n < tb_page_count t then \<exists>p. tb_view t n = Some p \<and> page_wf p else tb_view t n = None"
    using assms(1) by (simp add: tb_wf_def)
  then have w: "page_wf (stamp p)" and n: "n < tb_page_count t" using f(1) by (auto split: if_splits dest: spec [of _ n])
  show "page_wf p" by (rule page_wf_unstamp(1) [OF w f(2)])
  then show "tb_rows t n = Some (rows p)" using f(1) by (simp add: tb_rows_def)
  show "n < tb_page_count t" by (rule n)
qed

lemma tb_wf_changed:
  assumes wf: "tb_wf t" and h: "tb_holds t i n p" and q: "page_wf q" "hdr_page_id q = n"
  defines "t' \<equiv> tb_mark_dirty (frame_set_page t i q) i"
  shows "tb_wf t'" and "tb_rows t' = (tb_rows t)(n \<mapsto> rows q)" and "meta t' = meta t" and "tb_holds t' i n q"
proof -
  note c = tb_changed [OF tb_wf_ok [OF wf] h length_page_wf [OF q(1)] q(2), folded t'_def]
  have "tb_page_count t' = tb_page_count t" using c(3) by (rule meta_fields)
  then show "tb_wf t'"
    using wf c(1,2) q(1) tb_wf_page(3) [OF wf h] by (auto simp: tb_wf_def)
  show "tb_rows t' = (tb_rows t)(n \<mapsto> rows q)" using c(2) q(1) by (auto simp: tb_rows_def fun_eq_iff)
  show "meta t' = meta t" "tb_holds t' i n q" by (fact c)+
qed

lemma tb_wf_index:
  assumes "tb_wf t" and "index_ok (t\<lparr>tb_index := ix\<rparr>)"
  shows "tb_wf (t\<lparr>tb_index := ix\<rparr>)"
  using assms by (simp add: tb_wf_def)

text \<open>Pinning and unpinning change nothing that a reader sees.\<close>

lemma tb_wf_pin:
  assumes "tb_wf t" and "env_ok K e" and "tb_pin t e n = (r, t', e')"
  shows "tb_wf t'" and "tb_rows t' = tb_rows t" and "meta t' = meta t" and "env_ok K e'"
    and "r = Some i \<Longrightarrow> \<exists>p. tb_holds t' i n p"
proof -
  note p = tb_pin_law [OF tb_wf_ok [OF assms(1)] assms(2,3)]
  show "tb_wf t'" using tb_wf_same [OF assms(1) p(1,2)] meta_fields(3) [OF p(3)] by simp
  show "tb_rows t' = tb_rows t" by (simp add: tb_rows_def p(2) fun_eq_iff)
  show "meta t' = meta t" "env_ok K e'" "r = Some i \<Longrightarrow> \<exists>p. tb_holds t' i n p" by (fact p)+
qed

lemma tb_wf_unpin:
  assumes "tb_wf t" and "i < 7"
  shows "tb_wf (tb_unpin t i)" and "tb_rows (tb_unpin t i) = tb_rows t" and "meta (tb_unpin t i) = meta t"
proof -
  note u = tb_unpin_law [OF tb_wf_ok [OF assms(1)] assms(2)]
  show "tb_wf (tb_unpin t i)" using tb_wf_same [OF assms(1) u(1,2)] meta_fields(3) [OF u(3)] by simp
  show "tb_rows (tb_unpin t i) = tb_rows t" by (simp add: tb_rows_def u(2) fun_eq_iff)
  show "meta (tb_unpin t i) = meta t" by (fact u)
qed

lemma tb_holds_i: "tb_holds t i n p \<Longrightarrow> i < 7"
  by (simp add: tb_holds_def holds_def)

text \<open>A row that fits a page, with its terminator behind it.\<close>

definition row_ok :: "bytes \<Rightarrow> u16 \<Rightarrow> bool" where
  "row_ok row len \<longleftrightarrow> unat len \<le> length row \<and> unat len \<le> 4050 \<and> 0 \<in> set row"

definition hook_ok :: "(core \<Rightarrow> bool) \<Rightarrow> (Env \<Rightarrow> u32 \<Rightarrow> Env option) \<Rightarrow> bool" where
  "hook_ok K log \<longleftrightarrow> (\<forall>e n. env_ok K e \<longrightarrow> (\<exists>e'. log e n = Some e' \<and> env_ok K e'))"

text \<open>The rows after one more row was put behind those of page \<open>n\<close>.\<close>

definition row_added :: "Table \<Rightarrow> bytes \<Rightarrow> u32 \<Rightarrow> Table \<Rightarrow> bool" where
  "row_added t r n t' \<longleftrightarrow>
     tb_rows t' = (tb_rows t)(n \<mapsto> (case tb_rows t n of Some rs \<Rightarrow> rs | None \<Rightarrow> []) @ [Some r])"

lemma insert_filled:
  assumes wf: "tb_wf t" and e: "env_ok K e" and h: "tb_holds t i n p" and row: "row_ok row len"
    and q: "page_wf q" "hdr_page_id q = n" "rows q = rows p @ [Some (take (unat len) row)]"
  shows "\<exists>t' e'. index_row (tb_mark_dirty (frame_set_page t i q) i) e row n s = Some (t', e') \<and>
           tb_wf (tb_unpin t' i) \<and> env_ok K e' \<and> meta (tb_unpin t' i) = meta t \<and>
           row_added t (take (unat len) row) n (tb_unpin t' i)"
proof -
  let ?t = "tb_mark_dirty (frame_set_page t i q) i"
  note c = tb_wf_changed [OF wf h q(1,2)]
  have ix: "index_ok ?t" using tb_wf_ok [OF c(1)] by (simp add: tb_ok_def)
  obtain x e' where r: "index_row ?t e row n s = Some (?t\<lparr>tb_index := x\<rparr>, e')" "index_ok (?t\<lparr>tb_index := x\<rparr>)" "env_ok K e'"
    using index_row_total [OF ix e, of row n s] row by (auto simp: row_ok_def)
  note w = tb_wf_index [OF c(1) r(2)]
  note u = tb_wf_unpin [OF w tb_holds_i [OF h]]
  have "row_added t (take (unat len) row) n (tb_unpin (?t\<lparr>tb_index := x\<rparr>) i)"
    using tb_wf_page(2) [OF wf h] by (simp add: row_added_def u(2) c(2) q(3))
  then show ?thesis using r u(1,3) c(3) by auto
qed

definition inserted :: "Table \<Rightarrow> bytes \<Rightarrow> bool \<Rightarrow> Table \<Rightarrow> bool" where
  "inserted t r ok t' \<longleftrightarrow>
     meta t' = meta t \<and>
     (if ok then \<exists>n < tb_page_count t. row_added t r n t' else tb_rows t' = tb_rows t)"

lemma inserted_from: "meta t1 = meta t \<Longrightarrow> tb_rows t1 = tb_rows t \<Longrightarrow> inserted t1 r ok t' = inserted t r ok t'"
  using meta_fields(3) [of t1 t] by (simp add: inserted_def row_added_def)

lemma insert_pages_law:
  assumes "tb_wf t" and "env_ok K e" and "hook_ok K log" and "row_ok row len"
  shows "\<exists>ok t' e'. insert_pages log row len ps t e = Some (ok, t', e') \<and> tb_wf t' \<and> env_ok K e' \<and>
           inserted t (take (unat len) row) ok t'"
  using assms(1,2)
proof (induction ps arbitrary: t e)
  case Nil
  then show ?case by (auto simp: inserted_def intro!: exI [of _ False])
next
  case (Cons n ps)
  obtain r t1 e1 where pin: "tb_pin t e n = (r, t1, e1)" by (cases "tb_pin t e n") auto
  note p = tb_wf_pin [OF Cons.prems pin]
  note from_t = inserted_from [OF p(3,2)]
  show ?case
  proof (cases r)
    case None
    then show ?thesis using Cons.IH [OF p(1,4)] by (simp add: pin from_t)
  next
    case (Some i)
    then obtain pg where h: "tb_holds t1 i n pg" using p(5) by auto
    note w = tb_wf_page [OF p(1) h]
    have len: "unat len \<le> length row" "unat len < 65530" using assms(4) by (auto simp: row_ok_def)
    note fi = frame_insert_law [OF tb_wf_ok [OF p(1)] h w(1) len]
    show ?thesis
    proof (cases "has_room pg len")
      case True
      then obtain q where q: "frame_insert t1 i row len = Some (frame_set_page t1 i q, PAGE_OK, Some (hdr_slot_count pg))"
          "page_wf q" "rows q = rows pg @ [Some (take (unat len) row)]" "hdr_page_id q = n"
        using fi by auto
      obtain e2 where e2: "log e1 n = Some e2" "env_ok K e2" using assms(3) p(4) by (auto simp: hook_ok_def)
      obtain t' e' where t': "index_row (tb_mark_dirty (frame_set_page t1 i q) i) e2 row n (hdr_slot_count pg) = Some (t', e')"
          "tb_wf (tb_unpin t' i)" "env_ok K e'" "meta (tb_unpin t' i) = meta t1"
          "row_added t1 (take (unat len) row) n (tb_unpin t' i)"
        using insert_filled [OF p(1) e2(2) h assms(4) q(2,4,3)] by blast
      have "insert_pages log row len (n # ps) t e = Some (True, tb_unpin t' i, e')"
        using t'(1) e2 q(1) Some by (simp add: pin)
      moreover have "inserted t1 (take (unat len) row) True (tb_unpin t' i)"
        using t'(4,5) w(3) by (auto simp: inserted_def)
      ultimately show ?thesis using t'(2,3) from_t by blast
    next
      case False
      then have f: "frame_insert t1 i row len = Some (t1, PAGE_FULL, None)" using fi by simp
      note u = tb_wf_unpin [OF p(1) tb_holds_i [OF h]]
      have "insert_pages log row len (n # ps) t e = insert_pages log row len ps (tb_unpin t1 i) e1"
        using f Some by (simp add: pin)
      then show ?thesis
        using Cons.IH [OF u(1) p(4)] by (simp add: inserted_from [OF u(3,2)] from_t)
    qed
  qed
qed

text \<open>A new page.\<close>

lemma alloc_has_room:
  assumes "page_alloc True n = Some p" and "unat len \<le> 4050"
  shows "has_room p len"
  using alloc_header [OF assms(1)] assms(2) by (simp add: has_room_def slot_addr_def)

lemma tb_wf_new_page:
  assumes wf: "tb_wf t" and e: "env_ok K e" and run: "tb_new_page t e (tb_page_count t) = (r, t', e')"
  shows "env_ok K e' \<and> meta t' = meta t \<and>
         (case r of
            None \<Rightarrow> tb_wf t' \<and> tb_rows t' = tb_rows t
          | Some i \<Rightarrow> \<exists>p. page_alloc True (tb_page_count t) = Some p \<and> tb_holds t' i (tb_page_count t) p \<and> tb_ok t' \<and>
              tb_view t' = (tb_view t)(tb_page_count t \<mapsto> stamp p))"
proof -
  let ?n = "tb_page_count t"
  obtain mem e1 where m: "draw_mem e = (mem, e1)" by fastforce
  obtain r1 pool f where b: "buf_new_page mem (tb_pool t) (tb_file t) ?n = (r1, pool, f)"
    by (cases "buf_new_page mem (tb_pool t) (tb_file t) ?n") auto
  have t': "r = r1" "t' = t\<lparr>tb_pool := pool, tb_file := f\<rparr>" "e' = e1" using run m b by (simp_all add: tb_new_page_def)
  have ok: "tb_ok t" and inv: "pool_inv (tb_pool t) (fcontents (tb_file t))"
    using wf by (simp_all add: tb_wf_def tb_ok_def)
  have v: "if n < ?n then \<exists>p. tb_view t n = Some p \<and> page_wf p else tb_view t n = None" for n
    using wf by (simp add: tb_wf_def)
  have "tb_view t ?n = None" using v [of ?n] by simp
  then have fresh: "find_frame (tb_pool t) ?n = None"
    by (auto simp: tb_view_def view_def cache_view_def held_None [symmetric] split: option.splits)
  have below: "view (tb_pool t) (fcontents (tb_file t)) m \<noteq> None" if "m < ?n" for m
    using v [of m] that by (auto simp: tb_view_def)
  note p = buf_new_page_run [OF inv b fresh below]
  have lf: "locks_free pool" using buf_new_page_locks [OF _ b] ok by (simp add: tb_ok_def)
  have "env_ok K e'" using e m by (auto simp: t' draw_mem_def env_ok_def core_def split: list.splits)
  moreover have "meta t' = meta t" by (simp add: t' meta_def)
  moreover have tb: "tb_ok t'" using p ok lf by (simp add: t' tb_ok_def)
  ultimately show ?thesis
  proof (cases r)
    case None
    have "tb_view t' = tb_view t" using p None by (simp add: t' tb_view_def)
    then show ?thesis
      using None tb_wf_same [OF wf tb] \<open>env_ok K e'\<close> \<open>meta t' = meta t\<close> meta_fields(3) [of t' t]
      by (simp add: tb_rows_def fun_eq_iff)
  next
    case (Some i)
    then show ?thesis using p tb \<open>env_ok K e'\<close> \<open>meta t' = meta t\<close> by (auto simp: t' tb_view_def tb_holds_def)
  qed
qed

lemma insert_new_page_law:
  assumes wf: "tb_wf t" and e: "env_ok K e" and log: "hook_ok K log" and row: "row_ok row len"
    and max: "tb_page_count t < -1"
  shows "\<exists>r t' e'. insert_new_page log row len (tb_page_count t) t e = Some (r, t', e') \<and> tb_wf t' \<and> env_ok K e' \<and>
           (r = TABLE_OK \<and> row_added t (take (unat len) row) (tb_page_count t) t' \<and>
              meta t' = meta (t\<lparr>tb_page_count := tb_page_count t + 1\<rparr>) \<or>
            r = TABLE_ERROR \<and> tb_rows t' = tb_rows t \<and> meta t' = meta t \<and>
              fst (tb_new_page t e (tb_page_count t)) = None)"
proof -
  let ?n = "tb_page_count t"
  obtain r t1 e1 where np: "tb_new_page t e ?n = (r, t1, e1)" by (cases "tb_new_page t e ?n") auto
  note p = tb_wf_new_page [OF wf e np]
  note m = meta_fields [OF conjunct1 [OF conjunct2 [OF p]]]
  show ?thesis
  proof (cases r)
    case None
    then show ?thesis using p by (simp add: insert_new_page_def np)
  next
    case (Some i)
    then obtain pg where pg: "page_alloc True ?n = Some pg" "tb_holds t1 i ?n pg" "tb_ok t1"
        "tb_view t1 = (tb_view t)(?n \<mapsto> stamp pg)"
      using p by auto
    note al = page_alloc_wf [OF pg(1)]
    have len: "unat len \<le> length row" "unat len < 65530" using row by (auto simp: row_ok_def)
    obtain q where q: "frame_insert t1 i row len = Some (frame_set_page t1 i q, PAGE_OK, Some (hdr_slot_count pg))"
        "page_wf q" "rows q = rows pg @ [Some (take (unat len) row)]" "hdr_page_id q = ?n"
      using frame_insert_law [OF pg(3,2) al(1) len] alloc_has_room [OF pg(1), of len] row by (auto simp: row_ok_def)
    obtain e2 where e2: "log e1 ?n = Some e2" "env_ok K e2" using log p by (auto simp: hook_ok_def)
    let ?c = "tb_mark_dirty (frame_set_page t1 i q) i"
    let ?d = "?c\<lparr>tb_page_count := tb_page_count ?c + 1\<rparr>"
    note c = tb_changed [OF pg(3,2) length_page_wf [OF q(2)] q(4)]
    have cnt: "tb_page_count ?c = ?n" using meta_fields(3) [OF c(3)] m(3) by simp
    have step: "k < ?n + 1 \<longleftrightarrow> k < ?n \<or> k = ?n" for k
    proof -
      have "1 + ?n \<noteq> 0" using max by (metis add.commute eq_neg_iff_add_eq_0 order_less_irrefl)
      from unatSuc [OF this] show ?thesis by (auto simp: word_less_nat_alt word_unat_eq_iff add.commute less_Suc_eq)
    qed
    have wfd: "tb_wf ?d"
    proof -
      have "tb_ok ?d" using c(1) by (simp add: tb_ok_def)
      moreover have "tb_view ?d = (tb_view t)(?n \<mapsto> stamp q)" using c(2) pg(4) by (simp add: tb_view_def fun_eq_iff)
      moreover have "if n < ?n then \<exists>p. tb_view t n = Some p \<and> page_wf p else tb_view t n = None" for n
        using wf by (simp add: tb_wf_def)
      ultimately show ?thesis using q(2) by (auto simp: tb_wf_def cnt step)
    qed
    have rd: "tb_rows ?d = (tb_rows t)(?n \<mapsto> rows q)"
      using c(2) pg(4) q(2) by (auto simp: tb_rows_def tb_view_def fun_eq_iff)
    have hd: "i < 7" using tb_holds_i [OF pg(2)] .
    have "index_ok ?d" using tb_wf_ok [OF wfd] by (simp add: tb_ok_def)
    then obtain x e' where r: "index_row ?d e2 row ?n (hdr_slot_count pg) = Some (?d\<lparr>tb_index := x\<rparr>, e')"
        "index_ok (?d\<lparr>tb_index := x\<rparr>)" "env_ok K e'"
      using index_row_total [OF _ e2(2), of ?d row] row by (force simp: row_ok_def)
    note u = tb_wf_unpin [OF tb_wf_index [OF wfd r(2)] hd]
    have "insert_new_page log row len ?n t e = Some (TABLE_OK, tb_unpin (?d\<lparr>tb_index := x\<rparr>) i, e')"
      using q(1) e2(1) r(1) Some by (simp add: insert_new_page_def np Let_def)
    moreover have "tb_rows t ?n = None"
      using wf by (auto simp: tb_wf_def tb_rows_def dest: spec [of _ ?n])
    then have "row_added t (take (unat len) row) ?n (tb_unpin (?d\<lparr>tb_index := x\<rparr>) i)"
      by (simp add: row_added_def u(2) rd q(3) al(2))
    moreover have "meta (tb_unpin (?d\<lparr>tb_index := x\<rparr>) i) = meta (t\<lparr>tb_page_count := ?n + 1\<rparr>)"
      using u(3) meta_fields [OF c(3)] m by (simp add: meta_def)
    ultimately show ?thesis using u(1) r(3) by blast
  qed
qed

text \<open>The result of an insertion in terms of the rows.\<close>

definition insert_result :: "Table \<Rightarrow> bytes \<Rightarrow> TableResult \<Rightarrow> Table \<Rightarrow> bool" where
  "insert_result t r res t' \<longleftrightarrow>
     res = TABLE_OK \<and> (\<exists>n \<le> tb_page_count t. row_added t r n t') \<or>
     res = TABLE_ERROR \<and> tb_rows t' = tb_rows t"

lemma insert_row_law:
  assumes wf: "tb_wf t" and e: "env_ok K e" and log: "hook_ok K log" and row: "row_ok row len"
    and max: "tb_page_count t < -1"
  shows "\<exists>r t' e'. do { (ok, t1, e1) \<leftarrow> insert_pages log row len (pids t) t e;
                      if ok then Some (TABLE_OK, t1, e1) else insert_new_page log row len (tb_page_count t1) t1 e1 } =
                    Some (r, t', e') \<and> tb_wf t' \<and> env_ok K e' \<and> insert_result t (take (unat len) row) r t' \<and>
           tb_path t' = tb_path t \<and>
           (r = TABLE_ERROR \<longrightarrow>
              (\<exists>t1 e1. insert_pages log row len (pids t) t e = Some (False, t1, e1) \<and> tb_wf t1 \<and>
                 fst (tb_new_page t1 e1 (tb_page_count t1)) = None))"
proof -
  obtain ok t1 e1 where ip: "insert_pages log row len (pids t) t e = Some (ok, t1, e1)" "tb_wf t1" "env_ok K e1"
      "inserted t (take (unat len) row) ok t1"
    using insert_pages_law [OF wf e log row, of "pids t"] by (elim exE conjE)
  have m: "tb_page_count t1 = tb_page_count t" "tb_path t1 = tb_path t"
    using ip(4) meta_fields(2,3) [of t1 t] by (simp_all add: inserted_def)
  show ?thesis
  proof (cases ok)
    case True
    then obtain n where "n < tb_page_count t" "row_added t (take (unat len) row) n t1"
      using ip(4) by (auto simp: inserted_def)
    then have "insert_result t (take (unat len) row) TABLE_OK t1"
      using less_imp_le unfolding insert_result_def by blast
    then show ?thesis using ip(1-3) True m by simp
  next
    case False
    then have same: "tb_rows t1 = tb_rows t" using ip(4) by (simp add: inserted_def)
    have "tb_page_count t1 < -1" using max m(1) by simp
    from insert_new_page_law [OF ip(2,3) log row this]
    obtain r t' e' where np: "insert_new_page log row len (tb_page_count t1) t1 e1 = Some (r, t', e')" "tb_wf t'" "env_ok K e'"
      and res: "r = TABLE_OK \<and> row_added t1 (take (unat len) row) (tb_page_count t1) t' \<and>
              meta t' = meta (t1\<lparr>tb_page_count := tb_page_count t1 + 1\<rparr>) \<or>
            r = TABLE_ERROR \<and> tb_rows t' = tb_rows t1 \<and> meta t' = meta t1 \<and>
              fst (tb_new_page t1 e1 (tb_page_count t1)) = None"
      by (elim exE conjE)
    have "insert_result t (take (unat len) row) r t'"
      using res
    proof (elim disjE conjE)
      assume "r = TABLE_OK" "row_added t1 (take (unat len) row) (tb_page_count t1) t'"
      then show ?thesis by (auto simp: insert_result_def row_added_def same m)
    next
      assume "r = TABLE_ERROR" "tb_rows t' = tb_rows t1"
      then show ?thesis by (simp add: insert_result_def same)
    qed
    moreover have "tb_path t' = tb_path t"
      using res meta_fields(2) [of t' t1] meta_fields(2) [of t' "t1\<lparr>tb_page_count := tb_page_count t1 + 1\<rparr>"] m(2) by auto
    moreover have "r = TABLE_ERROR \<longrightarrow> fst (tb_new_page t1 e1 (tb_page_count t1)) = None" using res by auto
    ultimately show ?thesis
      by (intro exI [of _ r] exI [of _ t'] exI [of _ e'] conjI) (simp_all add: ip(1,2) np False)
  qed
qed

lemma insert_pages_count:
  assumes "tb_wf t" and "env_ok K e" and "hook_ok K log" and "row_ok row len"
    and "insert_pages log row len ps t e = Some (ok, t1, e1)"
  shows "tb_page_count t1 = tb_page_count t"
  using insert_pages_law [OF assms(1-4), of ps] assms(5) meta_fields(3) [of t1 t] by (auto simp: inserted_def)

lemma table_insert_raw_run:
  assumes wf: "tb_wf t" and e: "env_ok K e" and row: "row_ok row len" and max: "tb_page_count t < -1"
  shows "\<exists>r t' e'. table_insert_raw t e row len = Some (r, t', e') \<and> tb_wf t' \<and> env_ok K e' \<and>
           insert_result t (take (unat len) row) r t'"
  using insert_row_law [OF wf e _ row max, of "\<lambda>e n. Some e"]
  by (auto simp: table_insert_raw_def Let_def hook_ok_def)

end
