(* ===== verification/TableOpen.thy ===== *)
theory TableOpen imports TableProps begin

text \<open>
  Opening and closing a table: behind \<open>table_open\<close> the rows of the table are the rows of its
  file, behind \<open>table_close\<close> the rows of the file are the rows of the table.
\<close>

definition data_ok :: "bytes \<Rightarrow> bool" where
  "data_ok c \<longleftrightarrow>
     length c div 4096 < 2 ^ 32 \<and>
     (\<forall>(n :: u32) b. block c (unat n) = Some b \<longrightarrow> hdr_page_id b = n \<and> stamp b = b \<and> page_wf b)"

definition file_rows :: "bytes \<Rightarrow> u32 \<Rightarrow> bytes option list option" where
  "file_rows c n = map_option rows (block c (unat n))"

lemma row_length:
  assumes "page_wf p" and "Some r \<in> set (rows p)"
  shows "length r < 4096"
proof -
  have core: "core_wf p" using assms(1) by (simp add: page_wf_def)
  obtain i where i: "i < unat (hdr_slot_count p)" "row_of p (slot_at p i) = Some r"
    using assms(2) by (auto simp: rows_def slots_of_def)
  note s = core_slot [OF core i(1)] and b = core_bounds [OF core]
  have "length r = unat (s_length (slot_at p i))"
    using i(2) s(3) b(1) by (auto simp: row_of_def split: if_splits)
  then show ?thesis using s(2,3) b(3) i(1) by simp
qed

text \<open>The row buffer: whatever row is read into it, its last byte stays zero.\<close>

definition buf_ok :: "bytes \<Rightarrow> bool" where
  "buf_ok buf \<longleftrightarrow> length buf = 4096 \<and> ends0 buf"

lemma buf_ok_read:
  assumes "buf_ok buf" and "length r < 4096"
  shows "buf_ok (r @ drop (length r) buf)"
  using assms by (auto simp: buf_ok_def ends0_def)

lemma buf_ok_zero: "buf_ok buf \<Longrightarrow> 0 \<in> set buf"
  by (auto simp: buf_ok_def ends0_def) (metis last_in_set)

lemma read_buf_ok:
  assumes wf: "page_wf p" and buf: "buf_ok buf"
  shows "\<exists>pr buf' len. page_read p s buf (of_nat PAGE_SIZE) = Some (pr, buf', len) \<and> buf_ok buf'"
proof -
  have l: "length buf = PAGE_SIZE" using buf by (simp add: buf_ok_def)
  show ?thesis
  proof (cases "unat s < length (rows p) \<and> rows p ! unat s \<noteq> None")
    case True
    then obtain r where r: "rows p ! unat s = Some r" by auto
    then have "length r < 4096" using row_length [OF wf, of r] True by (metis nth_mem)
    then show ?thesis using page_read_law [OF wf l, of s] True r buf_ok_read [OF buf] by simp
  next
    case False
    then show ?thesis using page_read_law [OF wf l, of s] buf by (auto split: option.split)
  qed
qed

lemma load_slots_law:
  assumes "page_wf p" and "tb_holds t i n p" and "tb_wf t" and "env_ok K e" and "buf_ok buf"
  shows "\<exists>x e' buf'. load_slots n i ss t e buf = Some (t\<lparr>tb_index := x\<rparr>, e', buf') \<and>
           tb_wf (t\<lparr>tb_index := x\<rparr>) \<and> env_ok K e' \<and> buf_ok buf'"
  using assms
proof (induction ss arbitrary: t e buf)
  case Nil
  then show ?case by (auto intro!: exI [of _ "tb_index t"])
next
  case (Cons s ss)
  have fp: "frame_page t i = Some p" using tb_holds_facts(5) [OF tb_wf_ok [OF Cons.prems(3)] Cons.prems(2)] .
  obtain pr buf' len where rd: "page_read p s buf (of_nat PAGE_SIZE) = Some (pr, buf', len)" "buf_ok buf'"
    using read_buf_ok [OF Cons.prems(1,5)] by blast
  show ?case
  proof (cases "pr = PAGE_OK")
    case False
    then show ?thesis using Cons.IH [OF Cons.prems(1-4) rd(2)] fp rd(1) by simp
  next
    case True
    have ix: "index_ok t" using tb_wf_ok [OF Cons.prems(3)] by (simp add: tb_ok_def)
    obtain x e1 where r: "index_row t e buf' n s = Some (t\<lparr>tb_index := x\<rparr>, e1)" "index_ok (t\<lparr>tb_index := x\<rparr>)" "env_ok K e1"
      using index_row_total [OF ix Cons.prems(4) buf_ok_zero [OF rd(2)]] by blast
    note w = tb_wf_index [OF Cons.prems(3) r(2)]
    have h: "tb_holds (t\<lparr>tb_index := x\<rparr>) i n p" using Cons.prems(2) by simp
    obtain y e' b' where "load_slots n i ss (t\<lparr>tb_index := x\<rparr>) e1 buf' = Some (t\<lparr>tb_index := x\<rparr>\<lparr>tb_index := y\<rparr>, e', b')"
        "tb_wf (t\<lparr>tb_index := x\<rparr>\<lparr>tb_index := y\<rparr>)" "env_ok K e'" "buf_ok b'"
      using Cons.IH [OF Cons.prems(1) h w r(3) rd(2)] by blast
    then show ?thesis using fp rd(1) r(1) True by (auto intro!: exI [of _ y])
  qed
qed

lemma load_pages_law:
  assumes "tb_wf t" and "env_ok K e" and "buf_ok buf"
  shows "\<exists>t' e' buf'. load_pages ps t e buf = Some (t', e', buf') \<and> tb_wf t' \<and> tb_rows t' = tb_rows t \<and>
           meta t' = meta t \<and> env_ok K e'"
  using assms
proof (induction ps arbitrary: t e buf)
  case (Cons n ps)
  obtain r t1 e1 where pin: "tb_pin t e n = (r, t1, e1)" by (cases "tb_pin t e n") auto
  note p = tb_wf_pin [OF Cons.prems(1,2) pin]
  show ?case
  proof (cases r)
    case None
    then show ?thesis using Cons.IH [OF p(1,4) Cons.prems(3)] by (simp add: pin p(2,3))
  next
    case (Some i)
    then obtain pg where h: "tb_holds t1 i n pg" using p(5) by auto
    note w = tb_wf_page [OF p(1) h]
    obtain x e2 b2 where ls: "load_slots n i (slot_ids pg) t1 e1 buf = Some (t1\<lparr>tb_index := x\<rparr>, e2, b2)"
        "tb_wf (t1\<lparr>tb_index := x\<rparr>)" "env_ok K e2" "buf_ok b2"
      using load_slots_law [OF w(1) h p(1,4) Cons.prems(3)] by blast
    note u = tb_wf_unpin [OF ls(2) tb_holds_i [OF h]]
    have "load_pages (n # ps) t e buf = load_pages ps (tb_unpin (t1\<lparr>tb_index := x\<rparr>) i) e2 b2"
      using ls(1) tb_holds_facts(5) [OF tb_wf_ok [OF p(1)] h] by (simp add: pin Some)
    then show ?thesis using Cons.IH [OF u(1) ls(3,4)] by (simp add: u(2,3) p(2,3))
  qed
qed simp

text \<open>The state of a table that was just opened.\<close>

lemma fresh_table:
  assumes "data_ok (fcontents f)" and "index_ok t" and "tb_file t = f" and "tb_pool t = buf_init"
    and "tb_page_count t = of_nat (length (fcontents f) div 4096)"
  shows "tb_wf t" and "tb_rows t = file_rows (fcontents f)"
proof -
  have v: "tb_view t n = block (fcontents f) (unat n)" for n
    using assms by (simp add: tb_view_def) (rule buf_init_inv(2), auto simp: data_ok_def)
  have inv: "pool_inv buf_init (fcontents f)"
    using assms(1) by (intro buf_init_inv(1)) (auto simp: data_ok_def)
  have lf: "locks_free buf_init" by (simp add: locks_free_def buf_init_def zero_lock_def)
  have lt: "n < tb_page_count t \<longleftrightarrow> (unat n + 1) * 4096 \<le> length (fcontents f)" for n
  proof -
    have "unat (tb_page_count t) = length (fcontents f) div 4096"
      using assms(1,5) by (simp add: data_ok_def unat_of_nat)
    then have "n < tb_page_count t \<longleftrightarrow> unat n < length (fcontents f) div 4096"
      by (simp add: word_less_nat_alt)
    also have "\<dots> \<longleftrightarrow> (unat n + 1) * 4096 \<le> length (fcontents f)"
      using less_eq_div_iff_mult_less_eq [of 4096 "Suc (unat n)" "length (fcontents f)"] by (simp add: Suc_le_eq)
    finally show ?thesis .
  qed
  show "tb_wf t"
  proof -
    have "tb_ok t" using inv lf assms(2-4) by (simp add: tb_ok_def)
    moreover have "if n < tb_page_count t then \<exists>p. tb_view t n = Some p \<and> page_wf p else tb_view t n = None" for n
    proof (cases "n < tb_page_count t")
      case True
      then obtain b where b: "block (fcontents f) (unat n) = Some b" using lt [of n] by (simp add: block_def)
      then have "page_wf b" using assms(1) by (simp add: data_ok_def)
      then show ?thesis using True v b by simp
    next
      case False
      then show ?thesis using v [of n] lt [of n] by (simp add: block_def)
    qed
    ultimately show ?thesis by (simp add: tb_wf_def)
  qed
  show "tb_rows t = file_rows (fcontents f)" by (simp add: tb_rows_def file_rows_def v fun_eq_iff)
qed

end
