(* ===== verification/Dispatcher.thy ===== *)
theory Dispatcher imports TableDml begin

text \<open>
  The dispatcher of dispatcher/dispatcher.c, with \<open>redo_insert\<close> of WAL/wal.c, which needs the
  tables. The result of \<open>handle_sql\<close> is the exit code, what a \<open>SELECT\<close> prints and the new
  state; \<open>None\<close> is an access outside an array or a statement on which the parser hangs.
\<close>

datatype CommandType = CMD_META | CMD_SQL | CMD_EMPTY | CMD_UNKNOWN

datatype ExecResult = EXEC_SUCCESS | EXEC_EXIT | EXEC_UNRECOGNIZED | EXEC_ERROR

definition MAX_INPUT_LENGTH :: nat where "MAX_INPUT_LENGTH = 1024"

lemma MAX_INPUT_LENGTH_eq [simp]: "MAX_INPUT_LENGTH = 1024"
  by (simp add: MAX_INPUT_LENGTH_def)

record Command =
  cmd_raw :: cstr
  cmd_type :: CommandType
  cmd_args :: "cstr option"

definition ltrim :: "cstr \<Rightarrow> cstr" where
  "ltrim s = dropWhile c_isspace s"

fun starts_with_ci :: "cstr \<Rightarrow> cstr \<Rightarrow> bool" where
  "starts_with_ci str [] \<longleftrightarrow> True"
| "starts_with_ci [] (p # prefix) \<longleftrightarrow> False"
| "starts_with_ci (c # str) (p # prefix) \<longleftrightarrow> c_tolower c = c_tolower p \<and> starts_with_ci str prefix"

text \<open>The directories of \<open>data\<close> and the help text are only printed.\<close>

definition handle_show_db :: ExecResult where "handle_show_db = EXEC_SUCCESS"

definition handle_help :: ExecResult where "handle_help = EXEC_SUCCESS"

definition db_path :: "cstr \<Rightarrow> cstr" where
  "db_path name = take 127 (lit ''data/'' @ name)"

definition create_db :: "Env \<Rightarrow> Intent \<Rightarrow> ExecResult \<times> Env" where
  "create_db e intent =
     (let path = db_path (it_db_name intent) in
      if os_stat e path then (EXEC_SUCCESS, e) else (EXEC_SUCCESS, snd (os_mkdir e path)))"

definition use_db :: "Env \<Rightarrow> Intent \<Rightarrow> ExecResult \<times> Env" where
  "use_db e intent =
     (let path = db_path (it_db_name intent) in
      if \<not> os_stat e path then (EXEC_SUCCESS, e)
      else
        let e = e\<lparr>current_db := take 63 (it_db_name intent)\<rparr>
        in (EXEC_SUCCESS, snd (write_text e (lit ''data/.current_db'') (current_db e))))"

text \<open>\<open>intent.values[i]\<close>: the entries behind the count are empty strings.\<close>

definition value_at :: "Intent \<Rightarrow> nat \<Rightarrow> cstr" where
  "value_at intent i = (if i < length (it_values intent) then it_values intent ! i else [])"

text \<open>
  The part of the \<open>INSERT\<close> branch between beginning and committing: the row text, the log
  record, the table. \<open>False\<close> means that the branch is left with \<open>EXEC_ERROR\<close>.
\<close>

definition logged_insert :: "Env \<Rightarrow> Intent \<Rightarrow> u32 \<Rightarrow> (bool \<times> Env) option" where
  "logged_insert e intent txn =
     (let (junk, e) = draw_stack WAL_MAX_DATA e;
          text = value_at intent 0 @ [ch CHR ''|''] @ value_at intent 1;
          written = length text
      in do {
        buffer \<leftarrow> snprintf_at junk 0 text;
        if written \<ge> WAL_MAX_DATA then Some (False, e)
        else do {
          (_, wal, f) \<leftarrow> wal_write (g_wal e) (g_wal_file e) txn WAL_INSERT (it_table intent)
                            (Some buffer) (of_nat written) 0;
          let e = e\<lparr>g_wal := wal, g_wal_file := f\<rparr>;
          (table, e) \<leftarrow> table_open e (it_table intent);
          (case table of
             None \<Rightarrow> Some (False, e)
           | Some t \<Rightarrow> do {
               (_, t, e) \<leftarrow> table_insert_raw t e buffer (of_nat written);
               Some (True, table_close t e)
             })
        }
      })"

definition sql_insert :: "Env \<Rightarrow> Intent \<Rightarrow> (ExecResult \<times> Env) option" where
  "sql_insert e intent =
     (let auto_commit = \<not> txn_active e;
          (txn, e) =
            (if auto_commit
             then case wal_begin (g_wal e) (g_wal_file e) of
                    (_, txn, wal, f) \<Rightarrow>
                      (case txn of Some x \<Rightarrow> x | None \<Rightarrow> current_txn e, e\<lparr>g_wal := wal, g_wal_file := f\<rparr>)
             else (current_txn e, e))
      in do {
        (stored, e) \<leftarrow> logged_insert e intent txn;
        if \<not> stored then Some (EXEC_ERROR, e)
        else if auto_commit
          then case wal_commit (g_wal e) (g_wal_file e) txn of
                 (_, wal, f) \<Rightarrow> Some (EXEC_SUCCESS, e\<lparr>g_wal := wal, g_wal_file := f\<rparr>)
        else Some (EXEC_SUCCESS, e)
      })"

text \<open>The branches that open a table, run one operation on it and close it.\<close>

definition with_table ::
  "Env \<Rightarrow> cstr \<Rightarrow> (Table \<Rightarrow> Env \<Rightarrow> ('a \<times> Table \<times> Env) option) \<Rightarrow> 'a \<Rightarrow> (ExecResult \<times> 'a \<times> Env) option" where
  "with_table e name op none = do {
     (table, e) \<leftarrow> table_open e name;
     (case table of
        None \<Rightarrow> Some (EXEC_ERROR, none, e)
      | Some t \<Rightarrow> do {
          (out, t, e) \<leftarrow> op t e;
          Some (EXEC_SUCCESS, out, table_close t e)
        })
   }"

definition sql_begin :: "Env \<Rightarrow> ExecResult \<times> Env" where
  "sql_begin e =
     (case wal_begin (g_wal e) (g_wal_file e) of
        (_, txn, wal, f) \<Rightarrow>
          (EXEC_SUCCESS,
           e\<lparr>g_wal := wal, g_wal_file := f, current_txn := (case txn of Some x \<Rightarrow> x | None \<Rightarrow> current_txn e),
             txn_active := True\<rparr>))"

definition sql_commit :: "Env \<Rightarrow> ExecResult \<times> Env" where
  "sql_commit e =
     (case wal_commit (g_wal e) (g_wal_file e) (current_txn e) of
        (_, wal, f) \<Rightarrow> (EXEC_SUCCESS, e\<lparr>g_wal := wal, g_wal_file := f, txn_active := False\<rparr>))"

definition no_rows :: "ExecResult \<times> Env \<Rightarrow> ExecResult \<times> cstr list list \<times> Env" where
  "no_rows r = (fst r, [], snd r)"

definition handle_sql :: "Env \<Rightarrow> Command \<Rightarrow> (ExecResult \<times> cstr list list \<times> Env) option" where
  "handle_sql e cmd = do {
     (result, intent) \<leftarrow> parse (cmd_raw cmd);
     if result \<noteq> PARSE_OK then Some (EXEC_ERROR, [], e)
     else case it_type intent of
       INTENT_CREATE_DB \<Rightarrow> Some (no_rows (create_db e intent))
     | INTENT_USE_DB \<Rightarrow> Some (no_rows (use_db e intent))
     | INTENT_CREATE_TABLE \<Rightarrow> Some (EXEC_SUCCESS, [], snd (table_create e intent))
     | INTENT_DROP_TABLE \<Rightarrow> Some (EXEC_SUCCESS, [], snd (table_drop e (it_table intent)))
     | INTENT_INSERT \<Rightarrow> map_option no_rows (sql_insert e intent)
     | INTENT_SELECT \<Rightarrow> with_table e (it_table intent) (\<lambda>t e. table_scan t e intent) []
     | INTENT_UPDATE \<Rightarrow>
         with_table e (it_table intent)
           (\<lambda>t e. map_option (\<lambda>(_, n, t, e). ([], t, e)) (table_update t e intent)) []
     | INTENT_DELETE \<Rightarrow>
         with_table e (it_table intent)
           (\<lambda>t e. map_option (\<lambda>(_, n, t, e). ([], t, e)) (table_delete t e intent)) []
     | INTENT_BEGIN \<Rightarrow> Some (no_rows (sql_begin e))
     | INTENT_COMMIT \<Rightarrow> Some (no_rows (sql_commit e))
     | INTENT_UNKNOWN \<Rightarrow> Some (EXEC_ERROR, [], e)
   }"

definition SQL_KEYWORDS :: "cstr list" where
  "SQL_KEYWORDS =
     map lit [''select'', ''insert'', ''update'', ''delete'', ''create'', ''drop'', ''alter'', ''use'',
       ''begin'', ''commit'']"

definition classify :: "Command \<Rightarrow> Command" where
  "classify cmd =
     (let s = ltrim (cmd_raw cmd) in
      case s of
        [] \<Rightarrow> cmd\<lparr>cmd_type := CMD_EMPTY\<rparr>
      | c # r \<Rightarrow>
          if c = ch CHR ''.'' then cmd\<lparr>cmd_type := CMD_META, cmd_args := Some r\<rparr>
          else if starts_with_ci s (lit ''show'')
            then cmd\<lparr>cmd_type := CMD_META, cmd_args := Some (ltrim (drop 4 s))\<rparr>
          else if (\<exists>k \<in> set SQL_KEYWORDS. starts_with_ci s k)
            then cmd\<lparr>cmd_type := CMD_SQL, cmd_args := Some s\<rparr>
          else cmd\<lparr>cmd_type := CMD_UNKNOWN\<rparr>)"

definition dispatch :: "Env \<Rightarrow> Command \<Rightarrow> (ExecResult \<times> cstr list list \<times> Env) option" where
  "dispatch e cmd =
     (let cmd = classify cmd in
      case cmd_type cmd of
        CMD_EMPTY \<Rightarrow> Some (EXEC_SUCCESS, [], e)
      | CMD_META \<Rightarrow>
          (let arg = ltrim (case cmd_args cmd of Some a \<Rightarrow> a | None \<Rightarrow> []) in
           if arg = lit ''exit'' \<or> arg = lit ''quit'' then Some (EXEC_EXIT, [], e)
           else if arg = lit ''help'' then Some (handle_help, [], e)
           else if starts_with_ci arg (lit ''db'') then Some (handle_show_db, [], e)
           else Some (EXEC_UNRECOGNIZED, [], e))
      | CMD_SQL \<Rightarrow> handle_sql e cmd
      | CMD_UNKNOWN \<Rightarrow> Some (EXEC_UNRECOGNIZED, [], e))"

text \<open>
  \<open>redo_insert\<close>: the data of a record goes to a buffer of \<open>WAL_MAX_DATA + 1\<close> bytes; the name
  of the table is read from the record up to a zero byte.
\<close>

definition redo_insert :: "Env \<Rightarrow> walrec \<Rightarrow> Env option" where
  "redo_insert e r = do {
     name \<leftarrow> str_at (rec_table r);
     (table, e) \<leftarrow> table_open e name;
     (case table of
        None \<Rightarrow> Some e
      | Some t \<Rightarrow>
          (case draw_stack (WAL_MAX_DATA + 1) e of
             (buf, e) \<Rightarrow> do {
               src \<leftarrow> mem_read (rec_data r) 0 (unat (rec_data_len r));
               buf \<leftarrow> mem_write buf 0 src;
               buf \<leftarrow> mem_write buf (unat (rec_data_len r)) [0];
               (_, t, e) \<leftarrow> table_insert_raw t e buf (rec_data_len r);
               (t, e) \<leftarrow> table_flush t e;
               Some (table_close t e)
             }))
   }"

text \<open>
  Start-up in \<open>main\<close>, up to the prompt: \<open>main_open\<close> is the start up to the open call in
  \<open>wal_open\<close>, with no file when memory or the open call fails, and then \<open>None\<close> in the result of
  \<open>main_start\<close> means that the program ends with code 1. Recovery gets the log as an argument;
  what it redoes does not look at \<open>g_wal\<close>.
\<close>

definition WAL_FILE :: cstr where "WAL_FILE = lit ''data/wal.log''"

definition restore_db :: "Env \<Rightarrow> Env" where
  "restore_db e =
     (case fopen_read e (lit ''data/.current_db'') of
        (None, e) \<Rightarrow> e
      | (Some text, e) \<Rightarrow>
          (let line = fst (fgets 64 text)
           in e\<lparr>current_db := (if line = [] then current_db e else chomp line)\<rparr>))"

definition main_open :: "Env \<Rightarrow> osfile option \<times> Env" where
  "main_open e =
     (let e = table_subsystem_init (e\<lparr>current_db := lit ''default'', g_wal := None, txn_active := False,
                current_txn := 0\<rparr>);
          (mem, e) = draw_mem e
      in if \<not> mem then (None, e) else os_open True e WAL_FILE)"

definition main_start :: "Env \<Rightarrow> Env option option" where
  "main_start e =
     (case main_open e of
        (None, e) \<Rightarrow> Some None
      | (Some f, e) \<Rightarrow>
          (let (junk, e) = draw_stack REC_SIZE e;
               (wal, f) = wal_open True True junk f;
               e = restore_db e;
               (junk, e) = draw_stack REC_SIZE e
           in do {
             (_, wal, f, e) \<leftarrow> wal_recover redo_insert junk wal f e;
             Some (Some (e\<lparr>g_wal := wal, g_wal_file := f\<rparr>))
           }))"

definition main_end :: "Env \<Rightarrow> Env" where
  "main_end e =
     (case wal_close (g_wal e) (g_wal_file e) of f \<Rightarrow> (os_close e WAL_FILE f)\<lparr>g_wal := None\<rparr>)"

end
