(* ===== verification/Repl.thy ===== *)
theory Repl imports Dispatcher begin

text \<open>
  The prompt of reph/reph.c. What \<open>read_input\<close> finds is an event: nothing within the timeout,
  the end of the input or an error, or one piece of a line of at most 255 characters, as
  \<open>fgets\<close> cuts it; \<open>cut_lines\<close> is that cutting. The flag of an event is whether
  \<open>g_interrupted\<close> is set when the loop tests it after reading; on a timeout it is not tested.
\<close>

datatype input = Timeout | Closed | Piece bytes

text \<open>\<open>read_input\<close>: the status, and the line without its newline.\<close>

definition read_input :: "input \<Rightarrow> int \<times> cstr" where
  "read_input ev =
     (case ev of
        Timeout \<Rightarrow> (0, [])
      | Closed \<Rightarrow> (-1, [])
      | Piece s \<Rightarrow>
          (let s = takeWhile (\<lambda>c. c \<noteq> 0) s
           in (1, if s \<noteq> [] \<and> last s = 10 then butlast s else s)))"

function cut_lines :: "bytes \<Rightarrow> bytes list" where
  "cut_lines [] = []"
| "cut_lines (c # s) = (case fgets 256 (c # s) of (l, r) \<Rightarrow> l # cut_lines r)"
  by pat_completeness auto
termination
proof (relation "measure length", goal_cases)
  case 2
  then show ?case using fgets_less by (auto dest: sym)
qed simp

record Repl =
  rp_query :: cstr
  rp_env :: Env
  rp_out :: "(ExecResult \<times> cstr list list) list"
  rp_quit :: bool

definition run_command :: "Repl \<Rightarrow> cstr \<Rightarrow> Repl option" where
  "run_command r text = do {
     (res, rows, e) \<leftarrow> dispatch (rp_env r)
        \<lparr>cmd_raw = take (MAX_INPUT_LENGTH - 1) text, cmd_type = CMD_UNKNOWN, cmd_args = None\<rparr>;
     Some (r\<lparr>rp_env := e, rp_out := rp_out r @ [(res, rows)], rp_quit := rp_quit r \<or> res = EXEC_EXIT\<rparr>)
   }"

text \<open>\<open>strncat (query, line, sizeof (query) - strlen (query) - 1)\<close>\<close>

definition append_line :: "cstr \<Rightarrow> cstr \<Rightarrow> cstr" where
  "append_line query line = query @ take (MAX_INPUT_LENGTH - length query - 1) line"

text \<open>One iteration of the loop of \<open>repl_run\<close>.\<close>

definition repl_step :: "Repl \<Rightarrow> input \<times> bool \<Rightarrow> Repl option" where
  "repl_step r ev =
     (case read_input (fst ev) of
        (status, line) \<Rightarrow>
          if rp_quit r then Some r
          else if status = 0 then Some r
          else if snd ev then Some (r\<lparr>rp_query := []\<rparr>)
          else if status < 0 then Some (r\<lparr>rp_quit := True\<rparr>)
          else if line = [] then Some r
          else if hd line = ch CHR ''.'' \<or> strcasecmp_eq line (lit ''show db'') \<or>
                  strcasecmp_eq line (lit ''showdb'')
            then run_command r line
          else
            let query = append_line (rp_query r) line in
            if ch CHR '';'' \<in> set line
            then map_option (\<lambda>r. r\<lparr>rp_query := []\<rparr>)
                   (run_command r (takeWhile (\<lambda>c. c \<noteq> ch CHR '';'') query))
            else Some (r\<lparr>rp_query := query\<rparr>))"

definition repl_run :: "Env \<Rightarrow> (input \<times> bool) list \<Rightarrow> Repl option" where
  "repl_run e evs =
     fold_opt repl_step \<lparr>rp_query = [], rp_env = e, rp_out = [], rp_quit = False\<rparr> evs"

text \<open>\<open>main\<close>: the events last until the loop is left, as \<open>fgets\<close> fails in the end.\<close>

definition kerneldb_main :: "Env \<Rightarrow> (input \<times> bool) list \<Rightarrow> (int \<times> (ExecResult \<times> cstr list list) list \<times> Env) option" where
  "kerneldb_main e evs = do {
     start \<leftarrow> main_start e;
     (case start of
        None \<Rightarrow> Some (1, [], snd (main_open e))
      | Some e \<Rightarrow> do {
          r \<leftarrow> repl_run e evs;
          Some (0, rp_out r, main_end (rp_env r))
        })
   }"

end
