(* ===== verification/SqlInsert.thy ===== *)
theory SqlInsert imports TableOpen WalRecover Repl begin

text \<open>
  An \<open>INSERT\<close> from the dispatcher down to the files: opening the table, storing the row,
  closing the table and writing the log, in an environment in which no call fails.
\<close>

definition works :: "Env \<Rightarrow> bool" where
  "works e \<longleftrightarrow> e_open e = [] \<and> e_io e = [] \<and> e_mem e = []"

lemma works_draws [simp]:
  "works e \<Longrightarrow> draw_open e = (True, e)" "works e \<Longrightarrow> draw_mem e = (True, e)"
  "works e \<Longrightarrow> new_file e c = (\<lparr>fcontents = c, foffset = 0, fsched = []\<rparr>, e)"
  by (simp_all add: works_def draw_open_def draw_mem_def new_file_def)

lemma works_update [simp]:
  "works (e\<lparr>e_heap := h\<rparr>) = works e" "works (e\<lparr>g_wal := w\<rparr>) = works e" "works (e\<lparr>g_wal_file := f\<rparr>) = works e"
  "works (e\<lparr>e_files := fs\<rparr>) = works e" "works (e\<lparr>current_db := d\<rparr>) = works e"
  "works (e\<lparr>txn_active := b\<rparr>) = works e" "works (e\<lparr>current_txn := x\<rparr>) = works e" "works (e\<lparr>e_dirs := ds\<rparr>) = works e"
  by (simp_all add: works_def)

lemma works_stack: "works e \<Longrightarrow> draw_stack n e = (s, e') \<Longrightarrow> works e'"
  by (auto simp: works_def draw_stack_def split: list.splits)

lemma data_path_heap [simp]: "data_path (e\<lparr>e_heap := h\<rparr>) name = data_path e name"
  by (simp add: data_path_def)

lemma unat_minus_one_u32: "unat (-1 :: u32) = 2 ^ 32 - 1"
  by (simp add: unsigned_minus_1_eq_mask mask_eq_exp_minus_1)

text \<open>A file on which nothing fails stays so.\<close>

lemma quiet_put: "quiet f \<Longrightarrow> quiet (snd (os_put f bs))"
  by (simp add: os_put_def quiet_def)

lemma quiet_write_disk: "quiet f \<Longrightarrow> page_write_disk p f = (r, p', f') \<Longrightarrow> quiet f'"
  by (auto simp: page_write_disk_def Let_def os_put_def quiet_def [symmetric] split: if_splits)

lemma quiet_read_disk: "quiet f \<Longrightarrow> page_read_disk p f n = (r, p', f') \<Longrightarrow> quiet f'"
  by (auto simp: page_read_disk_def Let_def os_get_def split: if_splits)

lemma quiet_evict: "quiet f \<Longrightarrow> evict_frame pool f i = (r, pool', f') \<Longrightarrow> quiet f'"
  by (auto simp: evict_frame_def Let_def dest: quiet_write_disk split: option.splits prod.splits if_splits)

lemma quiet_take_slot: "quiet f \<Longrightarrow> take_slot pool f = (r, pool', f') \<Longrightarrow> quiet f'"
  by (auto simp: take_slot_def Let_def dest: quiet_evict split: option.splits prod.splits if_splits)

lemma quiet_buf_pin:
  assumes "quiet f" and "buf_pin mem pool f n = (r, pool', f')"
  shows "quiet f'"
proof (cases "find_frame pool n")
  case (Some i)
  then show ?thesis using assms by (simp add: buf_pin_def)
next
  case None
  obtain s p1 f1 where t: "take_slot pool f = (s, p1, f1)" by (cases "take_slot pool f") auto
  have q: "quiet f1" by (rule quiet_take_slot [OF assms(1) t])
  then show ?thesis
    using assms(2) None t quiet_read_disk [OF q]
    by (auto simp: buf_pin_def Let_def split: option.splits prod.splits if_splits)
qed

lemma quiet_buf_new_page: "quiet f \<Longrightarrow> buf_new_page mem pool f n = (r, pool', f') \<Longrightarrow> quiet f'"
  by (auto simp: buf_new_page_def dest: quiet_take_slot split: option.splits prod.splits)

definition tb_quiet :: "Table \<Rightarrow> bool" where
  "tb_quiet t \<longleftrightarrow> quiet (tb_file t)"

lemma tb_quiet_update [simp]:
  "tb_quiet (t\<lparr>tb_pool := x\<rparr>) = tb_quiet t" "tb_quiet (t\<lparr>tb_index := y\<rparr>) = tb_quiet t"
  "tb_quiet (t\<lparr>tb_page_count := z\<rparr>) = tb_quiet t" "tb_quiet (tb_unpin t i) = tb_quiet t"
  "tb_quiet (tb_mark_dirty t i) = tb_quiet t" "tb_quiet (frame_set_page t i p) = tb_quiet t"
  "tb_quiet (frame_set_lock t i l) = tb_quiet t" "tb_quiet (frame_write_unlock t i) = tb_quiet t"
  by (simp_all add: tb_quiet_def tb_unpin_def tb_mark_dirty_def frame_set_page_def frame_set_lock_def
      frame_write_unlock_def)

lemma works_pin:
  assumes "works e" and "tb_quiet t" and "tb_pin t e n = (r, t', e')"
  shows "e' = e" and "tb_quiet t'"
  using assms quiet_buf_pin [of "tb_file t" True "tb_pool t" n]
  by (auto simp: tb_pin_def tb_quiet_def split: prod.splits)

lemma works_new_page:
  assumes "works e" and "tb_quiet t" and "tb_new_page t e n = (r, t', e')"
  shows "e' = e" and "tb_quiet t'"
  using assms quiet_buf_new_page [of "tb_file t" True "tb_pool t" n]
  by (auto simp: tb_new_page_def tb_quiet_def split: prod.splits)

lemma works_frame_insert:
  assumes "tb_quiet t" and "frame_insert t i row len = Some (t', pr, s)"
  shows "tb_quiet t'"
  using assms by (auto simp: frame_insert_def frame_write_lock_def split: Option.bind_splits)

lemma works_index_row:
  assumes "works e" and "index_row t e row n s = Some (t', e')"
  shows "works e' \<and> (tb_quiet t \<longrightarrow> tb_quiet t')"
  using assms
  by (auto simp: index_row_def row_key_def get_col_value_def index_insert_def dest: works_stack
      split: Option.bind_splits prod.splits option.splits)

lemma works_insert_pages:
  assumes "works e" and "tb_quiet t" and "insert_pages (\<lambda>e n. Some e) row len ps t e = Some (ok, t', e')"
  shows "works e' \<and> tb_quiet t'"
  using assms
proof (induction ps arbitrary: t e)
  case (Cons n ps)
  obtain r t1 e1 where pin: "tb_pin t e n = (r, t1, e1)" by (cases "tb_pin t e n") auto
  note p = works_pin [OF Cons.prems(1,2) pin]
  show ?case
  proof (cases r)
    case None
    then show ?thesis using Cons.IH [OF Cons.prems(1) p(2)] Cons.prems(3) by (simp add: pin p(1))
  next
    case (Some i)
    then obtain t2 pr s where fi: "frame_insert t1 i row len = Some (t2, pr, s)"
      using Cons.prems(3) by (auto simp: pin split: Option.bind_splits)
    note q = works_frame_insert [OF p(2) fi]
    show ?thesis
    proof (cases "pr = PAGE_OK")
      case True
      then obtain s' t3 where ir: "index_row (tb_mark_dirty t2 i) e row n s' = Some (t3, e')" "t' = tb_unpin t3 i"
        using Cons.prems(3) Some by (auto simp: pin p(1) fi Let_def split: Option.bind_splits)
      then show ?thesis using works_index_row [OF Cons.prems(1) ir(1)] q by simp
    next
      case False
      then show ?thesis
        using Cons.IH [of e "tb_unpin t2 i"] Cons.prems Some q by (simp add: pin p(1) fi)
    qed
  qed
qed simp

lemma new_page_works:
  assumes "tb_wf t" and "tb_quiet t" and "works e"
  shows "fst (tb_new_page t e n) \<noteq> None"
proof -
  have inv: "pool_inv (tb_pool t) (fcontents (tb_file t))" and q: "quiet (tb_file t)"
    using assms(1,2) by (simp_all add: tb_wf_def tb_ok_def tb_quiet_def)
  obtain s p f where ts: "take_slot (tb_pool t) (tb_file t) = (s, p, f)"
    by (cases "take_slot (tb_pool t) (tb_file t)") auto
  then obtain i where "s = Some i" using take_slot_quiet(1) [OF inv q ts] by auto
  moreover obtain pg where "page_alloc True n = Some pg" by (simp add: page_alloc_def Let_def)
  ultimately show ?thesis using ts assms(3) by (simp add: tb_new_page_def buf_new_page_def)
qed

lemma insert_new_works:
  assumes "works e" and "tb_quiet t" and "insert_new_page (\<lambda>e n. Some e) row len n t e = Some (r, t', e')"
  shows "works e' \<and> tb_quiet t'"
proof -
  obtain r1 t1 e1 where np: "tb_new_page t e n = (r1, t1, e1)" by (cases "tb_new_page t e n") auto
  note p = works_new_page [OF assms(1,2) np]
  show ?thesis
  proof (cases r1)
    case None
    then show ?thesis using assms p by (simp add: insert_new_page_def np)
  next
    case (Some i)
    then obtain t2 pr s where fi: "frame_insert t1 i row len = Some (t2, pr, s)"
      using assms(3) by (auto simp: insert_new_page_def np split: Option.bind_splits)
    note q = works_frame_insert [OF p(2) fi]
    show ?thesis
    proof (cases "pr = PAGE_OK")
      case True
      let ?t = "(tb_mark_dirty t2 i)\<lparr>tb_page_count := tb_page_count (tb_mark_dirty t2 i) + 1\<rparr>"
      obtain s' t3 where ir: "index_row ?t e row n s' = Some (t3, e')" "t' = tb_unpin t3 i"
        using assms(3) True Some by (auto simp: insert_new_page_def np p(1) fi Let_def split: Option.bind_splits)
      then show ?thesis using works_index_row [OF assms(1) ir(1)] q by simp
    next
      case False
      then show ?thesis using assms Some q by (auto simp: insert_new_page_def np p(1) fi)
    qed
  qed
qed

lemma insert_raw_works:
  assumes wf: "tb_wf t" and q: "tb_quiet t" and w: "works e" and e: "env_ok K e" and row: "row_ok row len"
    and max: "tb_page_count t < -1"
  shows "\<exists>t' e' n. table_insert_raw t e row len = Some (TABLE_OK, t', e') \<and> tb_wf t' \<and> tb_quiet t' \<and> works e' \<and>
           env_ok K e' \<and> n \<le> tb_page_count t \<and> row_added t (take (unat len) row) n t' \<and> tb_path t' = tb_path t"
proof -
  let ?log = "\<lambda>e n. Some e :: Env option"
  have hk: "hook_ok K ?log" by (simp add: hook_ok_def)
  obtain r t' e' where run: "do { (ok, t1, e1) \<leftarrow> insert_pages ?log row len (pids t) t e;
                      if ok then Some (TABLE_OK, t1, e1) else insert_new_page ?log row len (tb_page_count t1) t1 e1 } =
                    Some (r, t', e')" "tb_wf t'" "env_ok K e'" "insert_result t (take (unat len) row) r t'"
      "tb_path t' = tb_path t"
    and err: "r = TABLE_ERROR \<longrightarrow>
              (\<exists>t1 e1. insert_pages ?log row len (pids t) t e = Some (False, t1, e1) \<and> tb_wf t1 \<and>
                 fst (tb_new_page t1 e1 (tb_page_count t1)) = None)"
    using insert_row_law [OF wf e hk row max] by (elim exE conjE)
  obtain ok t1 e1 where ip: "insert_pages ?log row len (pids t) t e = Some (ok, t1, e1)"
    using run(1) by (auto split: Option.bind_splits)
  note ipw = works_insert_pages [OF w q ip]
  have "r \<noteq> TABLE_ERROR"
  proof
    assume "r = TABLE_ERROR"
    then have "tb_wf t1" "fst (tb_new_page t1 e1 (tb_page_count t1)) = None" using err ip by auto
    then show False using new_page_works [of t1 e1] ipw by simp
  qed
  then have ok: "r = TABLE_OK" using run(4) by (auto simp: insert_result_def)
  have "works e' \<and> tb_quiet t'"
    using run(1) ip ipw insert_new_works [of e1 t1 row len "tb_page_count t1" r t' e'] by (auto split: if_splits)
  then show ?thesis
    using run ok by (auto simp: table_insert_raw_def Let_def insert_result_def)
qed

text \<open>Opening: what is used of the schema file is that it names at most 32 columns.\<close>

definition schema_ok :: "bytes option \<Rightarrow> bool" where
  "schema_ok s \<longleftrightarrow> (\<exists>x. s = Some x \<and> (case scan_int x of None \<Rightarrow> True | Some (n, _) \<Rightarrow> n \<le> 32))"

lemma load_columns_total:
  "length cols = 32 \<Longrightarrow> i + n \<le> 32 \<Longrightarrow> \<exists>cols'. load_columns i n s cols = Some cols' \<and> length cols' = 32"
  by (induction i n s cols rule: load_columns.induct) (auto simp: Let_def split: option.split)

lemma load_schema_works:
  assumes "works e" and "schema_ok (e_files e (schema_path e name))"
  shows "\<exists>cols n. load_schema e name = Some (Inr (cols, n), e)"
proof -
  obtain x where t: "e_files e (schema_path e name) = Some x"
      "case scan_int x of None \<Rightarrow> True | Some (n, _) \<Rightarrow> n \<le> 32"
    using assms(2) by (auto simp: schema_ok_def)
  show ?thesis
  proof (cases "scan_int x")
    case None
    then show ?thesis using assms(1) t by (simp add: load_schema_def fopen_read_def)
  next
    case (Some ns)
    obtain n s where ns: "ns = (n, s)" by (cases ns)
    have "nat n \<le> 32" using t(2) Some ns by simp
    then obtain cols where "load_columns 0 (nat n) (dropWhile c_isspace s) zero_columns = Some cols"
      using load_columns_total [of zero_columns 0 "nat n"] by (auto simp: zero_columns_def)
    then show ?thesis using assms(1) t(1) Some ns by (simp add: load_schema_def fopen_read_def)
  qed
qed

lemma INDEX_create_shape:
  "avail h = None \<Longrightarrow> INDEX_create h = (ix, h') \<Longrightarrow> avail h' = None \<and> (case ix of None \<Rightarrow> True | Some x \<Rightarrow> shape (root x))"
  by (auto simp: INDEX_create_def calloc_def)

lemma works_load_slots:
  assumes "works e" and "tb_quiet t" and "load_slots n i ss t e buf = Some (t', e', buf')"
  shows "works e' \<and> tb_quiet t'"
  using assms
proof (induction ss arbitrary: t e buf)
  case (Cons s ss)
  obtain p pr b len where rd: "frame_page t i = Some p" "page_read p s buf (of_nat PAGE_SIZE) = Some (pr, b, len)"
    using Cons.prems(3) by (auto split: Option.bind_splits)
  show ?case
  proof (cases "pr = PAGE_OK")
    case True
    then obtain t1 e1 where ir: "index_row t e b n s = Some (t1, e1)" "load_slots n i ss t1 e1 b = Some (t', e', buf')"
      using Cons.prems(3) rd by (auto split: Option.bind_splits)
    then show ?thesis using Cons.IH [of e1 t1 b] works_index_row [OF Cons.prems(1) ir(1)] Cons.prems(2) by simp
  qed (use Cons rd in auto)
qed simp

lemma works_load_pages:
  assumes "works e" and "tb_quiet t" and "load_pages ps t e buf = Some (t', e', buf')"
  shows "works e' \<and> tb_quiet t'"
  using assms
proof (induction ps arbitrary: t e buf)
  case (Cons n ps)
  obtain r t1 e1 where pin: "tb_pin t e n = (r, t1, e1)" by (cases "tb_pin t e n") auto
  note p = works_pin [OF Cons.prems(1,2) pin]
  show ?case
  proof (cases r)
    case None
    then show ?thesis using Cons.IH [OF Cons.prems(1) p(2)] Cons.prems(3) by (simp add: pin p(1))
  next
    case (Some i)
    then obtain pg t2 e2 b2 where ls: "load_slots n i (slot_ids pg) t1 e buf = Some (t2, e2, b2)"
        "load_pages ps (tb_unpin t2 i) e2 b2 = Some (t', e', buf')"
      using Cons.prems(3) by (auto simp: pin p(1) split: Option.bind_splits)
    then show ?thesis
      using Cons.IH [of e2 "tb_unpin t2 i" b2] works_load_slots [OF Cons.prems(1) p(2) ls(1)] by simp
  qed
qed simp

text \<open>A table that is there: its files, and no page missing.\<close>

definition stored :: "Env \<Rightarrow> cstr \<Rightarrow> bytes \<Rightarrow> bool" where
  "stored e name c \<longleftrightarrow>
     e_files e (data_path e name) = Some c \<and> data_ok c \<and> schema_ok (e_files e (schema_path e name))"

lemma table_open_works:
  assumes w: "works e" and e: "env_ok K e" and st: "stored e name c"
  shows "\<exists>t e'. table_open e name = Some (Some t, e') \<and> tb_wf t \<and> tb_quiet t \<and> works e' \<and> env_ok K e' \<and>
           tb_rows t = file_rows c \<and> tb_path t = data_path e name \<and> tb_page_count t = of_nat (length c div 4096) \<and>
           tb_name t = take (MAX_TABLE_NAME - 1) name"
proof -
  obtain cols cnt where ls: "load_schema e name = Some (Inr (cols, cnt), e)"
    using load_schema_works [OF w, of name] st unfolding stored_def by blast
  have c: "e_files e (data_path e name) = Some c" "data_ok c" using st by (simp_all add: stored_def)
  obtain ix h where ix: "INDEX_create (e_heap e) = (ix, h)" by fastforce
  note sh = INDEX_create_shape [OF _ ix]
  define f where "f = \<lparr>fcontents = c, foffset = length c, fsched = []\<rparr>"
  define t0 where "t0 = \<lparr>tb_name = take (MAX_TABLE_NAME - 1) name, tb_path = data_path e name,
      tb_file = f, tb_pool = buf_init, tb_index = ix, tb_page_count = of_nat (length c div 4096),
      tb_col_defs = cols, tb_col_count = cnt, tb_index_col = 0\<rparr>"
  define t where "t = t0\<lparr>tb_index_col := find_index_col t0\<rparr>"
  obtain buf e1 where d: "draw_stack PAGE_SIZE (e\<lparr>e_heap := h\<rparr>) = (buf, e1)" by fastforce
  have eh: "env_ok K (e\<lparr>e_heap := h\<rparr>)" using e sh by (simp add: env_ok_def core_def)
  note dr = draw_stack_ok [OF eh d]
  have buf: "buf_ok buf" using dr(2,3) by (simp add: buf_ok_def)
  have w1: "works e1" using works_stack [OF _ d] w by simp
  have "index_ok t" using sh e by (simp add: index_ok_def t_def t0_def env_ok_def)
  then have fr: "tb_wf t" "tb_rows t = file_rows c"
    using fresh_table [of f t] c(2) by (simp_all add: t_def t0_def f_def)
  have q: "tb_quiet t" by (simp add: tb_quiet_def t_def t0_def f_def quiet_def)
  obtain t' e' b' where lp: "load_pages (pids t) t e1 buf = Some (t', e', b')" "tb_wf t'" "tb_rows t' = tb_rows t"
      "meta t' = meta t" "env_ok K e'"
    using load_pages_law [OF fr(1) dr(1) buf] by blast
  have ex: "table_exists e name" using c(1) by (simp add: table_exists_def os_stat_def)
  have op: "os_open False e (data_path e name) = (Some \<lparr>fcontents = c, foffset = 0, fsched = []\<rparr>, e)"
    using w c(1) by (simp add: os_open_def)
  have lk: "os_lseek_end \<lparr>fcontents = c, foffset = 0, fsched = []\<rparr> = (True, f)"
    by (simp add: f_def quiet_def [symmetric] quiet_ops(2) [unfolded quiet_def])
  have "table_open e name = Some (Some t', e')"
    using ex w ls op lk ix d lp(1) by (simp add: table_open_def Let_def t_def t0_def f_def)
  then show ?thesis
    using lp fr(2) works_load_pages [OF w1 q lp(1)] meta_fields [OF lp(4)] by (simp add: t_def t0_def)
qed

text \<open>Closing.\<close>

lemma view_stamped:
  assumes "pool_inv pool c" and "view pool c n = Some b"
  shows "hdr_page_id b = n \<and> stamp b = b"
proof (cases "held pool n")
  case None
  then show ?thesis using assms by (auto simp: pool_inv_def cache_ok_def view_def cache_view_def)
next
  case (Some pd)
  obtain p d where "pd = (p, d)" by (cases pd)
  then have "held pool n = Some (p, d)" "b = stamp p"
    using Some assms(2) by (simp_all add: view_def cache_view_def)
  then show ?thesis using assms(1) by (auto simp: pool_inv_def cache_ok_def)
qed

lemma table_close_works:
  assumes wf: "tb_wf t" and q: "tb_quiet t"
  shows "\<exists>c. table_close t e = e\<lparr>e_files := (e_files e)(tb_path t \<mapsto> c)\<rparr> \<and> data_ok c \<and> file_rows c = tb_rows t"
proof -
  have inv: "pool_inv (tb_pool t) (fcontents (tb_file t))" using wf by (simp add: tb_wf_def tb_ok_def)
  have pages: "if n < tb_page_count t then \<exists>p. tb_view t n = Some p \<and> page_wf p else tb_view t n = None" for n
    using wf by (simp add: tb_wf_def)
  obtain pool f where d: "buf_destroy (tb_pool t) (tb_file t) = (pool, f)" by fastforce
  have b: "block (fcontents f) (unat n) = tb_view t n" for n
    using buf_destroy_run(1) [OF inv _ d, of n] q by (simp add: tb_quiet_def tb_view_def)
  have "\<not> -1 < tb_page_count t" by (simp add: not_less)
  then have "block (fcontents f) (unat (-1 :: u32)) = None"
    using b [of "-1"] pages [of "-1"] by simp
  then have len: "length (fcontents f) < (2 ^ 32) * 4096"
    by (simp add: block_def unat_minus_one_u32 split: if_splits)
  have "data_ok (fcontents f)"
    unfolding data_ok_def
  proof (intro conjI allI impI)
    show "length (fcontents f) div 4096 < 2 ^ 32" using len by (simp add: less_mult_imp_div_less)
    fix n :: u32 and p assume "block (fcontents f) (unat n) = Some p"
    then have v: "tb_view t n = Some p" by (simp add: b)
    then show "hdr_page_id p = n" "stamp p = p" using view_stamped [OF inv, of n p] by (simp_all add: tb_view_def)
    show "page_wf p" using pages [of n] v by (simp split: if_splits)
  qed
  moreover have "file_rows (fcontents f) = tb_rows t" by (simp add: file_rows_def tb_rows_def b fun_eq_iff)
  ultimately show ?thesis by (auto simp: table_close_def d os_close_def)
qed

text \<open>The paths of a table.\<close>

definition db_ok :: "Env \<Rightarrow> cstr \<Rightarrow> bool" where
  "db_ok e name \<longleftrightarrow> length (current_db e) \<le> 63 \<and> length name \<le> 63"

lemma paths_differ:
  assumes "db_ok e name"
  shows "data_path e name \<noteq> schema_path e name"
proof -
  have "data_path e name = lit ''data/'' @ current_db e @ lit ''/'' @ name @ lit ''.db''"
      "schema_path e name = lit ''data/'' @ current_db e @ lit ''/'' @ name @ lit ''.schema''"
    using assms unfolding db_ok_def data_path_def schema_path_def by (auto simp: lit_def)
  then have "last (data_path e name) = 98" "last (schema_path e name) = 97"
    by (simp_all add: lit_def)
  then show ?thesis by auto
qed

text \<open>One row into a stored table, as both \<open>INSERT\<close> and recovery do it.\<close>

definition file_added :: "bytes \<Rightarrow> bytes \<Rightarrow> bytes \<Rightarrow> bool" where
  "file_added c r c' \<longleftrightarrow>
     data_ok c' \<and>
     (\<exists>n. file_rows c' = (file_rows c)(n \<mapsto> (case file_rows c n of Some rs \<Rightarrow> rs | None \<Rightarrow> []) @ [Some r]))"

definition room_in :: "bytes \<Rightarrow> bool" where
  "room_in c \<longleftrightarrow> length c div 4096 < 2 ^ 32 - 1"

lemma open_insert_close:
  assumes w: "works e" and e: "env_ok K e" and st: "stored e name c" and row: "row_ok row len" and room: "room_in c"
  shows "\<exists>t e1 t' e2 c'. table_open e name = Some (Some t, e1) \<and>
           table_insert_raw t e1 row len = Some (TABLE_OK, t', e2) \<and>
           table_close t' e2 = e2\<lparr>e_files := (e_files e2)(data_path e name \<mapsto> c')\<rparr> \<and>
           tb_wf t' \<and> tb_quiet t' \<and> works e2 \<and> env_ok K e2 \<and> file_added c (take (unat len) row) c' \<and>
           tb_path t' = data_path e name \<and> file_rows c' = tb_rows t'"
proof -
  obtain t e1 where op: "table_open e name = Some (Some t, e1)" "tb_wf t" "tb_quiet t" "works e1" "env_ok K e1"
      "tb_rows t = file_rows c" "tb_path t = data_path e name" "tb_page_count t = of_nat (length c div 4096)"
    using table_open_works [OF w e st] by blast
  have "unat (tb_page_count t) < 2 ^ 32 - 1"
    using room by (simp add: op(8) room_in_def unat_of_nat)
  then have "tb_page_count t < -1" by (simp add: word_less_nat_alt unat_minus_one_u32)
  then obtain t' e2 n where ins: "table_insert_raw t e1 row len = Some (TABLE_OK, t', e2)" "tb_wf t'" "tb_quiet t'" "works e2"
      "env_ok K e2" "row_added t (take (unat len) row) n t'" "tb_path t' = tb_path t"
    using insert_raw_works [OF op(2-5) row] by blast
  obtain c' where cl: "table_close t' e2 = e2\<lparr>e_files := (e_files e2)(tb_path t' \<mapsto> c')\<rparr>" "data_ok c'" "file_rows c' = tb_rows t'"
    using table_close_works [OF ins(2,3), of e2] by blast
  have "file_added c (take (unat len) row) c'"
    using cl(2,3) ins(6) by (auto simp: file_added_def row_added_def op(6))
  then show ?thesis using op(1) ins cl op(7) by auto
qed

text \<open>The \<open>INSERT\<close> statement, outside a transaction.\<close>

definition row_text :: "Intent \<Rightarrow> cstr" where
  "row_text intent = value_at intent 0 @ [ch CHR ''|''] @ value_at intent 1"

definition any_core :: "core \<Rightarrow> bool" where "any_core k \<longleftrightarrow> True"

definition ready :: "Env \<Rightarrow> walrec list \<Rightarrow> bool" where
  "ready e rs \<longleftrightarrow>
     works e \<and> env_ok any_core e \<and> (\<exists>w. g_wal e = Some w) \<and> log_ok (g_wal_file e) rs"

definition insert_ok :: "Env \<Rightarrow> Intent \<Rightarrow> bytes \<Rightarrow> bool" where
  "insert_ok e intent c \<longleftrightarrow>
     stored e (it_table intent) c \<and> room_in c \<and> db_ok e (it_table intent) \<and> 0 \<notin> set (it_table intent) \<and>
     length (row_text intent) < 256"

text \<open>The records of one auto-committed insertion.\<close>

definition insert_records :: "Intent \<Rightarrow> walrec list \<Rightarrow> bool" where
  "insert_records intent rs \<longleftrightarrow>
     (\<exists>r1 r2 r3 buffer. rs = [r1, r2, r3] \<and> rec_type r1 = WAL_BEGIN \<and> rec_type r3 = WAL_COMMIT \<and>
        rec_txn r1 = rec_txn r2 \<and> rec_txn r3 = rec_txn r2 \<and>
        take (length (row_text intent)) buffer = row_text intent \<and> length buffer = 256 \<and>
        rec_matches (LWrite (rec_txn r2) WAL_INSERT (it_table intent) (Some buffer)
                       (of_nat (length (row_text intent))) 0) r2)"

lemma text_buffer:
  assumes "length s < 256" and "length junk = 256"
  shows "\<exists>b. snprintf_at junk 0 s = Some b \<and> length b = 256 \<and> take (length s) b = s \<and> 0 \<in> set b"
proof -
  have "snprintf_at junk 0 s = Some (s @ 0 # drop (Suc (length s)) junk)"
    using assms by (auto simp: snprintf_at_def mem_write_def blit_def)
  then show ?thesis using assms by simp
qed

lemma env_ok_core: "env_ok any_core e \<Longrightarrow> env_ok (\<lambda>k. k = core e) e"
  by (simp add: env_ok_def)

lemma env_ok_any: "env_ok K e \<Longrightarrow> env_ok any_core e"
  by (simp add: env_ok_def any_core_def)

lemma stored_core:
  assumes "core e' = core e"
  shows "stored e' name c = stored e name c" "data_path e' name = data_path e name"
    "schema_path e' name = schema_path e name" "e_files e' = e_files e" "g_wal e' = g_wal e"
    "g_wal_file e' = g_wal_file e" "txn_active e' = txn_active e" "current_txn e' = current_txn e"
    "current_db e' = current_db e" "e_dirs e' = e_dirs e"
  using assms by (simp_all add: core_def stored_def data_path_def schema_path_def)

lemma log_update [simp]:
  "works (e\<lparr>g_wal := x, g_wal_file := f\<rparr>) = works e"
  "env_ok any_core (e\<lparr>g_wal := x, g_wal_file := f\<rparr>) = env_ok any_core e"
  "stored (e\<lparr>g_wal := x, g_wal_file := f\<rparr>) name c = stored e name c"
  "data_path (e\<lparr>g_wal := x, g_wal_file := f\<rparr>) name = data_path e name"
  by (simp_all add: env_ok_def any_core_def stored_def data_path_def schema_path_def)

text \<open>The logged insertion, in a transaction that is open.\<close>

lemma logged_insert_run:
  assumes rdy: "ready e rs" and ok: "insert_ok e intent c"
  shows "\<exists>e' c' r buffer. logged_insert e intent txn = Some (True, e') \<and>
           e_files e' = (e_files e)(data_path e (it_table intent) \<mapsto> c') \<and> file_added c (row_text intent) c' \<and>
           take (length (row_text intent)) buffer = row_text intent \<and> length buffer = 256 \<and>
           rec_matches (LWrite txn WAL_INSERT (it_table intent) (Some buffer) (of_nat (length (row_text intent))) 0) r \<and>
           ready e' (rs @ [r]) \<and> txn_active e' = txn_active e \<and> current_txn e' = current_txn e \<and>
           current_db e' = current_db e \<and> e_dirs e' = e_dirs e"
proof -
  let ?name = "it_table intent" and ?text = "row_text intent"
  obtain w1 where w: "works e" "env_ok any_core e" "g_wal e = Some w1" "log_ok (g_wal_file e) rs"
    using rdy by (auto simp: ready_def)
  have name: "0 \<notin> set ?name" "length ?name \<le> 63" and st: "stored e ?name c" and room: "room_in c"
    and len: "length ?text < 256"
    using ok by (simp_all add: insert_ok_def db_ok_def)
  obtain junk e2 where d: "draw_stack WAL_MAX_DATA e = (junk, e2)" by fastforce
  note dr = draw_stack_ok [OF env_ok_core [OF w(2)] d]
  have core2: "core e2 = core e" using dr(1) by (simp add: env_ok_def)
  note c2 = stored_core [OF core2]
  have w2: "works e2" by (rule works_stack [OF w(1) d])
  obtain buffer where bf: "snprintf_at junk 0 ?text = Some buffer" "length buffer = 256" "take (length ?text) buffer = ?text"
      "0 \<in> set buffer"
    using text_buffer [OF len, of junk] dr(2) by auto
  let ?len = "of_nat (length ?text) :: u16"
  have ulen: "unat ?len = length ?text" using len by (simp add: unat_of_nat)
  have opok: "op_ok (LWrite txn WAL_INSERT ?name (Some buffer) ?len 0)" using name(1) bf(2) by simp
  obtain f2 r2 where wr: "wal_write (Some w1) (g_wal_file e) txn WAL_INSERT ?name (Some buffer) ?len 0 =
        Some (WAL_OK, Some (w1\<lparr>next_lsn := next_lsn w1 + 1\<rparr>), f2)" "log_ok f2 (rs @ [r2])"
      "rec_matches (LWrite txn WAL_INSERT ?name (Some buffer) ?len 0) r2"
    using wal_write_log [OF w(4) opok, of w1] by blast
  define w3 where "w3 = w1\<lparr>next_lsn := next_lsn w1 + 1\<rparr>"
  define e3 where "e3 = e2\<lparr>g_wal := Some w3, g_wal_file := f2\<rparr>"
  have row: "row_ok buffer ?len" using bf(2,4) len by (simp add: row_ok_def ulen)
  have ok3: "env_ok (\<lambda>k. k = core e3) e3"
    using env_ok_any [OF dr(1)] by (intro env_ok_core) (simp add: e3_def)
  have st3: "stored e3 ?name c" using st c2(1) by (simp add: e3_def)
  have w3w: "works e3" using w2 by (simp add: e3_def)
  obtain t e4 t' e5 c' where op: "table_open e3 ?name = Some (Some t, e4)"
      "table_insert_raw t e4 buffer ?len = Some (TABLE_OK, t', e5)"
      "table_close t' e5 = e5\<lparr>e_files := (e_files e5)(data_path e3 ?name \<mapsto> c')\<rparr>"
      "works e5" "env_ok (\<lambda>k. k = core e3) e5" "file_added c (take (unat ?len) buffer) c'"
    using open_insert_close [OF w3w ok3 st3 row room] by blast
  have core5: "core e5 = core e3" using op(5) by (simp add: env_ok_def)
  note c5 = stored_core [OF core5]
  have dp: "data_path e3 ?name = data_path e ?name" using c2(2) by (simp add: e3_def data_path_def)
  have run: "logged_insert e intent txn = Some (True, table_close t' e5)"
  proof -
    have g2: "g_wal e2 = Some w1" "g_wal_file e2 = g_wal_file e" using c2(5,6) w(3) by simp_all
    have wr': "wal_write (Some w1) (g_wal_file e) txn WAL_INSERT ?name (Some buffer) ?len 0 = Some (WAL_OK, Some w3, f2)"
      using wr(1) by (simp add: w3_def)
    show ?thesis
      unfolding logged_insert_def Let_def row_text_def [symmetric]
      using len by (simp add: d [unfolded wal_consts] bf(1) g2 wr' e3_def [symmetric] op(1,2))
  qed
  show ?thesis
  proof (intro exI conjI)
    show "logged_insert e intent txn = Some (True, table_close t' e5)" by (rule run)
    show "e_files (table_close t' e5) = (e_files e)(data_path e ?name \<mapsto> c')"
      by (simp add: op(3) c5(4) dp) (simp add: e3_def c2(4))
    show "file_added c ?text c'" using op(6) by (simp add: ulen bf(3))
    show "take (length ?text) buffer = ?text" "length buffer = 256"
      "rec_matches (LWrite txn WAL_INSERT ?name (Some buffer) ?len 0) r2" using bf(2,3) wr(3) by simp_all
    show "ready (table_close t' e5) (rs @ [r2])"
      using op(4) env_ok_any [OF op(5)] wr(2) c5(5,6) by (simp add: ready_def op(3) env_ok_def any_core_def e3_def)
    show "txn_active (table_close t' e5) = txn_active e" "current_txn (table_close t' e5) = current_txn e"
      "current_db (table_close t' e5) = current_db e" "e_dirs (table_close t' e5) = e_dirs e"
      by (simp_all add: op(3) c5(7,8,9,10)) (simp_all add: e3_def c2(7,8,9,10))
  qed
qed

lemma insert_ok_log [simp]:
  "insert_ok (e\<lparr>g_wal := x, g_wal_file := f\<rparr>) intent c = insert_ok e intent c"
  by (simp add: insert_ok_def db_ok_def)

lemma sql_insert_run:
  assumes rdy: "ready e rs" and auto: "\<not> txn_active e" and ok: "insert_ok e intent c"
  shows "\<exists>e' c' new. sql_insert e intent = Some (EXEC_SUCCESS, e') \<and>
           e_files e' = (e_files e)(data_path e (it_table intent) \<mapsto> c') \<and> file_added c (row_text intent) c' \<and>
           insert_records intent new \<and> ready e' (rs @ new) \<and> \<not> txn_active e' \<and>
           current_db e' = current_db e \<and> e_dirs e' = e_dirs e"
proof -
  let ?name = "it_table intent"
  obtain w where w: "works e" "env_ok any_core e" "g_wal e = Some w" "log_ok (g_wal_file e) rs"
    using rdy by (auto simp: ready_def)
  obtain f1 r1 where b: "wal_begin (Some w) (g_wal_file e) =
        (WAL_OK, Some (next_txn w), Some \<lparr>next_lsn = next_lsn w + 1, next_txn = next_txn w + 1\<rparr>, f1)"
      "log_ok f1 (rs @ [r1])" "rec_type r1 = WAL_BEGIN" "rec_txn r1 = next_txn w"
    using wal_begin_log [OF w(4), of w] by blast
  define w1 where "w1 = \<lparr>next_lsn = next_lsn w + 1, next_txn = next_txn w + 1\<rparr>"
  define e1 where "e1 = e\<lparr>g_wal := Some w1, g_wal_file := f1\<rparr>"
  have rdy1: "ready e1 (rs @ [r1])" using w b(2) by (simp add: ready_def e1_def)
  have ok1: "insert_ok e1 intent c" using ok by (simp add: e1_def)
  obtain e2 c' r2 buffer where li: "logged_insert e1 intent (next_txn w) = Some (True, e2)"
      "e_files e2 = (e_files e1)(data_path e1 ?name \<mapsto> c')" "file_added c (row_text intent) c'"
      "take (length (row_text intent)) buffer = row_text intent" "length buffer = 256"
      "rec_matches (LWrite (next_txn w) WAL_INSERT ?name (Some buffer) (of_nat (length (row_text intent))) 0) r2"
      "ready e2 ((rs @ [r1]) @ [r2])" "txn_active e2 = txn_active e1" "current_txn e2 = current_txn e1"
      "current_db e2 = current_db e1" "e_dirs e2 = e_dirs e1"
    using logged_insert_run [OF rdy1 ok1, of "next_txn w"] by (elim exE conjE)
  obtain w3 where w3: "works e2" "env_ok any_core e2" "g_wal e2 = Some w3" "log_ok (g_wal_file e2) ((rs @ [r1]) @ [r2])"
    using li(7) by (auto simp: ready_def)
  obtain f4 r3 where cm: "wal_commit (Some w3) (g_wal_file e2) (next_txn w) =
        (WAL_OK, Some (w3\<lparr>next_lsn := next_lsn w3 + 1\<rparr>), f4)"
      "log_ok f4 (((rs @ [r1]) @ [r2]) @ [r3])" "rec_txn r3 = next_txn w" "rec_type r3 = WAL_COMMIT"
    using wal_commit_log [OF w3(4), of w3 "next_txn w"] by blast
  define e3 where "e3 = e2\<lparr>g_wal := Some (w3\<lparr>next_lsn := next_lsn w3 + 1\<rparr>), g_wal_file := f4\<rparr>"
  have bg: "wal_begin (g_wal e) (g_wal_file e) = (WAL_OK, Some (next_txn w), Some w1, f1)"
    using b(1) w(3) by (simp add: w1_def)
  have e1: "e\<lparr>g_wal := Some w1, g_wal_file := f1\<rparr> = e1" by (simp add: e1_def)
  have run: "sql_insert e intent = Some (EXEC_SUCCESS, e3)"
    using auto by (simp add: sql_insert_def Let_def bg e1 li(1) w3(3) cm(1) e3_def)
  show ?thesis
  proof (intro exI conjI)
    show "sql_insert e intent = Some (EXEC_SUCCESS, e3)" by (rule run)
    show "e_files e3 = (e_files e)(data_path e ?name \<mapsto> c')" by (simp add: e3_def li(2)) (simp add: e1_def)
    show "file_added c (row_text intent) c'" by (rule li(3))
    show "insert_records intent [r1, r2, r3]"
      using b(3,4) cm(3,4) li(4,5,6) by (auto simp: insert_records_def intro!: exI [of _ buffer])
    show "ready e3 (rs @ [r1, r2, r3])" using w3(1,2) cm(2) by (simp add: ready_def e3_def)
    show "\<not> txn_active e3" "current_db e3 = current_db e" "e_dirs e3 = e_dirs e"
      using auto li(8,10,11) by (simp_all add: e3_def e1_def)
  qed
qed

end
