(* ===== verification/TableScan.thy ===== *)
theory TableScan imports SqlInsert begin

text \<open>
  What \<open>SELECT *\<close> shows: the fields that the \<open>strtok\<close> loop finds in the row buffer, row by row
  over the pages, and what is in the row buffer when a row has no terminator of its own.
\<close>

text \<open>The reference: the non-empty pieces of a text between the separators.\<close>

function pieces :: "u8 \<Rightarrow> cstr \<Rightarrow> cstr list" where
  "pieces d s =
     (case dropWhile (\<lambda>c. c = d) s of
        [] \<Rightarrow> []
      | c # r \<Rightarrow> takeWhile (\<lambda>c. c \<noteq> d) (c # r) # pieces d (dropWhile (\<lambda>c. c \<noteq> d) r))"
  by pat_completeness auto
termination
proof (relation "measure (\<lambda>(d, s). length s)", goal_cases)
  case (2 d s c r)
  have "length (dropWhile (\<lambda>c. c \<noteq> d) r) \<le> length r" by (rule length_dropWhile_le)
  moreover have "length (c # r) \<le> length s" using length_dropWhile_le [of "\<lambda>c. c = d" s] 2 by simp
  ultimately show ?case by simp
qed simp

declare pieces.simps [simp del]

lemma takeWhile_until:
  assumes "0 \<notin> set s" and "d \<noteq> (0 :: u8)"
  shows "takeWhile (\<lambda>c. c = d) (s @ 0 # z) = takeWhile (\<lambda>c. c = d) s"
    and "takeWhile (\<lambda>c. c \<noteq> d \<and> c \<noteq> 0) (s @ 0 # z) = takeWhile (\<lambda>c. c \<noteq> d) s"
  using assms by (induction s) auto

text \<open>One call of \<open>strtok\<close> on a text that is followed by a zero byte.\<close>

lemma strtok_text:
  assumes "drop pos buf = s @ 0 # z" and "0 \<notin> set s" and "d \<noteq> 0"
  shows "case dropWhile (\<lambda>c. c = d) s of
           [] \<Rightarrow> \<exists>q. strtok d buf pos = Some (None, buf, q)
         | c # r \<Rightarrow> \<exists>t buf' q s' z'. strtok d buf pos = Some (Some t, buf', q) \<and>
                    str_at (drop t buf') = Some (takeWhile (\<lambda>c. c \<noteq> d) (c # r)) \<and>
                    drop q buf' = s' @ 0 # z' \<and> 0 \<notin> set s' \<and>
                    dropWhile (\<lambda>c. c = d) s' = dropWhile (\<lambda>c. c = d) (dropWhile (\<lambda>c. c \<noteq> d) r)"
proof -
  define k where "k = length (takeWhile (\<lambda>c. c = d) s)"
  define u where "u = dropWhile (\<lambda>c. c = d) s"
  have pos: "pos \<le> length buf" using assms(1) by (cases "pos \<le> length buf") auto
  have su: "drop k s = u" by (simp add: k_def u_def dropWhile_eq_drop)
  have kl: "k \<le> length s" by (simp add: k_def length_takeWhile_le)
  have du: "drop (pos + k) buf = u @ 0 # z"
    using assms(1) su kl by (simp add: add.commute [of pos] flip: drop_drop)
  have k: "length (takeWhile (\<lambda>c. c = d) (drop pos buf)) = k"
    by (simp add: assms(1) takeWhile_until(1) [OF assms(2,3)] k_def)
  have lt: "pos + k < length buf" using du by (cases "pos + k < length buf") auto
  have hd: "buf ! (pos + k) = (u @ 0 # z) ! 0" using du nth_drop [of "pos + k" buf 0] lt by simp
  have u0: "0 \<notin> set u" using assms(2) by (auto simp: u_def dest: set_dropWhileD)
  show ?thesis
  proof (cases u)
    case Nil
    then have "strtok d buf pos = Some (None, buf, pos + k)" using lt hd k by (simp add: strtok_def Let_def)
    then show ?thesis unfolding u_def [symmetric] Nil by simp
  next
    case (Cons c r)
    define w where "w = takeWhile (\<lambda>c. c \<noteq> d) u"
    define v where "v = dropWhile (\<lambda>c. c \<noteq> d) u"
    have uw: "u = w @ v" by (simp add: w_def v_def)
    have cd: "c \<noteq> d" using Cons hd_dropWhile [of "\<lambda>c. c = d" s] by (auto simp: u_def)
    have vr: "v = dropWhile (\<lambda>c. c \<noteq> d) r" using cd by (simp add: v_def Cons)
    have w0: "0 \<notin> set w" using u0 uw by auto
    have c0: "buf ! (pos + k) \<noteq> 0" using hd u0 Cons by simp
    let ?e = "pos + k + length w"
    have ew: "length (takeWhile (\<lambda>c. c \<noteq> d \<and> c \<noteq> 0) (drop (pos + k) buf)) = length w"
      by (simp add: du takeWhile_until(2) [OF u0 assms(3)] w_def)
    have de: "drop ?e buf = v @ 0 # z"
    proof -
      have "drop ?e buf = drop (length w) (drop (pos + k) buf)" by (simp add: add.commute)
      then show ?thesis by (simp add: du uw)
    qed
    have le: "?e < length buf" using de by (cases "?e < length buf") auto
    have he: "buf ! ?e = (v @ 0 # z) ! 0" using de nth_drop [of ?e buf 0] le by simp
    have run: "strtok d buf pos = (if buf ! ?e = 0 then Some (Some (pos + k), buf, ?e)
        else Some (Some (pos + k), buf[?e := 0], ?e + 1))"
      unfolding strtok_def Let_def k ew using lt c0 le by simp
    have tw: "takeWhile (\<lambda>c. c \<noteq> d) (c # r) = w" by (simp add: w_def Cons)
    show ?thesis
    proof (cases v)
      case Nil
      have "str_at (drop (pos + k) buf) = Some w" using du uw Nil w0 by (simp add: str_at_terminated)
      moreover have "strtok d buf pos = Some (Some (pos + k), buf, ?e)" using run he Nil by simp
      moreover have "drop ?e buf = [] @ 0 # z" using de Nil by simp
      moreover have "dropWhile (\<lambda>c. c = d) [] = dropWhile (\<lambda>c. c = d) v" using Nil by simp
      moreover have "0 \<notin> set ([] :: bytes)" by simp
      ultimately show ?thesis unfolding u_def [symmetric] \<open>u = c # r\<close> list.case tw vr [symmetric] by blast
    next
      case (Cons x v')
      have x: "x = d" using Cons hd_dropWhile [of "\<lambda>c. c \<noteq> d" u] by (auto simp: v_def)
      have ne: "buf ! ?e \<noteq> 0" using he Cons x assms(3) by simp
      let ?b = "buf[?e := 0]"
      have "drop (pos + k) ?b = (u @ 0 # z)[length w := 0]"
        using drop_update_swap [of "pos + k" ?e buf 0] du by simp
      also have "\<dots> = w @ 0 # v' @ 0 # z" by (simp add: uw Cons)
      finally have s: "str_at (drop (pos + k) ?b) = Some w" using w0 by (simp add: str_at_terminated)
      have "drop (Suc ?e) ?b = drop 1 (drop ?e buf)" by simp
      then have q: "drop (?e + 1) ?b = v' @ 0 # z" by (simp add: de Cons)
      have z: "0 \<notin> set v'" using u0 uw Cons by auto
      have sk: "dropWhile (\<lambda>c. c = d) v' = dropWhile (\<lambda>c. c = d) v" by (simp add: Cons x)
      have "strtok d buf pos = Some (Some (pos + k), ?b, ?e + 1)" using run ne by simp
      then show ?thesis
        using s q z sk unfolding u_def [symmetric] \<open>u = c # r\<close> list.case tw vr [symmetric] by blast
    qed
  qed
qed

lemma pieces_skip: "dropWhile (\<lambda>c. c = d) s = dropWhile (\<lambda>c. c = d) t \<Longrightarrow> pieces d s = pieces d t"
  by (subst pieces.simps, subst (2) pieces.simps) simp

lemma tokens_from_pieces:
  assumes "drop pos buf = s @ 0 # z" and "0 \<notin> set s" and "d \<noteq> 0"
  shows "tokens_from d buf pos = Some (pieces d s)"
  using assms
proof (induction "length buf - pos" arbitrary: buf pos s z rule: less_induct)
  case less
  show ?case
  proof (cases "dropWhile (\<lambda>c. c = d) s")
    case Nil
    then obtain q where "strtok d buf pos = Some (None, buf, q)" using strtok_text [OF less.prems] unfolding Nil by auto
    then show ?thesis unfolding pieces.simps [of d s] Nil by (subst tokens_from.simps) simp
  next
    case (Cons c r)
    then obtain t buf' q s' z' where st: "strtok d buf pos = Some (Some t, buf', q)"
        "str_at (drop t buf') = Some (takeWhile (\<lambda>c. c \<noteq> d) (c # r))" "drop q buf' = s' @ 0 # z'" "0 \<notin> set s'"
        "dropWhile (\<lambda>c. c = d) s' = dropWhile (\<lambda>c. c = d) (dropWhile (\<lambda>c. c \<noteq> d) r)"
      using strtok_text [OF less.prems] unfolding Cons by auto
    have "tokens_from d buf' q = Some (pieces d s')"
      using less.hyps [OF strtok_less [OF st(1)] st(3,4) less.prems(3)] .
    then show ?thesis
      using st(1,2) pieces_skip [OF st(5)] Cons by (subst tokens_from.simps, subst pieces.simps) simp
  qed
qed

text \<open>The fields of the row in the row buffer.\<close>

definition text_of :: "bytes \<Rightarrow> cstr" where
  "text_of buf = takeWhile (\<lambda>c. c \<noteq> 0) buf"

abbreviation bar :: u8 where "bar \<equiv> ch CHR ''|''"

lemma bar_nonzero [simp]: "bar \<noteq> 0"
  by (simp add: ch_def)

lemma text_of_cut:
  assumes "buf_ok buf"
  shows "takeWhile (\<lambda>c. c \<noteq> 0) (take 4095 buf) = text_of buf" and "length (text_of buf) \<le> 4095"
proof -
  have "buf = butlast buf @ [0]" "length (butlast buf) = 4095" using assms by (auto simp: buf_ok_def ends0_def) (metis append_butlast_last_id)
  then obtain b where b: "buf = b @ [0]" "length b = 4095" by blast
  have "takeWhile (\<lambda>c. c \<noteq> 0) (b @ [0]) = takeWhile (\<lambda>c. c \<noteq> 0) b" by (induction b) auto
  then show "takeWhile (\<lambda>c. c \<noteq> 0) (take 4095 buf) = text_of buf" "length (text_of buf) \<le> 4095"
    using b length_takeWhile_le [of "\<lambda>c. c \<noteq> 0" b] by (simp_all add: text_of_def)
qed

lemma row_fields_pieces:
  assumes "buf_ok buf"
  shows "row_fields buf = Some (pieces bar (text_of buf))"
proof -
  let ?s = "text_of buf"
  note c = text_of_cut [OF assms]
  have l: "length buf = 4096" using assms by (simp add: buf_ok_def)
  have "strncpy_src buf 4095 = Some ?s" using l c(1) by (simp add: strncpy_src_def)
  then have f: "fill_tmp 4096 buf = Some (strncpy_bytes ?s 4095 @ [0])" by (simp add: fill_tmp_def)
  have "strncpy_bytes ?s 4095 @ [0] = ?s @ replicate (4095 - length ?s) 0 @ [0]" using c(2) by (simp add: strncpy_bytes_def)
  then have "drop 0 (strncpy_bytes ?s 4095 @ [0]) = ?s @ 0 # replicate (4095 - length ?s) 0"
    by (simp add: replicate_append_same)
  moreover have "0 \<notin> set ?s" by (auto simp: text_of_def dest: set_takeWhileD)
  ultimately have "tokens_from bar (strncpy_bytes ?s 4095 @ [0]) 0 = Some (pieces bar ?s)"
    by (intro tokens_from_pieces) auto
  then show ?thesis by (simp add: row_fields_def f)
qed

text \<open>What a scan shows: the rows go through one buffer, which keeps what a row does not cover.\<close>

definition over :: "bytes \<Rightarrow> bytes \<Rightarrow> bytes" where
  "over buf r = r @ drop (length r) buf"

fun shown :: "bytes \<Rightarrow> bytes option list \<Rightarrow> cstr list list" where
  "shown buf [] = []"
| "shown buf (None # rs) = shown buf rs"
| "shown buf (Some r # rs) = pieces bar (text_of (over buf r)) # shown (over buf r) rs"

fun left_over :: "bytes \<Rightarrow> bytes option list \<Rightarrow> bytes" where
  "left_over buf [] = buf"
| "left_over buf (None # rs) = left_over buf rs"
| "left_over buf (Some r # rs) = left_over (over buf r) rs"

lemma shown_append: "shown buf (rs @ rs') = shown buf rs @ shown (left_over buf rs) rs'"
  by (induction buf rs rule: shown.induct) simp_all

lemma left_over_append: "left_over buf (rs @ rs') = left_over (left_over buf rs) rs'"
  by (induction buf rs rule: shown.induct) simp_all

definition pick :: "page \<Rightarrow> u16 \<Rightarrow> bytes option" where
  "pick p s = (if unat s < length (rows p) then rows p ! unat s else None)"

lemma pick_all: "map (pick p) (slot_ids p) = rows p"
proof (rule nth_equalityI)
  show "length (map (pick p) (slot_ids p)) = length (rows p)" by (simp add: slot_ids_def)
  fix k assume "k < length (map (pick p) (slot_ids p))"
  then have k: "k < unat (hdr_slot_count p)" by (simp add: slot_ids_def)
  then have "unat (of_nat k :: u16) = k" using unat_bound_u16 [of "hdr_slot_count p"] by (simp add: unat_of_nat)
  then show "map (pick p) (slot_ids p) ! k = rows p ! k" using k by (simp add: slot_ids_def pick_def)
qed

lemma frame_read_pick:
  assumes wf: "tb_wf t" and h: "tb_holds t i n p" and b: "buf_ok buf"
  shows "case pick p s of
           None \<Rightarrow> frame_read t i s buf = Some (t, PAGE_NOT_FOUND, buf, None)
         | Some r \<Rightarrow> frame_read t i s buf = Some (t, PAGE_OK, over buf r, Some (of_nat (length r))) \<and>
                     length r < 4096 \<and> buf_ok (over buf r)"
proof -
  note w = tb_wf_page [OF wf h]
  have l: "length buf = 4096" using b by (simp add: buf_ok_def)
  note rd = frame_read_law [OF tb_wf_ok [OF wf] h w(1) l, of s]
  show ?thesis
  proof (cases "pick p s")
    case None
    then show ?thesis using rd by (auto simp: pick_def split: if_splits)
  next
    case (Some r)
    then have r: "unat s < length (rows p)" "rows p ! unat s = Some r" by (auto simp: pick_def split: if_splits)
    then have len: "length r < 4096" using row_length [OF w(1), of r] nth_mem [of "unat s" "rows p"] by simp
    then show ?thesis using rd r Some buf_ok_read [OF b len] by (simp add: over_def)
  qed
qed

lemma row_matches_works:
  assumes "works e" and "env_ok K e" and "buf_ok buf" and "\<not> wh_active (it_where intent)"
  shows "\<exists>e'. row_matches_where e buf intent t = Some (True, e') \<and> works e' \<and> env_ok K e'"
proof -
  obtain b e' where r: "row_matches_where e buf intent t = Some (b, e')" "env_ok K e'" "b"
    using row_matches_total [OF assms(2) buf_ok_zero [OF assms(3)], of intent t] assms(4) by blast
  have "works e'"
    using r(1) assms(1) by (auto simp: row_matches_where_def dest: works_stack split: prod.splits Option.bind_splits if_splits option.splits)
  then show ?thesis using r by simp
qed

lemma scan_slots_law:
  assumes "tb_wf t" and "tb_holds t i n p" and "works e" and "env_ok K e" and "buf_ok buf"
    and "\<not> wh_active (it_where intent)"
  shows "\<exists>e'. scan_slots intent i ss t e buf =
           Some (shown buf (map (pick p) ss), t, e', left_over buf (map (pick p) ss)) \<and>
           works e' \<and> env_ok K e' \<and> buf_ok (left_over buf (map (pick p) ss))"
  using assms(3-5)
proof (induction ss arbitrary: e buf)
  case (Cons s ss)
  note rd = frame_read_pick [OF assms(1,2) Cons.prems(3), of s]
  show ?case
  proof (cases "pick p s")
    case None
    then show ?thesis using rd Cons.IH [OF Cons.prems] by simp
  next
    case (Some r)
    then have r: "frame_read t i s buf = Some (t, PAGE_OK, over buf r, Some (of_nat (length r)))" "buf_ok (over buf r)"
      using rd by simp_all
    obtain e1 where m: "row_matches_where e (over buf r) intent t = Some (True, e1)" "works e1" "env_ok K e1"
      using row_matches_works [OF Cons.prems(1,2) r(2) assms(6)] by blast
    obtain e2 where "scan_slots intent i ss t e1 (over buf r) =
        Some (shown (over buf r) (map (pick p) ss), t, e2, left_over (over buf r) (map (pick p) ss))"
        "works e2" "env_ok K e2" "buf_ok (left_over (over buf r) (map (pick p) ss))"
      using Cons.IH [OF m(2,3) r(2)] by blast
    then show ?thesis using r(1) m(1) Some by (simp add: row_fields_pieces [OF r(2)])
  qed
qed simp

text \<open>All rows of the table, page by page.\<close>

definition rows_on :: "Table \<Rightarrow> u32 list \<Rightarrow> bytes option list" where
  "rows_on t ns = concat (map (\<lambda>n. case tb_rows t n of Some rs \<Rightarrow> rs | None \<Rightarrow> []) ns)"

definition all_rows :: "Table \<Rightarrow> bytes option list" where
  "all_rows t = rows_on t (pids t)"

lemma rows_on_same: "tb_rows t' = tb_rows t \<Longrightarrow> rows_on t' ns = rows_on t ns"
  by (simp add: rows_on_def)

lemma pin_works:
  assumes wf: "tb_wf t" and q: "tb_quiet t" and w: "works e" and e: "env_ok K e" and n: "n < tb_page_count t"
  shows "\<exists>i p t'. tb_pin t e n = (Some i, t', e) \<and> tb_holds t' i n p \<and> tb_wf t' \<and> tb_quiet t' \<and>
           tb_rows t' = tb_rows t \<and> meta t' = meta t \<and> tb_view t' = tb_view t"
proof -
  have inv: "pool_inv (tb_pool t) (fcontents (tb_file t))" and ex: "\<exists>b. view (tb_pool t) (fcontents (tb_file t)) n = Some b"
    using wf n by (auto simp: tb_wf_def tb_ok_def tb_view_def split: if_splits)
  obtain i pool f where b: "buf_pin True (tb_pool t) (tb_file t) n = (Some i, pool, f)"
    using ex buf_pin_quiet [OF inv] q unfolding tb_quiet_def by blast
  then have pin: "tb_pin t e n = (Some i, t\<lparr>tb_pool := pool, tb_file := f\<rparr>, e)" using w by (simp add: tb_pin_def)
  then show ?thesis using tb_wf_pin [OF wf e pin] works_pin [OF w q pin] tb_pin_law(2) [OF tb_wf_ok [OF wf] e pin] by blast
qed

lemma pids_below: "n \<in> set (pids t) \<Longrightarrow> n < tb_page_count t"
proof -
  assume "n \<in> set (pids t)"
  then obtain k where k: "n = of_nat k" "k < unat (tb_page_count t)" by (auto simp: pids_def)
  have "unat (tb_page_count t) < 2 ^ 32" using unsigned_less [of "tb_page_count t"] by simp
  then have "unat n = k" using k by (simp add: unat_of_nat)
  then show ?thesis using k(2) by (simp add: word_less_nat_alt)
qed

lemma scan_pages_law:
  assumes "tb_wf t" and "tb_quiet t" and "works e" and "env_ok K e" and "buf_ok buf"
    and "\<not> wh_active (it_where intent)" and "\<forall>n \<in> set ns. n < tb_page_count t"
  shows "\<exists>t' e'. scan_pages intent ns t e buf = Some (shown buf (rows_on t ns), t', e') \<and>
           tb_wf t' \<and> tb_quiet t' \<and> tb_rows t' = tb_rows t \<and> works e' \<and> env_ok K e' \<and> meta t' = meta t"
  using assms(1-5,7)
proof (induction ns arbitrary: t e buf)
  case Nil
  then show ?case by (simp add: rows_on_def)
next
  case (Cons n ns)
  obtain i p t1 where pin: "tb_pin t e n = (Some i, t1, e)" "tb_holds t1 i n p" "tb_wf t1" "tb_quiet t1"
      "tb_rows t1 = tb_rows t" "meta t1 = meta t"
    using pin_works [OF Cons.prems(1-4), of n] Cons.prems(6) by (meson list.set_intros(1))
  obtain e1 where sl: "scan_slots intent i (slot_ids p) t1 e buf = Some (shown buf (rows p), t1, e1, left_over buf (rows p))"
      "works e1" "env_ok K e1" "buf_ok (left_over buf (rows p))"
    using scan_slots_law [OF pin(3,2) Cons.prems(3-5) assms(6), of "slot_ids p"] unfolding pick_all by blast
  note u = tb_wf_unpin [OF pin(3) tb_holds_i [OF pin(2)]]
  have m: "meta (tb_unpin t1 i) = meta t" "tb_rows (tb_unpin t1 i) = tb_rows t" using u pin(5,6) by simp_all
  have c: "\<forall>k \<in> set ns. k < tb_page_count (tb_unpin t1 i)" using Cons.prems(6) meta_fields(3) [OF m(1)] by simp
  have q: "tb_quiet (tb_unpin t1 i)" using pin(4) by simp
  obtain t2 e2 where sp: "scan_pages intent ns (tb_unpin t1 i) e1 (left_over buf (rows p)) =
      Some (shown (left_over buf (rows p)) (rows_on (tb_unpin t1 i) ns), t2, e2)"
      "tb_wf t2" "tb_quiet t2" "tb_rows t2 = tb_rows (tb_unpin t1 i)" "works e2" "env_ok K e2" "meta t2 = meta (tb_unpin t1 i)"
    using Cons.IH [OF u(1) q sl(2-4) c] by blast
  have fp: "frame_page t1 i = Some p" using tb_holds_facts(5) [OF tb_wf_ok [OF pin(3)] pin(2)] .
  have "rows_on t (n # ns) = rows p @ rows_on t ns"
    using tb_wf_page(2) [OF pin(3,2)] by (simp add: rows_on_def pin(5))
  then show ?case
    using sp fp sl(1) by (simp add: pin(1) shown_append rows_on_same [OF m(2)] m)
qed

lemma table_scan_run:
  assumes wf: "tb_wf t" and q: "tb_quiet t" and w: "works e" and e: "env_ok K e"
    and a: "\<not> wh_active (it_where intent)" and d: "draw_stack PAGE_SIZE e = (buf, e1)"
  shows "\<exists>t' e'. table_scan t e intent = Some (shown buf (all_rows t), t', e') \<and>
           tb_wf t' \<and> tb_quiet t' \<and> tb_rows t' = tb_rows t \<and> works e' \<and> env_ok K e' \<and> meta t' = meta t"
proof -
  note dr = draw_stack_ok [OF e d]
  have b: "buf_ok buf" using dr(2,3) by (simp add: buf_ok_def)
  have "\<not> on_index t intent" using a by (simp add: on_index_def)
  then show ?thesis
    using scan_pages_law [OF wf q works_stack [OF w d] dr(1) b a, of "pids t"] pids_below d
    by (simp add: table_scan_def all_rows_def)
qed

text \<open>Rows that carry their own terminator are shown as they are, whatever the buffer held.\<close>

lemma text_of_over: "0 \<in> set r \<Longrightarrow> text_of (over buf r) = text_of r"
  by (induction r arbitrary: buf) (auto simp: over_def text_of_def)

lemma shown_terminated:
  assumes "\<forall>r. Some r \<in> set rs \<longrightarrow> 0 \<in> set r"
  shows "shown buf rs = map (\<lambda>r. pieces bar (text_of r)) (map the (filter (\<lambda>r. r \<noteq> None) rs))"
  using assms by (induction buf rs rule: shown.induct) (simp_all add: text_of_over)

end
