(* ===== verification/TableDelete.thy ===== *)
theory TableDelete imports TableScan begin

text \<open>
  \<open>DELETE\<close> without a condition: every row of every page that can be read is deleted, and each
  deletion is logged as a transaction of its own.
\<close>

lemma data_rec_total:
  assumes "256 \<le> length d"
  shows "\<exists>r. data_rec lsn txn ty table (Some d) len page = Some r"
proof -
  have m: "unat (if len < of_nat WAL_MAX_DATA then len else of_nat WAL_MAX_DATA) \<le> 256"
    by (auto simp: word_less_nat_alt)
  have "length (blit (rset_page (rset_data_len (rset_type (rset_txn (rset_lsn zero_rec lsn) txn) ty) len) page) 17
      (strncpy_bytes table (WAL_TABLE_LEN - 1))) = 344"
    by (simp add: length_blit)
  then show ?thesis using assms m by (auto simp: data_rec_def Let_def mem_read_def mem_write_def)
qed

text \<open>
  What is known of files and log may depend on the number of rows that were changed: each of
  them is logged once.
\<close>

definition log_closed :: "cstr \<Rightarrow> (nat \<Rightarrow> core \<Rightarrow> bool) \<Rightarrow> bool" where
  "log_closed name K \<longleftrightarrow>
     (\<forall>k e ty row len n e'. env_ok (K k) e \<and> ty \<in> {WAL_UPDATE, WAL_DELETE} \<and> 256 \<le> length row \<and>
        wal_log_row e ty name row len n = Some e' \<longrightarrow> K (k + 1) (core e'))"

lemma wal_log_row_total:
  assumes "log_closed name K" and "env_ok (K k) e" and "works e" and "256 \<le> length row" and "ty \<in> {WAL_UPDATE, WAL_DELETE}"
  shows "\<exists>e'. wal_log_row e ty name row len n = Some e' \<and> env_ok (K (k + 1)) e' \<and> works e'"
proof (cases "g_wal e")
  case None
  then have l: "wal_log_row e ty name row len n = Some e" by (simp add: wal_log_row_def)
  have "K (k + 1) (core e)" using assms l unfolding log_closed_def by blast
  then show ?thesis using assms(2,3) l by (simp add: env_ok_def)
next
  case (Some w)
  obtain r f where b: "wal_begin (Some w) (g_wal_file e) = (r, Some (next_txn w), Some \<lparr>next_lsn = next_lsn w + 1, next_txn = next_txn w + 1\<rparr>, f)"
  proof -
    obtain r f where "write_record (g_wal_file e) (rset_type (rset_txn (rset_lsn zero_rec (next_lsn w)) (next_txn w)) WAL_BEGIN) = (r, f)"
      by fastforce
    then have "wal_begin (Some w) (g_wal_file e) = (r, Some (next_txn w), Some \<lparr>next_lsn = next_lsn w + 1, next_txn = next_txn w + 1\<rparr>, f)"
      by (cases w) (simp add: wal_begin_def)
    then show ?thesis by (rule that)
  qed
  obtain r2 w2 f2 where wr: "wal_write (Some \<lparr>next_lsn = next_lsn w + 1, next_txn = next_txn w + 1\<rparr>) f (next_txn w) ty name
      (Some row) len n = Some (r2, w2, f2)"
  proof -
    obtain x where x: "data_rec (next_lsn w + 1) (next_txn w) ty name (Some row) len n = Some x"
      using data_rec_total [OF assms(4)] by blast
    then have "wal_write (Some \<lparr>next_lsn = next_lsn w + 1, next_txn = next_txn w + 1\<rparr>) f (next_txn w) ty name (Some row) len n \<noteq> None"
      by (simp add: wal_write_def Let_def)
    then show ?thesis using that by (auto simp del: not_None_eq simp: not_Some_eq [symmetric])
  qed
  obtain r3 w3 f3 where "wal_commit w2 f2 (next_txn w) = (r3, w3, f3)" by (cases "wal_commit w2 f2 (next_txn w)") auto
  then have l: "wal_log_row e ty name row len n = Some (e\<lparr>g_wal := w3, g_wal_file := f3\<rparr>)"
    by (simp add: wal_log_row_def Some b wr)
  have "K (k + 1) (core (e\<lparr>g_wal := w3, g_wal_file := f3\<rparr>))" using assms l unfolding log_closed_def by blast
  then show ?thesis using assms(2,3) l by (simp add: env_ok_def)
qed

lemma row_key_works:
  assumes "works e" and "env_ok K e" and "0 \<in> set row"
  shows "\<exists>k e'. row_key t e row = Some (k, e') \<and> works e' \<and> env_ok K e'"
  using row_key_total [OF assms(2,3), of t] assms(1)
  by (auto simp: row_key_def get_col_value_def dest: works_stack split: Option.bind_splits prod.splits)

lemma log_closed_any [simp]: "log_closed name (\<lambda>k. any_core)"
  by (simp add: log_closed_def any_core_def)

text \<open>One row: what happens to a slot, whether it holds a row or not.\<close>

definition without :: "u16 \<Rightarrow> bytes option list \<Rightarrow> bytes option list" where
  "without s rs = rs[unat s := None]"

definition lives :: "page \<Rightarrow> u16 \<Rightarrow> nat" where
  "lives p s = (if pick p s = None then 0 else 1)"

lemma delete_slot_law:
  assumes K: "log_closed (tb_name t) K" and wf: "tb_wf t" and q: "tb_quiet t" and h: "tb_holds t i n p" and w: "works e"
    and e: "env_ok (K k) e" and b: "buf_ok buf" and a: "\<not> wh_active (it_where intent)"
  shows "\<exists>t' e' buf' p'. delete_slots intent n i (s # ss) t e buf k = delete_slots intent n i ss t' e' buf' (k + lives p s) \<and>
           tb_wf t' \<and> tb_quiet t' \<and> tb_holds t' i n p' \<and> works e' \<and> env_ok (K (k + lives p s)) e' \<and> buf_ok buf' \<and>
           meta t' = meta t \<and> rows p' = without s (rows p) \<and> tb_rows t' = (tb_rows t)(n \<mapsto> rows p')"
proof -
  note rd = frame_read_pick [OF wf h b, of s]
  have same: "(tb_rows t)(n \<mapsto> rows p) = tb_rows t" using tb_wf_page(2) [OF wf h] by (simp add: fun_upd_idem)
  show ?thesis
  proof (cases "pick p s")
    case None
    then have "without s (rows p) = rows p"
      by (auto simp: without_def pick_def list_update_beyond not_less intro: list_update_same_conv [THEN iffD2] split: if_splits)
    then show ?thesis
      using rd None wf q h w e b same
      by (intro exI [of _ t] exI [of _ e] exI [of _ buf] exI [of _ p]) (simp add: lives_def)
  next
    case (Some r)
    let ?buf = "over buf r" and ?len = "of_nat (length r) :: u16"
    have r: "frame_read t i s buf = Some (t, PAGE_OK, ?buf, Some ?len)" "buf_ok ?buf" using rd Some by simp_all
    obtain e1 where m: "row_matches_where e ?buf intent t = Some (True, e1)" "works e1" "env_ok (K k) e1"
      using row_matches_works [OF w e r(2) a] by blast
    have l: "256 \<le> length ?buf" using r(2) by (simp add: buf_ok_def)
    obtain e2 where lg: "wal_log_row e1 WAL_DELETE (tb_name t) ?buf ?len n = Some e2" "works e2" "env_ok (K (k + 1)) e2"
      using wal_log_row_total [OF K m(3,2) l, of WAL_DELETE] by blast
    have live: "unat s < length (rows p) \<and> rows p ! unat s \<noteq> None" using Some by (auto simp: pick_def split: if_splits)
    obtain p' where d: "frame_delete t i s = Some (frame_set_page t i p', PAGE_OK)" "page_wf p'"
        "rows p' = without s (rows p)" "hdr_page_id p' = n"
      using frame_delete_law [OF tb_wf_ok [OF wf] h tb_wf_page(1) [OF wf h], of s] live unfolding without_def by auto
    note c = tb_wf_changed [OF wf h d(2,4)]
    let ?t = "tb_mark_dirty (frame_set_page t i p') i"
    obtain key e3 where rk: "row_key ?t e2 ?buf = Some (key, e3)" "works e3" "env_ok (K (k + 1)) e3"
      using row_key_works [OF lg(2,3) buf_ok_zero [OF r(2)]] by blast
    have ix: "index_ok ?t" using tb_wf_ok [OF c(1)] by (simp add: tb_ok_def)
    obtain x where x: "index_delete ?t key = Some (?t\<lparr>tb_index := x\<rparr>)" "index_ok (?t\<lparr>tb_index := x\<rparr>)"
      using index_delete_total [OF ix] by blast
    have "delete_slots intent n i (s # ss) t e buf k = delete_slots intent n i ss (?t\<lparr>tb_index := x\<rparr>) e3 ?buf (k + lives p s)"
      using r(1) m(1) lg(1) d(1) rk(1) x(1) Some by (simp add: lives_def Let_def)
    moreover have "tb_wf (?t\<lparr>tb_index := x\<rparr>)" by (rule tb_wf_index [OF c(1) x(2)])
    moreover have "tb_holds (?t\<lparr>tb_index := x\<rparr>) i n p'" "tb_quiet (?t\<lparr>tb_index := x\<rparr>)" "meta (?t\<lparr>tb_index := x\<rparr>) = meta t"
      "tb_rows (?t\<lparr>tb_index := x\<rparr>) = (tb_rows t)(n \<mapsto> rows p')"
      using c q by (simp_all add: meta_def)
    moreover have "env_ok (K (k + lives p s)) e3" using rk(3) Some by (simp add: lives_def)
    ultimately show ?thesis using rk(2) r(2) d(3) by blast
  qed
qed

definition live_count :: "bytes option list \<Rightarrow> nat" where
  "live_count rs = length (filter (\<lambda>r. r \<noteq> None) rs)"

lemma live_count_update:
  "i < length rs \<Longrightarrow> live_count (rs[i := None]) + (if rs ! i = None then 0 else 1) = live_count rs"
proof (induction rs arbitrary: i)
  case (Cons r rs)
  then show ?case by (cases i) (auto simp: live_count_def)
qed simp

lemma lives_count: "live_count (without s (rows p)) + lives p s = live_count (rows p)"
  using live_count_update [of "unat s" "rows p"]
  by (auto simp: without_def lives_def pick_def list_update_beyond not_less split: if_splits)

lemma delete_slots_law:
  assumes a: "\<not> wh_active (it_where intent)"
    and "log_closed (tb_name t) K" "tb_wf t" "tb_quiet t" "tb_holds t i n p" "works e" "env_ok (K k) e" "buf_ok buf"
  shows "\<exists>t' e' buf' p' k'. delete_slots intent n i ss t e buf k = Some (t', e', buf', k') \<and>
           tb_wf t' \<and> tb_quiet t' \<and> works e' \<and> env_ok (K k') e' \<and> buf_ok buf' \<and> i < 7 \<and>
           meta t' = meta t \<and> rows p' = fold without ss (rows p) \<and> tb_rows t' = (tb_rows t)(n \<mapsto> rows p') \<and>
           k' + live_count (rows p') = k + live_count (rows p)"
  using assms(2-8)
proof (induction ss arbitrary: t p e buf k)
  case Nil
  then have "(tb_rows t)(n \<mapsto> rows p) = tb_rows t" using tb_wf_page(2) by (simp add: fun_upd_idem)
  then show ?case using Nil tb_holds_i [OF Nil(4)]
    by (intro exI [of _ t] exI [of _ e] exI [of _ buf] exI [of _ p] exI [of _ k]) simp
next
  case (Cons s ss)
  obtain t1 e1 b1 p1 where s: "delete_slots intent n i (s # ss) t e buf k = delete_slots intent n i ss t1 e1 b1 (k + lives p s)"
      "tb_wf t1" "tb_quiet t1" "tb_holds t1 i n p1" "works e1" "env_ok (K (k + lives p s)) e1" "buf_ok b1" "meta t1 = meta t"
      "rows p1 = without s (rows p)" "tb_rows t1 = (tb_rows t)(n \<mapsto> rows p1)"
    using delete_slot_law [OF Cons.prems a, of s ss] by (elim exE conjE)
  have K1: "log_closed (tb_name t1) K" using Cons.prems(1) meta_fields(1) [OF s(8)] by simp
  obtain t2 e2 b2 p2 k2 where r: "delete_slots intent n i ss t1 e1 b1 (k + lives p s) = Some (t2, e2, b2, k2)"
      "tb_wf t2" "tb_quiet t2" "works e2" "env_ok (K k2) e2" "buf_ok b2" "i < 7" "meta t2 = meta t1"
      "rows p2 = fold without ss (rows p1)" "tb_rows t2 = (tb_rows t1)(n \<mapsto> rows p2)"
      "k2 + live_count (rows p2) = k + lives p s + live_count (rows p1)"
    using Cons.IH [OF K1 s(2-7)] by (elim exE conjE)
  have "k2 + live_count (rows p2) = k + live_count (rows p)"
    using r(11) lives_count [of s p] by (simp add: s(9))
  then show ?case using r s by (intro exI [of _ t2] exI [of _ e2] exI [of _ b2] exI [of _ p2] exI [of _ k2]) simp
qed

lemma fold_without:
  "length (fold without ss rs) = length rs"
  "k < length rs \<Longrightarrow> fold without ss rs ! k = (if k \<in> unat ` set ss then None else rs ! k)"
  by (induction ss arbitrary: rs) (auto simp: without_def nth_list_update)

lemma unat_slot_ids: "unat ` set (slot_ids p) = {..<length (rows p)}"
proof -
  have "unat (of_nat k :: u16) = k" if "k < unat (hdr_slot_count p)" for k
    using that unat_bound_u16 [of "hdr_slot_count p"] by (simp add: unat_of_nat)
  then show ?thesis by (auto simp: slot_ids_def image_image intro!: image_eqI)
qed

definition erased :: "bytes option list \<Rightarrow> bytes option list" where
  "erased rs = map (\<lambda>_. None) rs"

lemma fold_without_all: "fold without (slot_ids p) (rows p) = erased (rows p)"
  by (rule nth_equalityI) (simp_all add: fold_without unat_slot_ids erased_def)

lemma live_count_erased [simp]: "live_count (erased rs) = 0"
  by (simp add: live_count_def erased_def)

lemma delete_pages_law:
  assumes a: "\<not> wh_active (it_where intent)"
    and "log_closed (tb_name t) K" "tb_wf t" "tb_quiet t" "works e" "env_ok (K k) e" "buf_ok buf" "\<forall>n \<in> set ns. n < tb_page_count t" "distinct ns"
  shows "\<exists>t' e' k'. delete_pages intent ns t e buf k = Some (t', e', k') \<and>
           tb_wf t' \<and> tb_quiet t' \<and> works e' \<and> env_ok (K k') e' \<and> meta t' = meta t \<and>
           tb_rows t' = (\<lambda>n. if n \<in> set ns then map_option erased (tb_rows t n) else tb_rows t n) \<and>
           k' = k + live_count (rows_on t ns)"
  using assms(2-9)
proof (induction ns arbitrary: t e buf k)
  case Nil
  then show ?case by (auto simp: rows_on_def live_count_def)
next
  case (Cons n ns)
  have n: "n < tb_page_count t" "n \<notin> set ns" using Cons.prems(7,8) by simp_all
  obtain i p t1 where pin: "tb_pin t e n = (Some i, t1, e)" "tb_holds t1 i n p" "tb_wf t1" "tb_quiet t1"
      "tb_rows t1 = tb_rows t" "meta t1 = meta t"
    using pin_works [OF Cons.prems(2-5) n(1)] by blast
  have K1: "log_closed (tb_name t1) K" using Cons.prems(1) meta_fields(1) [OF pin(6)] by simp
  note pg = tb_wf_page [OF pin(3,2)]
  obtain t2 e2 b2 p2 k2 where sl: "delete_slots intent n i (slot_ids p) t1 e buf k = Some (t2, e2, b2, k2)"
      "tb_wf t2" "tb_quiet t2" "works e2" "env_ok (K k2) e2" "buf_ok b2" "i < 7" "meta t2 = meta t1"
      "rows p2 = fold without (slot_ids p) (rows p)" "tb_rows t2 = (tb_rows t1)(n \<mapsto> rows p2)"
      "k2 + live_count (rows p2) = k + live_count (rows p)"
    using delete_slots_law [OF a K1 pin(3,4,2) Cons.prems(4-6), of "slot_ids p"] by (elim exE conjE)
  note u = tb_wf_unpin [OF sl(2,7)]
  have rs: "tb_rows (tb_unpin t2 i) = (tb_rows t)(n \<mapsto> erased (rows p))"
    by (simp add: u(2) sl(10) sl(9) fold_without_all pin(5))
  have m: "meta (tb_unpin t2 i) = meta t" by (simp add: u(3) sl(8) pin(6))
  have c: "\<forall>k \<in> set ns. k < tb_page_count (tb_unpin t2 i)" using Cons.prems(7) meta_fields(3) [OF m] by simp
  have q: "tb_quiet (tb_unpin t2 i)" using sl(3) by simp
  have dn: "distinct ns" using Cons.prems(8) by simp
  have K2: "log_closed (tb_name (tb_unpin t2 i)) K" using Cons.prems(1) meta_fields(1) [OF m] by simp
  obtain t3 e3 k3 where ih: "delete_pages intent ns (tb_unpin t2 i) e2 b2 k2 = Some (t3, e3, k3)"
      "tb_wf t3" "tb_quiet t3" "works e3" "env_ok (K k3) e3" "meta t3 = meta (tb_unpin t2 i)"
      "tb_rows t3 = (\<lambda>j. if j \<in> set ns then map_option erased (tb_rows (tb_unpin t2 i) j) else tb_rows (tb_unpin t2 i) j)"
      "k3 = k2 + live_count (rows_on (tb_unpin t2 i) ns)"
    using Cons.IH [OF K2 u(1) q sl(4-6) c dn] by (elim exE conjE)
  have k2: "k2 = k + live_count (rows p)" using sl(11) by (simp add: sl(9) fold_without_all)
  have ro: "rows_on (tb_unpin t2 i) ns = rows_on t ns"
    using n(2) by (auto simp: rows_on_def rs intro!: arg_cong [of _ _ concat])
  have "rows_on t (n # ns) = rows p @ rows_on t ns" using pg(2) by (simp add: rows_on_def pin(5))
  then have k3: "k3 = k + live_count (rows_on t (n # ns))" by (simp add: ih(8) k2 ro live_count_def)
  have r3: "tb_rows t3 = (\<lambda>j. if j \<in> set (n # ns) then map_option erased (tb_rows t j) else tb_rows t j)"
    using n(2) pg(2) by (auto simp: ih(7) rs pin(5) fun_eq_iff)
  have "frame_page t1 i = Some p" using tb_holds_facts(5) [OF tb_wf_ok [OF pin(3)] pin(2)] .
  then have "delete_pages intent (n # ns) t e buf k = Some (t3, e3, k3)" using sl(1) ih(1) by (simp add: pin(1))
  then show ?case using ih(2-6) m r3 k3 by auto
qed

lemma distinct_pids: "distinct (pids t)"
proof -
  have "inj_on (of_nat :: nat \<Rightarrow> u32) {0 ..< unat (tb_page_count t)}"
  proof (rule inj_onI)
    fix x y assume xy: "x \<in> {0 ..< unat (tb_page_count t)}" "y \<in> {0 ..< unat (tb_page_count t)}" "(of_nat x :: u32) = of_nat y"
    have "unat (tb_page_count t) < 2 ^ 32" using unsigned_less [of "tb_page_count t"] by simp
    then have "unat (of_nat x :: u32) = x" "unat (of_nat y :: u32) = y" using xy(1,2) by (simp_all add: unat_of_nat)
    then show "x = y" using xy(3) by metis
  qed
  then show ?thesis by (simp add: pids_def distinct_map)
qed

lemma pids_all: "n \<in> set (pids t) \<longleftrightarrow> n < tb_page_count t"
proof
  assume "n < tb_page_count t"
  then have "unat n < unat (tb_page_count t)" by (simp add: word_less_nat_alt)
  then show "n \<in> set (pids t)" by (auto simp: pids_def intro!: image_eqI [of _ _ "unat n"])
qed (rule pids_below)

lemma table_delete_run:
  assumes K: "log_closed (tb_name t) K" and wf: "tb_wf t" and q: "tb_quiet t" and w: "works e" and e: "env_ok (K 0) e"
    and a: "\<not> wh_active (it_where intent)"
  shows "\<exists>t' e'. table_delete t e intent = Some (TABLE_OK, live_count (all_rows t), t', e') \<and>
           tb_wf t' \<and> tb_quiet t' \<and> works e' \<and> env_ok (K (live_count (all_rows t))) e' \<and> meta t' = meta t \<and>
           tb_rows t' = (\<lambda>n. map_option erased (tb_rows t n))"
proof -
  obtain buf e1 where d: "draw_stack PAGE_SIZE e = (buf, e1)" by fastforce
  note dr = draw_stack_ok [OF e d]
  have b: "buf_ok buf" using dr(2,3) by (simp add: buf_ok_def)
  have below: "\<forall>n \<in> set (pids t). n < tb_page_count t" using pids_below by blast
  obtain t' e' k' where r: "delete_pages intent (pids t) t e1 buf 0 = Some (t', e', k')" "tb_wf t'" "tb_quiet t'" "works e'"
      "env_ok (K k') e'" "meta t' = meta t" "k' = 0 + live_count (rows_on t (pids t))"
      and rows: "tb_rows t' = (\<lambda>n. if n \<in> set (pids t) then map_option erased (tb_rows t n) else tb_rows t n)"
    using delete_pages_law [OF a K wf q works_stack [OF w d] dr(1) b below distinct_pids] by (elim exE conjE)
  have "tb_rows t n = None" if "n \<notin> set (pids t)" for n
    using wf that by (auto simp: tb_wf_def tb_rows_def pids_all split: if_splits)
  then have "tb_rows t' = (\<lambda>n. map_option erased (tb_rows t n))" by (auto simp: rows fun_eq_iff)
  then show ?thesis using r d by (auto simp: table_delete_def all_rows_def)
qed

end
