(* ===== verification/TableUpdate.thy ===== *)
theory TableUpdate imports TableDelete begin

text \<open>
  \<open>UPDATE\<close>: the text of the new row, and what replacing the old row by it does to the page,
  with room for the new row and without.
\<close>

fun new_fields :: "nat \<Rightarrow> cstr \<Rightarrow> nat \<Rightarrow> cstr list \<Rightarrow> bytes" where
  "new_fields c v ci [] = []"
| "new_fields c v ci (tok # toks) =
     (if ci > 0 then [bar] else []) @ (if ci = c then v else tok) @ new_fields c v (ci + 1) toks"

lemma snprintf_fits:
  assumes "length buf = 4096" and "pos + length s < 4096"
  shows "\<exists>b. snprintf_at buf pos s = Some b \<and> length b = 4096 \<and> take (pos + length s) b = take pos buf @ s"
  using assms by (simp add: snprintf_at_def mem_write_def blit_def)

lemma build_row_writes:
  assumes "length new = 4096" and "pos + length (new_fields c v ci toks) < 4096"
  shows "\<exists>new'. build_row c v ci toks new pos = Some (new', pos + length (new_fields c v ci toks)) \<and>
           length new' = 4096 \<and> take (pos + length (new_fields c v ci toks)) new' = take pos new @ new_fields c v ci toks"
  using assms
proof (induction toks arbitrary: ci new pos)
  case (Cons tok toks)
  let ?pre = "if ci > 0 then [bar] else []" and ?val = "if ci = c then v else tok"
  let ?pos = "pos + length ?pre"
  obtain b1 where b1: "(if ci > 0 then mem_write new pos [bar] else Some new) = Some b1" "length b1 = 4096"
      "take ?pos b1 = take pos new @ ?pre"
    using Cons.prems by (cases "ci > 0") (simp_all add: mem_write_def blit_def)
  have fit: "?pos + length ?val < 4096" using Cons.prems(2) by (auto split: if_splits)
  obtain b2 where b2: "snprintf_at b1 ?pos ?val = Some b2" "length b2 = 4096" "take (?pos + length ?val) b2 = take ?pos b1 @ ?val"
    using snprintf_fits [OF b1(2) fit] by blast
  have lim: "?pos + length ?val + length (new_fields c v (ci + 1) toks) < 4096" using Cons.prems(2) by simp
  obtain b3 where b3: "build_row c v (ci + 1) toks b2 (?pos + length ?val) =
      Some (b3, ?pos + length ?val + length (new_fields c v (ci + 1) toks))" "length b3 = 4096"
      "take (?pos + length ?val + length (new_fields c v (ci + 1) toks)) b3 =
         take (?pos + length ?val) b2 @ new_fields c v (ci + 1) toks"
    using Cons.IH [OF b2(2) lim] by blast
  have "build_row c v ci (tok # toks) new pos = build_row c v (ci + 1) toks b2 (?pos + length ?val)"
    using b1(1) b2(1) by (auto split: if_splits)
  then show ?case using b3 b2(3) b1(3) by (intro exI [of _ b3]) (simp add: add.assoc)
qed simp

lemma updated_row_writes:
  assumes "buf_ok buf" and "length new = 4096" and "length (new_fields c v 0 (pieces bar (text_of buf))) < 4096"
  shows "\<exists>new'. updated_row new buf c v = Some (new', length (new_fields c v 0 (pieces bar (text_of buf))) + 1) \<and>
           length new' = 4096 \<and>
           take (length (new_fields c v 0 (pieces bar (text_of buf))) + 1) new' =
             new_fields c v 0 (pieces bar (text_of buf)) @ [0]"
proof -
  let ?fs = "pieces bar (text_of buf)"
  let ?n = "length (new_fields c v 0 ?fs)"
  obtain b where b: "build_row c v 0 ?fs new 0 = Some (b, ?n)" "length b = 4096" "take ?n b = new_fields c v 0 ?fs"
    using build_row_writes [OF assms(2), of 0 c v 0 ?fs] assms(3) by auto
  let ?b = "take ?n b @ [0] @ drop (Suc ?n) b"
  have w: "mem_write b ?n [0] = Some ?b" using b(2) assms(3) by (simp add: mem_write_def blit_def)
  have "updated_row new buf c v = Some (?b, ?n + 1)"
    unfolding updated_row_def by (simp add: row_fields_pieces [OF assms(1)] b(1) w del: mem_write_Some)
  moreover have "length ?b = 4096" "take (?n + 1) ?b = take ?n b @ [0]" using b(2) assms(3) by simp_all
  ultimately show ?thesis unfolding b(3) by blast
qed

text \<open>Replacing a row.\<close>

lemma page_delete_room:
  assumes "page_wf p" and "page_delete p i = Some (p', r)"
  shows "hdr_slot_count p' = hdr_slot_count p" "hdr_free_end p' = hdr_free_end p" "has_room p' len = has_room p len"
proof -
  have same: "hdr_slot_count p' = hdr_slot_count p \<and> hdr_free_end p' = hdr_free_end p"
  proof (cases "unat i < length (rows p) \<and> rows p ! unat i \<noteq> None")
    case False
    then have "page_delete p i = Some (p, PAGE_NOT_FOUND)" using page_delete_law [OF assms(1), of i] by auto
    then show ?thesis using assms(2) by simp
  next
    case True
    have i: "unat i < unat (hdr_slot_count p)" and al: "alive (slot_at p (unat i))"
      using True by (auto simp: row_of_def split: if_splits)
    note core = page_wf_core [OF assms(1)]
    obtain q where q: "put_slot_flags p (unat i) SLOT_DEAD = Some q"
      using core_slot(1) [OF core i] by (simp add: put_slot_flags_def)
    have "page_delete p i = Some (q, PAGE_OK)"
      using i al q core_slot(1) [OF core i] by (simp add: page_delete_def get_slot_def word_le_nat_alt)
    then show ?thesis using assms(2) put_slot_flags_raw(2,4) [OF core i q] by simp
  qed
  then show "hdr_slot_count p' = hdr_slot_count p" "hdr_free_end p' = hdr_free_end p" "has_room p' len = has_room p len"
    by (simp_all add: has_room_def)
qed

lemma frame_replace_law:
  assumes wf: "tb_wf t" and h: "tb_holds t i n p" and live: "unat s < length (rows p)" "rows p ! unat s \<noteq> None"
    and len: "unat len \<le> length row" "unat len < 65530"
  shows "\<exists>p'. frame_replace t i s row len =
             Some (frame_set_page t i p', PAGE_OK, if has_room p len then PAGE_OK else PAGE_FULL,
                   if has_room p len then hdr_slot_count p else 0) \<and>
           page_wf p' \<and> hdr_page_id p' = n \<and>
           rows p' = (rows p)[unat s := None] @ (if has_room p len then [Some (take (unat len) row)] else []) \<and>
           (has_room p len \<longrightarrow> hdr_slot_count p' = hdr_slot_count p + 1 \<and>
              unat (hdr_free_end p') = unat (hdr_free_end p) - unat len)"
proof -
  note f = tb_holds_facts [OF tb_wf_ok [OF wf] h] and pw = tb_wf_page(1) [OF wf h]
  have i: "i < length (frames (tb_pool t))" using f by simp
  obtain l where l: "frame_write_lock t i = Some (frame_set_lock t i l)" "rwlock_write_unlock l = frame_lock t i"
    using frame_write_lock_free [OF f(6) i] by blast
  obtain q where q: "page_delete p s = Some (q, PAGE_OK)" "page_wf q" "rows q = (rows p)[unat s := None]"
      "hdr_page_id q = hdr_page_id p"
    using page_delete_law [OF pw, of s] live by auto
  note room = page_delete_room(3) [OF pw q(1), of len] and cnt = page_delete_room(1,2) [OF pw q(1)]
  note law = page_insert_law [OF q(2) len]
  show ?thesis
  proof (cases "has_room p len")
    case True
    then obtain p' where p': "page_insert q row len = Some (p', PAGE_OK, Some (hdr_slot_count q))" "page_wf p'"
        "rows p' = rows q @ [Some (take (unat len) row)]" "hdr_page_id p' = hdr_page_id q"
        "hdr_slot_count p' = hdr_slot_count q + 1" "unat (hdr_free_end p') = unat (hdr_free_end q) - unat len"
      using law room by auto
    then show ?thesis
      using True f(3) q cnt
      by (auto simp: frame_replace_def l f(5) i p'(1) frame_unlock(1) [OF i l(2)])
  next
    case False
    then have "page_insert q row len = Some (q, PAGE_FULL, None)" using law room by simp
    then show ?thesis
      using False f(3) q by (auto simp: frame_replace_def l f(5) i frame_unlock(1) [OF i l(2)])
  qed
qed

text \<open>One iteration of \<open>table_update\<close> at a slot that holds a row.\<close>

definition updated :: "nat \<Rightarrow> cstr \<Rightarrow> bytes \<Rightarrow> bytes" where
  "updated c v buf = new_fields c v 0 (pieces bar (text_of buf)) @ [0]"

lemma update_slot_law:
  assumes wf: "tb_wf t" and h: "tb_holds t i n p" and K: "log_closed (tb_name t) K" and w: "works e"
    and e: "env_ok (K k) e" and b: "buf_ok buf" and a: "\<not> wh_active (it_where intent)" and r: "pick p s = Some r"
    and c: "find_col (\<lambda>cd. cd_name cd = sc_column (it_set intent)) t = Some c"
    and n: "new = updated c (sc_value (it_set intent)) (over buf r)" "length new \<le> 4050"
  shows "if has_room p (of_nat (length new))
         then \<exists>t' e' p'. update_slots intent n i (s # ss) t e buf k = update_slots intent n i ss t' e' (over buf r) (k + 1) \<and>
                tb_wf t' \<and> works e' \<and> env_ok (K (k + 1)) e' \<and> tb_holds t' i n p' \<and> meta t' = meta t \<and>
                tb_quiet t' = tb_quiet t \<and> rows p' = without s (rows p) @ [Some new] \<and>
                tb_view t' = (tb_view t)(n \<mapsto> stamp p') \<and> hdr_slot_count p' = hdr_slot_count p + 1 \<and>
                unat (hdr_free_end p') = unat (hdr_free_end p) - length new \<and>
                tb_rows t' = (tb_rows t)(n \<mapsto> rows p')
         else \<exists>p' e'. update_slots intent n i (s # ss) t e buf k =
                  update_slots intent n i ss (frame_set_page t i p') e' (over buf r) k \<and>
                page_wf p' \<and> hdr_page_id p' = n \<and> rows p' = without s (rows p) \<and> works e' \<and> env_ok (K (k + 1)) e'"
proof -
  let ?buf = "over buf r" and ?v = "sc_value (it_set intent)"
  let ?nf = "new_fields c ?v 0 (pieces bar (text_of ?buf))" and ?len = "of_nat (length new) :: u16"
  have rd: "frame_read t i s buf = Some (t, PAGE_OK, ?buf, Some (of_nat (length r)))" "buf_ok ?buf"
    using frame_read_pick [OF wf h b, of s] r by simp_all
  obtain e1 where m: "row_matches_where e ?buf intent t = Some (True, e1)" "works e1" "env_ok (K k) e1"
    using row_matches_works [OF w e rd(2) a] by blast
  obtain junk e2 where d: "draw_stack PAGE_SIZE e1 = (junk, e2)" by fastforce
  note dr = draw_stack_ok [OF m(3) d]
  have w2: "works e2" by (rule works_stack [OF m(2) d])
  have l: "length ?nf + 1 = length new" "length ?nf < 4096" using n by (simp_all add: updated_def)
  obtain row where row: "updated_row junk ?buf c ?v = Some (row, length new)" "length row = 4096" "take (length new) row = new"
    using updated_row_writes [OF rd(2) _ l(2), of junk] dr(2) unfolding l(1) n(1) updated_def by auto
  have lr: "256 \<le> length row" using row(2) by simp
  obtain e3 where lg: "wal_log_row e2 WAL_UPDATE (tb_name t) row ?len n = Some e3" "works e3" "env_ok (K (k + 1)) e3"
    using wal_log_row_total [OF K dr(1) w2 lr, of WAL_UPDATE] by blast
  have u: "unat ?len = length new" using n(2) by (simp add: unat_of_nat)
  have live: "unat s < length (rows p)" "rows p ! unat s \<noteq> None" using r by (auto simp: pick_def split: if_splits)
  have len: "unat ?len \<le> length row" "unat ?len < 65530" using n(2) row(2) by (simp_all add: u)
  obtain p' where fr: "frame_replace t i s row ?len = Some (frame_set_page t i p', PAGE_OK,
        if has_room p ?len then PAGE_OK else PAGE_FULL, if has_room p ?len then hdr_slot_count p else 0)"
      "page_wf p'" "hdr_page_id p' = n" "rows p' = without s (rows p) @ (if has_room p ?len then [Some new] else [])"
      "has_room p ?len \<longrightarrow> hdr_slot_count p' = hdr_slot_count p + 1 \<and> unat (hdr_free_end p') = unat (hdr_free_end p) - length new"
    using frame_replace_law [OF wf h live len] unfolding u row(3) without_def by (elim exE conjE)
  have d': "draw_stack 4096 e1 = (junk, e2)" using d by simp
  show ?thesis
  proof (cases "has_room p ?len")
    case False
    then show ?thesis
      using fr lg(2,3) by (auto simp: rd(1) m(1) c d' row(1) lg(1) Let_def intro!: exI [of _ p'] exI [of _ e3])
  next
    case True
    note ch = tb_wf_changed [OF wf h fr(2,3)]
    let ?t = "tb_mark_dirty (frame_set_page t i p') i"
    obtain key e4 where rk: "row_key ?t e3 ?buf = Some (key, e4)" "works e4" "env_ok (K (k + 1)) e4"
      using row_key_works [OF lg(2,3) buf_ok_zero [OF rd(2)]] by blast
    have ix: "index_ok ?t" using tb_wf_ok [OF ch(1)] by (simp add: tb_ok_def)
    obtain x where x: "index_delete ?t key = Some (?t\<lparr>tb_index := x\<rparr>)" "index_ok (?t\<lparr>tb_index := x\<rparr>)"
      using index_delete_total [OF ix] by blast
    have z: "0 \<in> set row" using row(3) n(1) in_set_takeD [of 0 "length new" row] by (simp add: updated_def)
    obtain y e5 where y: "index_row (?t\<lparr>tb_index := x\<rparr>) e4 row n (hdr_slot_count p) =
          Some (?t\<lparr>tb_index := x\<rparr>\<lparr>tb_index := y\<rparr>, e5)" "index_ok (?t\<lparr>tb_index := x\<rparr>\<lparr>tb_index := y\<rparr>)" "env_ok (K (k + 1)) e5"
      using index_row_total [OF x(2) rk(3) z] by blast
    have w5: "works e5" using works_index_row [OF rk(2) y(1)] by simp
    let ?t' = "?t\<lparr>tb_index := x\<rparr>\<lparr>tb_index := y\<rparr>"
    have "update_slots intent n i (s # ss) t e buf k = update_slots intent n i ss ?t' e5 ?buf (k + 1)"
      using True fr(1) by (simp add: rd(1) m(1) c d' row(1) lg(1) rk(1) x(1) y(1) Let_def)
    moreover have "tb_wf ?t'" by (rule tb_wf_index [OF tb_wf_index [OF ch(1) x(2)] y(2)])
    moreover have "tb_rows ?t' = (tb_rows t)(n \<mapsto> rows p')" "rows p' = without s (rows p) @ [Some new]"
      using ch(2) fr(4) True by simp_all
    moreover have "tb_view ?t' = (tb_view t)(n \<mapsto> stamp p')"
      using tb_changed(2) [OF tb_wf_ok [OF wf] h length_page_wf [OF fr(2)] fr(3)] by simp
    moreover have "tb_holds ?t' i n p'" "meta ?t' = meta t" "tb_quiet ?t' = tb_quiet t" using ch(3,4) by (simp_all add: meta_def)
    moreover have "hdr_slot_count p' = hdr_slot_count p + 1" "unat (hdr_free_end p') = unat (hdr_free_end p) - length new"
      using fr(5) True by simp_all
    ultimately show ?thesis using w5 y(3) unfolding if_P [OF True] by blast
  qed
qed

text \<open>
  A changed page in a dirty frame is written out later like any other, without another call of
  \<open>buf_mark_dirty\<close>. A changed page in a clean frame never is: closing the table then writes the
  same file as without the change.
\<close>

lemma frame_set_dirty:
  assumes "fr_dirty (frames (tb_pool t) ! i)" and "i < length (frames (tb_pool t))"
  shows "tb_mark_dirty (frame_set_page t i p) i = frame_set_page t i p"
proof -
  let ?pool = "upd_frame (tb_pool t) i (\<lambda>fr. fr\<lparr>fr_page := Some p\<rparr>)"
  have "upd_frame ?pool i (\<lambda>fr. fr\<lparr>fr_dirty := True\<rparr>) = ?pool"
    using assms by (intro upd_frame_id) (simp add: upd_frame_def)
  then show ?thesis by (simp add: tb_mark_dirty_def frame_set_page_def buf_mark_dirty_def)
qed

lemma flush_step_clean:
  fixes pool i q
  defines "put \<equiv> \<lambda>pool. upd_frame pool i (\<lambda>fr. fr\<lparr>fr_page := Some q\<rparr>)"
  assumes "\<not> fr_dirty (frames pool ! i)" and "fr_page (frames pool ! i) \<noteq> None" and "i < length (frames pool)"
    and "flush_step j (r, pool, f) = (r', pool', f')"
  shows "flush_step j (r, put pool, f) = (r', put pool', f')"
    and "\<not> fr_dirty (frames pool' ! i) \<and> fr_page (frames pool' ! i) \<noteq> None \<and> i < length (frames pool')"
proof -
  have eq: "flush_step j (r, put pool, f) = (r', put pool', f') \<and>
      \<not> fr_dirty (frames pool' ! i) \<and> fr_page (frames pool' ! i) \<noteq> None \<and> i < length (frames pool')"
  proof (cases "j = i")
    case True
    then show ?thesis using assms(2-) by (auto simp: flush_step_def put_def upd_frame_def split: option.splits)
  next
    case False
    then show ?thesis using assms(2-)
      by (cases "j < length (frames pool)")
        (auto simp: flush_step_def put_def upd_frame_def Let_def list_update_swap list_update_beyond
          split: option.splits prod.splits if_splits)
  qed
  then show "flush_step j (r, put pool, f) = (r', put pool', f')"
    and "\<not> fr_dirty (frames pool' ! i) \<and> fr_page (frames pool' ! i) \<noteq> None \<and> i < length (frames pool')" by simp_all
qed

lemma flush_fold_clean:
  assumes "\<not> fr_dirty (frames pool ! i)" and "fr_page (frames pool ! i) \<noteq> None" and "i < length (frames pool)"
  shows "\<exists>r' pool' f'. fold flush_step js (r, pool, f) = (r', pool', f') \<and>
           fold flush_step js (r, upd_frame pool i (\<lambda>fr. fr\<lparr>fr_page := Some q\<rparr>), f) =
             (r', upd_frame pool' i (\<lambda>fr. fr\<lparr>fr_page := Some q\<rparr>), f')"
  using assms
proof (induction js arbitrary: r pool f)
  case (Cons j js)
  obtain r1 pool1 f1 where st: "flush_step j (r, pool, f) = (r1, pool1, f1)" by (cases "flush_step j (r, pool, f)") auto
  note c = flush_step_clean [OF Cons.prems st]
  show ?case using Cons.IH [of pool1 r1 f1] c(2) by (simp add: st c(1) [of q])
qed simp

lemma table_close_clean:
  assumes "tb_wf t" and "tb_holds t i n p" and "\<not> fr_dirty (frames (tb_pool t) ! i)"
  shows "table_close (frame_set_page t i q) e = table_close t e"
proof -
  note h = tb_holds_facts(4,5,7) [OF tb_wf_ok [OF assms(1)] assms(2)]
  have "fr_page (frames (tb_pool t) ! i) \<noteq> None" "i < length (frames (tb_pool t))"
    using h by (simp_all add: frame_page_def)
  from flush_fold_clean [OF assms(3) this, of "[0 ..< BUFFER_POOL_SIZE]" BUF_OK "tb_file t" q]
  show ?thesis
    by (auto simp: table_close_def buf_destroy_def buf_flush_all_def frame_set_page_def split: prod.splits)
qed

text \<open>
  The reference of a whole update: the new rows of a page, whose texts are read through the row
  buffer, and whether a page with \<open>count\<close> slots and rows down to \<open>free\<close> takes them all.
\<close>

fun new_rows :: "nat \<Rightarrow> cstr \<Rightarrow> bytes \<Rightarrow> bytes option list \<Rightarrow> bytes list" where
  "new_rows c v buf [] = []"
| "new_rows c v buf (None # rs) = new_rows c v buf rs"
| "new_rows c v buf (Some r # rs) = updated c v (over buf r) # new_rows c v (over buf r) rs"

fun fits :: "nat \<Rightarrow> nat \<Rightarrow> bytes list \<Rightarrow> bool" where
  "fits count free [] \<longleftrightarrow> True"
| "fits count free (r # rs) \<longleftrightarrow>
     count < 128 \<and> slot_addr count + SLOT_SIZE + length r \<le> free \<and> fits (count + 1) (free - length r) rs"

lemma fits_room:
  assumes "page_wf p" and "fits (unat (hdr_slot_count p)) (unat (hdr_free_end p)) (r # rs)"
  shows "has_room p (of_nat (length r))" and "length r \<le> 4050" and "unat (hdr_slot_count p + 1) = unat (hdr_slot_count p) + 1"
proof -
  note b = core_bounds [OF page_wf_core [OF assms(1)]]
  have f: "unat (hdr_slot_count p) < 128" "slot_addr (unat (hdr_slot_count p)) + 6 + length r \<le> unat (hdr_free_end p)"
    using assms(2) by simp_all
  moreover have "40 \<le> slot_addr (unat (hdr_slot_count p))" by (simp add: slot_addr_def)
  ultimately show l: "length r \<le> 4050" using b(4) by linarith
  then show "has_room p (of_nat (length r))" using f by (simp add: has_room_def unat_of_nat)
  show "unat (hdr_slot_count p + 1) = unat (hdr_slot_count p) + 1" using f(1) by (simp add: unat_add_u16)
qed

lemma without_append: "unat s < length rs \<Longrightarrow> without s (rs @ x) = without s rs @ x"
  by (simp add: without_def list_update_append)

lemma fold_without_append:
  "\<forall>s \<in> set ss. unat s < length rs \<Longrightarrow> fold without ss (rs @ x) = fold without ss rs @ x"
  by (induction ss arbitrary: rs) (simp_all add: without_append, simp add: without_def)

lemma pick_other:
  assumes "rows p' = without s (rows p) @ x" and "s \<notin> set ss" and "\<forall>s \<in> set ss. unat s < length (rows p)"
  shows "map (pick p') ss = map (pick p) ss"
proof -
  have "pick p' k = pick p k" if "k \<in> set ss" for k
  proof -
    have "unat k \<noteq> unat s" using that assms(2) by (auto simp: word_unat_eq_iff [symmetric])
    then show ?thesis using that assms(1,3) by (auto simp: pick_def without_def nth_append)
  qed
  then show ?thesis by simp
qed

lemma update_slots_law:
  assumes a: "\<not> wh_active (it_where intent)" and v: "v = sc_value (it_set intent)"
    and "log_closed (tb_name t) K" "tb_wf t" "tb_quiet t" "tb_holds t i n p" "works e" "env_ok (K k) e" "buf_ok buf"
    and "find_col (\<lambda>cd. cd_name cd = sc_column (it_set intent)) t = Some c"
    and "distinct ss" "\<forall>s \<in> set ss. unat s < length (rows p)"
    and "fits (unat (hdr_slot_count p)) (unat (hdr_free_end p)) (new_rows c v buf (map (pick p) ss))"
  shows "\<exists>t' e' p'. update_slots intent n i ss t e buf k =
             Some (t', e', left_over buf (map (pick p) ss), k + length (new_rows c v buf (map (pick p) ss))) \<and>
           tb_wf t' \<and> tb_quiet t' \<and> works e' \<and> env_ok (K (k + length (new_rows c v buf (map (pick p) ss)))) e' \<and>
           buf_ok (left_over buf (map (pick p) ss)) \<and> i < 7 \<and> meta t' = meta t \<and>
           rows p' = fold without ss (rows p) @ map Some (new_rows c v buf (map (pick p) ss)) \<and>
           tb_view t' = (tb_view t)(n \<mapsto> stamp p') \<and> tb_rows t' = (tb_rows t)(n \<mapsto> rows p')"
  using assms(3-)
proof (induction ss arbitrary: t p e buf k)
  case Nil
  have "(tb_rows t)(n \<mapsto> rows p) = tb_rows t" using tb_wf_page(2) [OF Nil(2,4)] by (simp add: fun_upd_idem)
  moreover have "(tb_view t)(n \<mapsto> stamp p) = tb_view t"
    using tb_holds_facts(1) [OF tb_wf_ok [OF Nil(2)] Nil(4)] by (simp add: fun_upd_idem)
  ultimately show ?case using Nil tb_holds_i [OF Nil(4)] by (intro exI [of _ t] exI [of _ e] exI [of _ p]) simp
next
  case (Cons s ss)
  note rd = frame_read_pick [OF Cons.prems(2,4,7), of s]
  have s: "unat s < length (rows p)" "s \<notin> set ss" "distinct ss" "\<forall>s \<in> set ss. unat s < length (rows p)"
    using Cons.prems(9,10) by simp_all
  show ?case
  proof (cases "pick p s")
    case None
    then have w: "without s (rows p) = rows p" using s(1) by (simp add: pick_def without_def list_update_same_conv)
    have f: "fits (unat (hdr_slot_count p)) (unat (hdr_free_end p)) (new_rows c v buf (map (pick p) ss))"
      using Cons.prems(11) None by simp
    have st: "update_slots intent n i (s # ss) t e buf k = update_slots intent n i ss t e buf k" using rd None by simp
    show ?thesis using Cons.IH [OF Cons.prems(1-8) s(3,4) f] unfolding st by (simp add: None w)
  next
    case (Some r)
    let ?new = "updated c v (over buf r)"
    have b1: "buf_ok (over buf r)" using rd Some by simp
    have fit: "fits (unat (hdr_slot_count p)) (unat (hdr_free_end p)) (?new # new_rows c v (over buf r) (map (pick p) ss))"
      using Cons.prems(11) Some by simp
    note room = fits_room [OF tb_wf_page(1) [OF Cons.prems(2,4)] fit]
    have new: "?new = updated c (sc_value (it_set intent)) (over buf r)" by (simp add: v)
    obtain t1 e1 p1 where u: "update_slots intent n i (s # ss) t e buf k = update_slots intent n i ss t1 e1 (over buf r) (k + 1)"
        "tb_wf t1" "works e1" "env_ok (K (k + 1)) e1" "tb_holds t1 i n p1" "meta t1 = meta t" "tb_quiet t1 = tb_quiet t"
        "rows p1 = without s (rows p) @ [Some ?new]" "tb_view t1 = (tb_view t)(n \<mapsto> stamp p1)"
        "hdr_slot_count p1 = hdr_slot_count p + 1" "unat (hdr_free_end p1) = unat (hdr_free_end p) - length ?new"
        "tb_rows t1 = (tb_rows t)(n \<mapsto> rows p1)"
      using update_slot_law [OF Cons.prems(2,4,1,5-7) a Some Cons.prems(8) new room(2), of ss]
      unfolding if_P [OF room(1)] by (elim exE conjE)
    note same = pick_other [OF u(8) s(2,4)]
    have K1: "log_closed (tb_name t1) K" using Cons.prems(1) meta_fields(1) [OF u(6)] by simp
    have q1: "tb_quiet t1" using u(7) Cons.prems(3) by simp
    have c1: "find_col (\<lambda>cd. cd_name cd = sc_column (it_set intent)) t1 = Some c"
      using Cons.prems(8) meta_fields(8) [OF u(6)] by simp
    have l1: "\<forall>s \<in> set ss. unat s < length (rows p1)" using s(4) unfolding u(8) without_def by auto
    have f1: "fits (unat (hdr_slot_count p1)) (unat (hdr_free_end p1)) (new_rows c v (over buf r) (map (pick p1) ss))"
      using fit room(3) by (simp add: u(10,11) same)
    have fw: "fold without ss (rows p1) = fold without ss (without s (rows p)) @ [Some ?new]"
      using s(4) unfolding u(8) by (subst fold_without_append) (simp_all add: without_def)
    obtain t2 e2 p2 where "update_slots intent n i ss t1 e1 (over buf r) (k + 1) =
          Some (t2, e2, left_over (over buf r) (map (pick p1) ss), k + 1 + length (new_rows c v (over buf r) (map (pick p1) ss)))"
        "tb_wf t2" "tb_quiet t2" "works e2" "env_ok (K (k + 1 + length (new_rows c v (over buf r) (map (pick p1) ss)))) e2"
        "buf_ok (left_over (over buf r) (map (pick p1) ss))" "i < 7" "meta t2 = meta t1"
        "rows p2 = fold without ss (rows p1) @ map Some (new_rows c v (over buf r) (map (pick p1) ss))"
        "tb_view t2 = (tb_view t1)(n \<mapsto> stamp p2)" "tb_rows t2 = (tb_rows t1)(n \<mapsto> rows p2)"
      using Cons.IH [OF K1 u(2) q1 u(5,3,4) b1 c1 s(3) l1 f1] by (elim exE conjE)
    then show ?thesis unfolding u(1) same
      by (intro exI [of _ t2] exI [of _ e2] exI [of _ p2]) (simp add: Some u(6,9,12) fw)
  qed
qed

text \<open>All pages, one after the other.\<close>

definition rows_at :: "Table \<Rightarrow> u32 \<Rightarrow> bytes option list" where
  "rows_at t n = (case tb_rows t n of Some rs \<Rightarrow> rs | None \<Rightarrow> [])"

definition free_at :: "Table \<Rightarrow> u32 \<Rightarrow> nat" where
  "free_at t n = (case tb_view t n of Some p \<Rightarrow> unat (hdr_free_end p) | None \<Rightarrow> 0)"

fun page_news :: "nat \<Rightarrow> cstr \<Rightarrow> bytes \<Rightarrow> bytes option list list \<Rightarrow> bytes list list" where
  "page_news c v buf [] = []"
| "page_news c v buf (rs # rss) = new_rows c v buf rs # page_news c v (left_over buf rs) rss"

definition replaced :: "bytes option list \<Rightarrow> bytes list \<Rightarrow> bytes option list" where
  "replaced rs new = erased rs @ map Some new"

definition pages_fit :: "Table \<Rightarrow> u32 list \<Rightarrow> bytes list list \<Rightarrow> bool" where
  "pages_fit t ns news \<longleftrightarrow> list_all2 (\<lambda>n new. fits (length (rows_at t n)) (free_at t n) new) ns news"

lemma free_end_stamp [simp]: "length p = 4096 \<Longrightarrow> hdr_free_end (stamp p) = hdr_free_end p"
  by (simp add: stamp_def)

lemma distinct_slot_ids: "distinct (slot_ids p)"
proof -
  have "inj_on (of_nat :: nat \<Rightarrow> u16) {0 ..< unat (hdr_slot_count p)}"
  proof (rule inj_onI)
    fix x y assume xy: "x \<in> {0 ..< unat (hdr_slot_count p)}" "y \<in> {0 ..< unat (hdr_slot_count p)}" "(of_nat x :: u16) = of_nat y"
    have "unat (of_nat x :: u16) = x" "unat (of_nat y :: u16) = y"
      using xy(1,2) unat_bound_u16 [of "hdr_slot_count p"] by (simp_all add: unat_of_nat)
    then show "x = y" using xy(3) by metis
  qed
  then show ?thesis by (simp add: slot_ids_def distinct_map)
qed

lemma update_pages_law:
  assumes a: "\<not> wh_active (it_where intent)" and v: "v = sc_value (it_set intent)"
    and "log_closed (tb_name t) K" "tb_wf t" "tb_quiet t" "works e" "env_ok (K k) e" "buf_ok buf"
    and "find_col (\<lambda>cd. cd_name cd = sc_column (it_set intent)) t = Some c"
    and "\<forall>n \<in> set ns. n < tb_page_count t" "distinct ns" "pages_fit t ns (page_news c v buf (map (rows_at t) ns))"
  shows "\<exists>t' e' k'. update_pages intent ns t e buf k = Some (t', e', k') \<and>
           tb_wf t' \<and> tb_quiet t' \<and> works e' \<and> env_ok (K k') e' \<and> meta t' = meta t \<and>
           k' = k + length (concat (page_news c v buf (map (rows_at t) ns))) \<and>
           map (rows_at t') ns = map2 replaced (map (rows_at t) ns) (page_news c v buf (map (rows_at t) ns)) \<and>
           (\<forall>n. n \<notin> set ns \<longrightarrow> tb_view t' n = tb_view t n)"
  using assms(3-)
proof (induction ns arbitrary: t e buf k)
  case Nil
  then show ?case by simp
next
  case (Cons n ns)
  have n: "n < tb_page_count t" "n \<notin> set ns" "distinct ns" using Cons.prems(8,9) by simp_all
  obtain i p t1 where pin: "tb_pin t e n = (Some i, t1, e)" "tb_holds t1 i n p" "tb_wf t1" "tb_quiet t1"
      "tb_rows t1 = tb_rows t" "meta t1 = meta t" "tb_view t1 = tb_view t"
    using pin_works [OF Cons.prems(2-5) n(1)] by blast
  note pg = tb_wf_page [OF pin(3,2)] and h = tb_holds_facts [OF tb_wf_ok [OF pin(3)] pin(2)]
  have at: "rows_at t n = rows p" "free_at t n = unat (hdr_free_end p)"
    using pg(2) h(1,2) by (simp_all add: rows_at_def free_at_def pin(5,7))
  have K1: "log_closed (tb_name t1) K" using Cons.prems(1) meta_fields(1) [OF pin(6)] by simp
  have c1: "find_col (\<lambda>cd. cd_name cd = sc_column (it_set intent)) t1 = Some c"
    using Cons.prems(7) meta_fields(8) [OF pin(6)] by simp
  have below: "\<forall>s \<in> set (slot_ids p). unat s < length (rows p)" using unat_slot_ids [of p] by auto
  let ?new = "new_rows c v buf (rows p)" and ?buf = "left_over buf (rows p)"
  have f1: "fits (unat (hdr_slot_count p)) (unat (hdr_free_end p)) (new_rows c v buf (map (pick p) (slot_ids p)))"
    using Cons.prems(10) by (simp add: pages_fit_def at pick_all)
  obtain t2 e2 p2 where sl: "update_slots intent n i (slot_ids p) t1 e buf k = Some (t2, e2, ?buf, k + length ?new)"
      "tb_wf t2" "tb_quiet t2" "works e2" "env_ok (K (k + length ?new)) e2" "buf_ok ?buf" "i < 7" "meta t2 = meta t1"
      "rows p2 = replaced (rows p) ?new" "tb_view t2 = (tb_view t1)(n \<mapsto> stamp p2)" "tb_rows t2 = (tb_rows t1)(n \<mapsto> rows p2)"
    using update_slots_law [OF a v K1 pin(3,4,2) Cons.prems(4-6) c1 distinct_slot_ids below f1]
    unfolding pick_all fold_without_all replaced_def [symmetric] by (elim exE conjE)
  note u = tb_wf_unpin [OF sl(2,7)] and uv = tb_unpin_law(2) [OF tb_wf_ok [OF sl(2)] sl(7)]
  have m: "meta (tb_unpin t2 i) = meta t" by (simp add: u(3) sl(8) pin(6))
  have vw: "tb_view (tb_unpin t2 i) = (tb_view t)(n \<mapsto> stamp p2)" by (simp add: uv sl(10) pin(7))
  have ra: "rows_at (tb_unpin t2 i) k = (if k = n then replaced (rows p) ?new else rows_at t k)" for k
    by (simp add: rows_at_def u(2) sl(9,11) pin(5))
  have same: "map (rows_at (tb_unpin t2 i)) ns = map (rows_at t) ns" using n(2) by (simp add: ra)
  have fa: "free_at (tb_unpin t2 i) k = free_at t k" if "k \<in> set ns" for k using that n(2) by (auto simp: free_at_def vw)
  have K2: "log_closed (tb_name (tb_unpin t2 i)) K" using Cons.prems(1) meta_fields(1) [OF m] by simp
  have q: "tb_quiet (tb_unpin t2 i)" using sl(3) by simp
  have c2: "find_col (\<lambda>cd. cd_name cd = sc_column (it_set intent)) (tb_unpin t2 i) = Some c"
    using Cons.prems(7) meta_fields(8) [OF m] by simp
  have cn: "\<forall>k \<in> set ns. k < tb_page_count (tb_unpin t2 i)" using Cons.prems(8) meta_fields(3) [OF m] by simp
  have "pages_fit t ns (page_news c v ?buf (map (rows_at t) ns))" using Cons.prems(10) by (simp add: pages_fit_def at)
  then have f2: "pages_fit (tb_unpin t2 i) ns (page_news c v ?buf (map (rows_at (tb_unpin t2 i)) ns))"
    unfolding same pages_fit_def
    by (rule list.rel_mono_strong) (use n(2) in \<open>auto simp: ra fa\<close>)
  obtain t3 e3 k3 where ih: "update_pages intent ns (tb_unpin t2 i) e2 ?buf (k + length ?new) = Some (t3, e3, k3)"
      "tb_wf t3" "tb_quiet t3" "works e3" "env_ok (K k3) e3" "meta t3 = meta (tb_unpin t2 i)"
      "k3 = k + length ?new + length (concat (page_news c v ?buf (map (rows_at t) ns)))"
      "map (rows_at t3) ns = map2 replaced (map (rows_at t) ns) (page_news c v ?buf (map (rows_at t) ns))"
      "\<forall>k. k \<notin> set ns \<longrightarrow> tb_view t3 k = tb_view (tb_unpin t2 i) k"
    using Cons.IH [OF K2 u(1) q sl(4-6) c2 cn n(3) f2] unfolding same by (elim exE conjE)
  have "tb_rows t3 n = tb_rows (tb_unpin t2 i) n" using ih(9) n(2) by (simp add: tb_rows_def)
  then have last: "rows_at t3 n = replaced (rows p) ?new" using ra [of n] by (simp add: rows_at_def)
  have "update_pages intent (n # ns) t e buf k = Some (t3, e3, k3)" using sl(1) ih(1) h(5) by (simp add: pin(1))
  moreover have "\<forall>k. k \<notin> set (n # ns) \<longrightarrow> tb_view t3 k = tb_view t k" using ih(9) by (simp add: vw)
  ultimately show ?case using ih(2-8) m by (intro exI [of _ t3] exI [of _ e3] exI [of _ k3]) (simp add: at last)
qed

lemma table_update_run:
  assumes K: "log_closed (tb_name t) K" and wf: "tb_wf t" and q: "tb_quiet t" and w: "works e" and e: "env_ok (K 0) e"
    and a: "\<not> wh_active (it_where intent)" and d: "draw_stack PAGE_SIZE e = (buf, e1)"
    and c: "find_col (\<lambda>cd. cd_name cd = sc_column (it_set intent)) t = Some c"
    and news: "news = page_news c (sc_value (it_set intent)) buf (map (rows_at t) (pids t))" and fit: "pages_fit t (pids t) news"
  shows "\<exists>t' e'. table_update t e intent = Some (TABLE_OK, length (concat news), t', e') \<and>
           tb_wf t' \<and> tb_quiet t' \<and> works e' \<and> env_ok (K (length (concat news))) e' \<and> meta t' = meta t \<and>
           map (rows_at t') (pids t) = map2 replaced (map (rows_at t) (pids t)) news"
proof -
  note dr = draw_stack_ok [OF e d]
  have b: "buf_ok buf" using dr(2,3) by (simp add: buf_ok_def)
  have below: "\<forall>n \<in> set (pids t). n < tb_page_count t" using pids_below by blast
  obtain t' e' k' where "update_pages intent (pids t) t e1 buf 0 = Some (t', e', k')" "tb_wf t'" "tb_quiet t'" "works e'"
      "env_ok (K k') e'" "meta t' = meta t" "k' = 0 + length (concat news)"
      "map (rows_at t') (pids t) = map2 replaced (map (rows_at t) (pids t)) news"
    using update_pages_law [OF a refl K wf q works_stack [OF w d] dr(1) b c below distinct_pids, folded news, OF fit]
    by (elim exE conjE)
  then show ?thesis using d by (simp add: table_update_def)
qed

end
