(* ===== verification/Restart.thy ===== *)
theory Restart imports SqlInsert begin

text \<open>
  Recovery at start-up on the tables: \<open>table_flush\<close>, \<open>redo_insert\<close>, and what a restart does to
  the rows that are already in the data file.
\<close>

lemma frame_write_unlock_file [simp]:
  "frame_write_unlock (t\<lparr>tb_file := f\<rparr>) i = (frame_write_unlock t i)\<lparr>tb_file := f\<rparr>"
  by (simp add: frame_write_unlock_def frame_set_lock_def frame_lock_def)

lemma frame_unlock_same:
  assumes "i < length (frames (tb_pool t))" and "rwlock_write_unlock l = frame_lock t i"
  shows "frame_write_unlock (frame_set_lock t i l) i = t"
proof -
  have "upd_frame (tb_pool t) i (\<lambda>fr. fr\<lparr>fr_lock := rwlock_write_unlock l\<rparr>) = tb_pool t"
    using assms(2) by (intro upd_frame_id) (simp add: frame_lock_def)
  then show ?thesis using assms(1) by (simp add: frame_write_unlock_def frame_set_lock_def frame_lock_def)
qed

lemma frame_set_page_file [simp]: "frame_set_page (t\<lparr>tb_file := f\<rparr>) i p = (frame_set_page t i p)\<lparr>tb_file := f\<rparr>"
  by (simp add: frame_set_page_def)

lemma tb_file_set_lock [simp]: "tb_file (frame_set_lock t i l) = tb_file t"
  by (simp add: frame_set_lock_def)

lemma frame_flushed:
  assumes wf: "tb_wf t" and h: "tb_holds t i n p" and dirty: "fr_dirty (frames (tb_pool t) ! i)"
    and w: "page_write_disk p (tb_file t) = (r, p', f)"
  defines "t' \<equiv> (frame_set_page t i p')\<lparr>tb_file := f\<rparr>"
  shows "tb_wf t'" and "tb_rows t' = tb_rows t" and "meta t' = meta t" and "tb_quiet t \<Longrightarrow> tb_quiet t'"
proof -
  have inv: "pool_inv (tb_pool t) (fcontents (tb_file t))" and ok: "tb_ok t"
    using wf by (simp_all add: tb_wf_def tb_ok_def)
  have i: "i < 7" "fr_page (frames (tb_pool t) ! i) = Some p" using h by (simp_all add: tb_holds_def holds_def)
  have pool: "tb_pool t' = upd_frame (tb_pool t) i (\<lambda>fr. fr\<lparr>fr_page := Some p', fr_dirty := True\<rparr>)"
    using dirty by (auto simp: t'_def frame_set_page_def intro!: upd_frame_cong)
  note fw = frame_written [OF inv i w, of True]
  have lf: "locks_free (tb_pool t')"
    using ok unfolding pool by (intro locks_free_keep) (simp_all add: tb_ok_def)
  have ix: "index_ok t'" using ok by (simp add: t'_def frame_set_page_def tb_ok_def)
  have v: "pool_inv (tb_pool t') (fcontents (tb_file t'))" "tb_view t' = tb_view t"
    using fw dirty by (simp_all add: pool tb_view_def) (simp_all add: t'_def)
  show "meta t' = meta t" by (simp add: t'_def frame_set_page_def meta_def)
  then show "tb_wf t'" using tb_wf_same [OF wf _ v(2)] v(1) lf ix meta_fields(3) [of t' t] by (simp add: tb_ok_def)
  show "tb_rows t' = tb_rows t" by (simp add: tb_rows_def v(2) fun_eq_iff)
  show "tb_quiet t \<Longrightarrow> tb_quiet t'" using quiet_write_disk [OF _ w] by (simp add: t'_def tb_quiet_def)
qed

lemma flush_pages_law:
  assumes "tb_wf t" and "env_ok K e" and "tb_quiet t" and "works e"
  shows "\<exists>t'. flush_pages ps t e = Some (t', e) \<and> tb_wf t' \<and> tb_rows t' = tb_rows t \<and> meta t' = meta t \<and> tb_quiet t'"
  using assms
proof (induction ps arbitrary: t)
  case (Cons n ps)
  obtain r t1 e1 where pin: "tb_pin t e n = (r, t1, e1)" by (cases "tb_pin t e n") auto
  note p = tb_wf_pin [OF Cons.prems(1,2) pin] and q = works_pin [OF Cons.prems(4,3) pin]
  show ?case
  proof (cases r)
    case None
    then show ?thesis using Cons.IH [OF p(1) Cons.prems(2) q(2) Cons.prems(4)] by (simp add: pin q(1) p(2,3))
  next
    case (Some i)
    then obtain pg where h: "tb_holds t1 i n pg" using p(5) by auto
    note f = tb_holds_facts [OF tb_wf_ok [OF p(1)] h]
    have i: "i < length (frames (tb_pool t1))" using f by simp
    obtain l where l: "frame_write_lock t1 i = Some (frame_set_lock t1 i l)" "rwlock_write_unlock l = frame_lock t1 i"
      using frame_write_lock_free [OF f(6) i] by blast
    have d: "fr_dirty (frames (tb_pool (frame_set_lock t1 i l)) ! i) = fr_dirty (frames (tb_pool t1) ! i)"
      using i by (simp add: frame_set_lock_def)
    obtain t2 where t2: "flush_pages (n # ps) t e = flush_pages ps (tb_unpin t2 i) e" "tb_wf t2" "tb_rows t2 = tb_rows t1"
        "meta t2 = meta t1" "tb_quiet t2"
    proof (cases "fr_dirty (frames (tb_pool t1) ! i)")
      case True
      obtain r p' g where w: "page_write_disk pg (tb_file t1) = (r, p', g)" by (cases "page_write_disk pg (tb_file t1)") auto
      note ff = frame_flushed [OF p(1) h True w]
      have "flush_pages (n # ps) t e = flush_pages ps (tb_unpin ((frame_set_page t1 i p')\<lparr>tb_file := g\<rparr>) i) e"
        using Some True d w f(5) i
        by (simp add: pin q(1) l(1) frame_unlock(1) [OF i l(2)] buf_mark_clean_def Let_def)
      then show ?thesis using that ff(1-3) ff(4) [OF q(2)] by blast
    next
      case False
      have "flush_pages (n # ps) t e = flush_pages ps (tb_unpin t1 i) e"
        using Some False d by (simp add: pin q(1) l(1) frame_unlock_same [OF i l(2)])
      then show ?thesis using that p(1) q(2) by blast
    qed
    note u = tb_wf_unpin [OF t2(2) tb_holds_i [OF h]]
    obtain t3 where "flush_pages ps (tb_unpin t2 i) e = Some (t3, e)" "tb_wf t3" "tb_rows t3 = tb_rows (tb_unpin t2 i)"
        "meta t3 = meta (tb_unpin t2 i)" "tb_quiet t3"
      using Cons.IH [OF u(1) Cons.prems(2) _ Cons.prems(4)] t2(5) by auto
    then show ?thesis unfolding t2(1) by (simp add: t2(3,4) u(2,3) p(2,3))
  qed
qed simp

text \<open>What \<open>redo_insert\<close> does to the file of the table: the same as the insertion did.\<close>

lemma redo_insert_run:
  assumes w: "works e" and e: "env_ok K e" and st: "stored e name c" and room: "room_in c"
    and name: "str_at (rec_table r) = Some name"
    and len: "unat (rec_data_len r) \<le> 256" "length (rec_data r) = 256"
  shows "\<exists>e2 c'. redo_insert e r = Some (e2\<lparr>e_files := (e_files e2)(data_path e name \<mapsto> c')\<rparr>) \<and>
           works e2 \<and> env_ok K e2 \<and> file_added c (take (unat (rec_data_len r)) (rec_data r)) c'"
proof -
  let ?n = "unat (rec_data_len r)" and ?src = "take (unat (rec_data_len r)) (rec_data r)"
  obtain t e0 where op: "table_open e name = Some (Some t, e0)" "tb_wf t" "tb_quiet t" "works e0" "env_ok K e0"
      "tb_rows t = file_rows c" "tb_path t = data_path e name" "tb_page_count t = of_nat (length c div 4096)"
    using table_open_works [OF w e st] by blast
  obtain junk e1 where d: "draw_stack (WAL_MAX_DATA + 1) e0 = (junk, e1)" by fastforce
  note dr = draw_stack_ok [OF op(5) d] and w1 = works_stack [OF op(4) d]
  define buf where "buf = ?src @ 0 # drop (Suc ?n) junk"
  have src: "mem_read (rec_data r) 0 ?n = Some ?src" using len by (simp add: bslice_def)
  have buf: "(do { b \<leftarrow> mem_write junk 0 ?src; mem_write b ?n [0] }) = Some buf"
    using len dr(2) by (auto simp: mem_write_def blit_def buf_def)
  have row: "row_ok buf (rec_data_len r)" using len by (simp add: row_ok_def buf_def)
  have taken: "take ?n buf = ?src" using len by (simp add: buf_def)
  have "unat (tb_page_count t) < 2 ^ 32 - 1"
    using room by (simp add: op(8) room_in_def unat_of_nat)
  then have "tb_page_count t < -1" by (simp add: word_less_nat_alt unat_minus_one_u32)
  then obtain t' e2 n where ins: "table_insert_raw t e1 buf (rec_data_len r) = Some (TABLE_OK, t', e2)" "tb_wf t'"
      "tb_quiet t'" "works e2" "env_ok K e2" "row_added t ?src n t'" "tb_path t' = tb_path t"
    using insert_raw_works [OF op(2,3) w1 dr(1) row] unfolding taken by blast
  obtain t'' where fl: "table_flush t' e2 = Some (t'', e2)" "tb_wf t''" "tb_rows t'' = tb_rows t'" "meta t'' = meta t'"
      "tb_quiet t''"
    using flush_pages_law [OF ins(2,5,3,4), of "pids t'"] by (auto simp: table_flush_def)
  obtain c' where cl: "table_close t'' e2 = e2\<lparr>e_files := (e_files e2)(tb_path t'' \<mapsto> c')\<rparr>" "data_ok c'"
      "file_rows c' = tb_rows t''"
    using table_close_works [OF fl(2,5), of e2] by blast
  have "file_added c ?src c'"
    using cl(2,3) ins(6) by (auto simp: file_added_def row_added_def op(6) fl(3))
  moreover have "tb_path t'' = data_path e name" using meta_fields(2) [OF fl(4)] ins(7) op(7) by simp
  moreover have "redo_insert e r = Some (table_close t'' e2)"
    using buf ins(1) fl(1) d by (auto simp: redo_insert_def name op(1) src simp del: mem_write_Some split: Option.bind_splits)
  ultimately show ?thesis using cl(1) ins(4,5) by auto
qed

end
