(* ===== verification/Session.thy ===== *)
theory Session imports Restart ParserStmt begin

text \<open>
  From the text of a statement to the files, and what the next start of the program does to
  them.
\<close>

definition statement :: "stmt \<Rightarrow> Command" where
  "statement s = \<lparr>cmd_raw = render (stmt_tokens s), cmd_type = CMD_UNKNOWN, cmd_args = None\<rparr>"

lemma handle_sql_raw: "cmd_raw c = cmd_raw d \<Longrightarrow> handle_sql e c = handle_sql e d"
  by (simp add: handle_sql_def)

lemmas classify_simps =
  classify_def ltrim_def lit_def c_isspace_def SQL_KEYWORDS_def c_tolower_def c_isupper_def ch_def Let_def

lemmas statement_simps = statement_def render_def insert_head_def create_head_def tok_def tok_text_def

lemma classify_insert:
  "cmd_raw c = lit ''INSERT'' @ rest \<Longrightarrow> cmd_type (classify c) = CMD_SQL \<and> cmd_raw (classify c) = cmd_raw c"
  by (simp add: classify_simps)

lemma classify_create:
  "cmd_raw c = lit ''CREATE'' @ rest \<Longrightarrow> cmd_type (classify c) = CMD_SQL \<and> cmd_raw (classify c) = cmd_raw c"
  by (simp add: classify_simps)

lemma dispatch_sql:
  assumes "cmd_type (classify c) = CMD_SQL \<and> cmd_raw (classify c) = cmd_raw c"
  shows "dispatch e c = handle_sql e c"
  using assms handle_sql_raw [of "classify c" c e] by (simp add: dispatch_def Let_def)

lemma dispatch_insert: "dispatch e (statement (Insert t vs)) = handle_sql e (statement (Insert t vs))"
  by (rule dispatch_sql, rule classify_insert) (simp add: statement_simps)

lemma dispatch_create: "dispatch e (statement (CreateTable t cds)) = handle_sql e (statement (CreateTable t cds))"
  by (rule dispatch_sql, rule classify_create) (simp add: statement_simps)

lemma parse_statement: "stmt_ok s \<Longrightarrow> parse (cmd_raw (statement s)) = Some (PARSE_OK, stmt_intent s)"
  by (simp add: statement_def parse_reads)

lemma dispatch_insert_intent:
  assumes "stmt_ok (Insert t vs)"
  shows "dispatch e (statement (Insert t vs)) = map_option no_rows (sql_insert e (stmt_intent (Insert t vs)))"
  using parse_statement [OF assms] by (simp add: dispatch_insert handle_sql_def)

text \<open>Start-up: what is done to the tables is the redo of the log.\<close>

lemma works_mkdir:
  "works e \<Longrightarrow> \<exists>ds. snd (os_mkdir e path) = e\<lparr>e_dirs := ds\<rparr>"
  by (auto simp: os_mkdir_def intro: exI [of _ "e_dirs e"])

lemma subsystem_init_works:
  assumes "works e"
  shows "\<exists>ds. table_subsystem_init e = e\<lparr>e_dirs := ds\<rparr>"
proof -
  have same: "\<exists>ds. e = e\<lparr>e_dirs := ds\<rparr>" for e :: Env by (intro exI [of _ "e_dirs e"]) simp
  obtain ds where ds: "(if \<not> os_stat e (lit ''data'') then snd (os_mkdir e (lit ''data'')) else e) = e\<lparr>e_dirs := ds\<rparr>"
    using works_mkdir [OF assms, of "lit ''data''"] same [of e] by metis
  have w: "works (e\<lparr>e_dirs := ds\<rparr>)" using assms by simp
  show ?thesis unfolding table_subsystem_init_def ds Let_def
    using works_mkdir [OF w, of "take 127 (lit ''data/'' @ current_db (e\<lparr>e_dirs := ds\<rparr>))"] by auto
qed

definition saved_db :: "(cstr \<Rightarrow> bytes option) \<Rightarrow> cstr" where
  "saved_db files =
     (case files (lit ''data/.current_db'') of
        None \<Rightarrow> lit ''default''
      | Some s \<Rightarrow> (let line = fst (fgets 64 s) in if line = [] then lit ''default'' else chomp line))"

lemma restore_db_works:
  "works e \<Longrightarrow> current_db e = lit ''default'' \<Longrightarrow> restore_db e = e\<lparr>current_db := saved_db (e_files e)\<rparr>"
  by (auto simp: restore_db_def fopen_read_def saved_db_def Let_def split: option.splits)

definition log_file :: "(cstr \<Rightarrow> bytes option) \<Rightarrow> walrec list \<Rightarrow> bool" where
  "log_file files rs \<longleftrightarrow>
     files WAL_FILE = Some (concat rs) \<and> (\<forall>r \<in> set rs. valid_rec r) \<and> length rs \<le> 1024 \<and> commits rs \<le> 256"

lemma main_start_run:
  assumes w: "works e" and e: "env_ok any_core e" and lg: "log_file (e_files e) rs" "rs \<noteq> []"
  shows "\<exists>e1. works e1 \<and> env_ok any_core e1 \<and> e_files e1 = e_files e \<and> current_db e1 = saved_db (e_files e) \<and>
           (\<forall>e2. fold_opt redo_insert e1 (redo_set rs) = Some e2 \<longrightarrow>
              (\<exists>w f. main_start e = Some (Some (e2\<lparr>g_wal := Some w, g_wal_file := f\<rparr>)) \<and> log_ok f []))"
proof -
  obtain ds where ds: "table_subsystem_init (e\<lparr>current_db := lit ''default'', g_wal := None, txn_active := False,
      current_txn := 0\<rparr>) = e\<lparr>current_db := lit ''default'', g_wal := None, txn_active := False,
      current_txn := 0, e_dirs := ds\<rparr>" (is "_ = ?e")
    using subsystem_init_works [of "e\<lparr>current_db := lit ''default'', g_wal := None, txn_active := False,
      current_txn := 0\<rparr>"] w by auto
  have we: "works ?e" "env_ok any_core ?e" using w e by (simp_all add: env_ok_def any_core_def)
  obtain j1 e1 where d1: "draw_stack REC_SIZE ?e = (j1, e1)" by fastforce
  note k1 = draw_stack_ok [OF env_ok_core [OF we(2)] d1] and w1 = works_stack [OF we(1) d1]
  have "core e1 = core ?e" using k1(1) by (simp add: env_ok_def)
  note c1 = stored_core [OF this]
  have r: "restore_db e1 = e1\<lparr>current_db := saved_db (e_files e)\<rparr>"
    using restore_db_works [OF w1] c1(4,9) by simp
  have k1': "env_ok any_core (restore_db e1)" "works (restore_db e1)"
    using env_ok_any [OF k1(1)] w1 by (simp_all add: r env_ok_def any_core_def)
  obtain j2 e2 where d2: "draw_stack REC_SIZE (restore_db e1) = (j2, e2)" by fastforce
  note k2 = draw_stack_ok [OF env_ok_core [OF k1'(1)] d2] and w2 = works_stack [OF k1'(2) d2]
  have "core e2 = core (restore_db e1)" using k2(1) by (simp add: env_ok_def)
  note c2 = stored_core [OF this]
  let ?f = "\<lparr>fcontents = concat rs, foffset = 0, fsched = []\<rparr>"
  have files: "e_files e WAL_FILE = Some (concat rs)" and v: "\<forall>r \<in> set rs. valid_rec r" and n: "length rs \<le> 1024" "commits rs \<le> 256"
    using lg by (simp_all add: log_file_def)
  have op: "os_open True ?e WAL_FILE = (Some ?f, ?e)" using we(1) files by (simp add: os_open_def)
  have "read_all (?f\<lparr>foffset := 0\<rparr>) j1 = (rs, ?f\<lparr>foffset := length (concat rs)\<rparr>)"
    using read_all_log [of "?f\<lparr>foffset := 0\<rparr>" j1 "[]" rs "[]"] v k1(2) by (simp add: quiet_def)
  then have wo: "wal_open True True j1 ?f = (Some (foldl bump_lsn \<lparr>next_lsn = 1, next_txn = 1\<rparr> rs), ?f\<lparr>foffset := length (concat rs)\<rparr>)"
    by (simp add: wal_open_def quiet_def)
  let ?w = "foldl bump_lsn \<lparr>next_lsn = 1, next_txn = 1\<rparr> rs" and ?g = "?f\<lparr>foffset := length (concat rs)\<rparr>"
  have rec: "wal_recover redo_insert j2 (Some ?w) ?g e2 =
      map_option (\<lambda>s. (WAL_OK, Some (?w\<lparr>next_lsn := 1, next_txn := 1\<rparr>), ?g\<lparr>fcontents := [], foffset := 0\<rparr>, s))
        (fold_opt redo_insert e2 (redo_set rs))"
    using recover_run [of ?g rs "[]" j2 redo_insert ?w e2] v k2(2) n lg(2) by (simp add: quiet_def)
  have ms: "main_start e = (do { (_, wal, f, e) \<leftarrow> wal_recover redo_insert j2 (Some ?w) ?g e2;
      Some (Some (e\<lparr>g_wal := wal, g_wal_file := f\<rparr>)) })"
    using we(1) d2 by (simp add: main_start_def main_open_def ds op d1 [simplified] wo)
  show ?thesis
  proof (intro exI [of _ e2] conjI allI impI)
    show "works e2" "env_ok any_core e2" using w2 env_ok_any [OF k2(1)] by simp_all
    show "e_files e2 = e_files e" "current_db e2 = saved_db (e_files e)"
      using c2(4,9) c1(4) by (simp_all add: r)
    fix e3 assume "fold_opt redo_insert e2 (redo_set rs) = Some e3"
    then have "main_start e = Some (Some (e3\<lparr>g_wal := Some (?w\<lparr>next_lsn := 1, next_txn := 1\<rparr>),
        g_wal_file := ?g\<lparr>fcontents := [], foffset := 0\<rparr>\<rparr>))"
      unfolding ms rec by simp
    moreover have "log_ok (?g\<lparr>fcontents := [], foffset := 0\<rparr>) []" by (simp add: log_ok_def quiet_def)
    ultimately show "\<exists>w f. main_start e = Some (Some (e3\<lparr>g_wal := Some w, g_wal_file := f\<rparr>)) \<and> log_ok f []"
      by blast
  qed
qed

text \<open>A file to which a row was added has at most one page more.\<close>

lemma file_added_room:
  assumes "file_added c r c'" and "length c div 4096 < 2 ^ 32 - 2"
  shows "room_in c'"
proof (rule ccontr)
  let ?l = "length c div 4096" and ?l' = "length c' div 4096"
  assume "\<not> room_in c'"
  then have l': "?l' \<ge> 2 ^ 32 - 1" by (simp add: room_in_def)
  obtain n where n: "file_rows c' = (file_rows c)(n \<mapsto> (case file_rows c n of Some rs \<Rightarrow> rs | None \<Rightarrow> []) @ [Some r])"
    using assms(1) by (auto simp: file_added_def)
  have "m = n" if "?l \<le> unat m" "unat m < ?l'" for m :: u32
  proof (rule ccontr)
    assume "m \<noteq> n"
    then have "file_rows c' m = file_rows c m" by (simp add: n)
    then show False using that by (auto simp: file_rows_def block_def split: if_splits)
  qed
  moreover have "unat (of_nat ?l :: u32) = ?l" "unat (of_nat (Suc ?l) :: u32) = Suc ?l"
    using assms(2) by (simp_all add: unat_of_nat del: of_nat_Suc)
  ultimately have "of_nat ?l = n" "of_nat (Suc ?l) = n"
    using assms(2) l' by (simp_all del: of_nat_Suc)
  then show False using \<open>unat (of_nat ?l :: u32) = ?l\<close> \<open>unat (of_nat (Suc ?l) :: u32) = Suc ?l\<close> by simp
qed

text \<open>The paths of the program's own files are no data files.\<close>

lemma own_paths:
  assumes "db_ok e name"
  shows "data_path e name \<noteq> WAL_FILE" and "data_path e name \<noteq> lit ''data/.current_db''"
    and "schema_path e name \<noteq> WAL_FILE" and "data_path e name \<noteq> schema_path e name"
proof -
  have p: "data_path e name = lit ''data/'' @ current_db e @ lit ''/'' @ name @ lit ''.db''"
      "schema_path e name = lit ''data/'' @ current_db e @ lit ''/'' @ name @ lit ''.schema''"
    using assms unfolding db_ok_def data_path_def schema_path_def by (auto simp: lit_def)
  have ext: "rev (data_path e name) ! 2 = 46" "last (schema_path e name) = 97" "last (data_path e name) = 98"
    by (simp_all add: p lit_def rev_append)
  have own: "rev WAL_FILE ! 2 = 108" "last WAL_FILE = 103" "rev (lit ''data/.current_db'') ! 2 = 95"
    by (simp_all add: WAL_FILE_def lit_def)
  show "data_path e name \<noteq> WAL_FILE" using ext(3) own(2) by auto
  show "data_path e name \<noteq> lit ''data/.current_db''" using ext(1) own(3) by auto
  show "schema_path e name \<noteq> WAL_FILE" using ext(2) own(2) by auto
  show "data_path e name \<noteq> schema_path e name" using ext(2,3) by auto
qed

text \<open>An auto-committed insertion, then the end of the program and its next start.\<close>

lemma file_added_data_ok: "file_added c r c' \<Longrightarrow> data_ok c'"
  by (simp add: file_added_def)

lemma insert_redo_record:
  assumes "insert_records intent new" and "\<forall>r \<in> set new. valid_rec r"
    and "0 \<notin> set (it_table intent)" "length (it_table intent) \<le> 63" "length (row_text intent) < 256"
  shows "\<exists>r. redo_set new = [r] \<and> str_at (rec_table r) = Some (it_table intent) \<and>
           unat (rec_data_len r) \<le> 256 \<and> length (rec_data r) = 256 \<and>
           take (unat (rec_data_len r)) (rec_data r) = row_text intent"
proof -
  obtain r1 r2 r3 buffer where r: "new = [r1, r2, r3]" "rec_type r1 = WAL_BEGIN" "rec_type r3 = WAL_COMMIT"
      "rec_txn r1 = rec_txn r2" "rec_txn r3 = rec_txn r2" "take (length (row_text intent)) buffer = row_text intent" "length buffer = 256"
      and m: "rec_matches (LWrite (rec_txn r2) WAL_INSERT (it_table intent) (Some buffer)
                       (of_nat (length (row_text intent))) 0) r2"
    using assms(1) unfolding insert_records_def by (elim exE conjE)
  have u: "unat (of_nat (length (row_text intent)) :: u16) = length (row_text intent)"
    using assms(5) by (simp add: unat_of_nat)
  have "redo_set new = [r2]" using r(2,3,5) m by (simp add: redo_set_def r(1) wal_types)
  moreover have "rec_data r2 = row_text intent @ replicate (256 - length (row_text intent)) 0"
    using m assms(5) by (simp add: u r(6) Let_def)
  ultimately show ?thesis using m assms(4,5) by (intro exI [of _ r2]) (simp add: u)
qed

lemma main_end_files:
  assumes "ready e rs"
  shows "works (main_end e)" "env_ok any_core (main_end e)" "e_files (main_end e) = (e_files e)(WAL_FILE \<mapsto> concat rs)"
proof -
  obtain w where w: "g_wal e = Some w" "log_ok (g_wal_file e) rs" "works e" "env_ok any_core e"
    using assms by (auto simp: ready_def)
  have "fcontents (wal_close (g_wal e) (g_wal_file e)) = concat rs"
    using w(2) by (simp add: wal_close_def w(1) log_ok_def)
  then show "works (main_end e)" "env_ok any_core (main_end e)"
    "e_files (main_end e) = (e_files e)(WAL_FILE \<mapsto> concat rs)"
    using w(3,4) by (simp_all add: main_end_def os_close_def env_ok_def any_core_def works_def)
qed

lemma ready_valid: "ready e rs \<Longrightarrow> \<forall>r \<in> set rs. valid_rec r"
  by (simp add: ready_def log_ok_def)

lemma paths_same_db:
  assumes "current_db e' = current_db e"
  shows "data_path e' name = data_path e name" "schema_path e' name = schema_path e name"
  using assms by (simp_all add: data_path_def schema_path_def)

lemma restart_redo_run:
  assumes rdy: "ready e1 log" and red: "redo_set log = [r]"
    and r: "str_at (rec_table r) = Some name" "unat (rec_data_len r) \<le> 256" "length (rec_data r) = 256"
    and st: "stored e1 name c1" and db: "db_ok e1 name" and room: "room_in c1"
    and lim: "length log \<le> 1024" "commits log \<le> 256" and saved: "saved_db (e_files e1) = current_db e1"
  shows "\<exists>e2 c2. main_start (main_end e1) = Some (Some e2) \<and> e_files e2 (data_path e1 name) = Some c2 \<and>
           file_added c1 (take (unat (rec_data_len r)) (rec_data r)) c2"
proof -
  let ?path = "data_path e1 name"
  note own = own_paths [OF db] and fin = main_end_files [OF rdy]
  have lg: "log_file (e_files (main_end e1)) log" using lim ready_valid [OF rdy] by (simp add: log_file_def fin(3))
  have ne: "log \<noteq> []" using red by (auto simp: redo_set_def)
  have "saved_db (e_files (main_end e1)) = saved_db (e_files e1)" by (simp add: saved_db_def fin(3) WAL_FILE_def lit_def)
  then obtain e4 where e4: "works e4" "env_ok any_core e4" "e_files e4 = e_files (main_end e1)" "current_db e4 = current_db e1"
      "\<forall>e2. fold_opt redo_insert e4 (redo_set log) = Some e2 \<longrightarrow>
              (\<exists>w f. main_start (main_end e1) = Some (Some (e2\<lparr>g_wal := Some w, g_wal_file := f\<rparr>)) \<and> log_ok f [])"
    using main_start_run [OF fin(1,2) lg ne] saved by auto
  note same = paths_same_db [OF e4(4), of name]
  have "stored e4 name c1" using st own by (simp add: stored_def same e4(3) fin(3))
  then obtain e5 c2 where rd: "redo_insert e4 r = Some (e5\<lparr>e_files := (e_files e5)(data_path e4 name \<mapsto> c2)\<rparr>)"
      "file_added c1 (take (unat (rec_data_len r)) (rec_data r)) c2"
    using redo_insert_run [OF e4(1,2) _ room r] by auto
  then obtain w f where "main_start (main_end e1) =
      Some (Some (e5\<lparr>e_files := (e_files e5)(?path \<mapsto> c2), g_wal := Some w, g_wal_file := f\<rparr>))"
    using e4(5) by (auto simp: red same)
  then show ?thesis using rd(2) by auto
qed

lemma insert_restart_run:
  assumes rdy: "ready e []" and auto: "\<not> txn_active e" and ok: "insert_ok e intent c"
    and room: "length c div 4096 < 2 ^ 32 - 2" and db: "saved_db (e_files e) = current_db e"
  shows "\<exists>e1 e2 c1 c2. sql_insert e intent = Some (EXEC_SUCCESS, e1) \<and>
           e_files e1 (data_path e (it_table intent)) = Some c1 \<and> file_added c (row_text intent) c1 \<and>
           main_start (main_end e1) = Some (Some e2) \<and>
           e_files e2 (data_path e (it_table intent)) = Some c2 \<and> file_added c1 (row_text intent) c2"
proof -
  let ?name = "it_table intent"
  let ?path = "data_path e ?name"
  have o: "stored e ?name c" "db_ok e ?name" "0 \<notin> set ?name" "length (row_text intent) < 256" "length ?name \<le> 63"
    using ok by (simp_all add: insert_ok_def db_ok_def)
  note own = own_paths [OF o(2)]
  obtain e1 c1 new where i: "sql_insert e intent = Some (EXEC_SUCCESS, e1)" "e_files e1 = (e_files e)(?path \<mapsto> c1)"
      "file_added c (row_text intent) c1" "insert_records intent new" "ready e1 new" "current_db e1 = current_db e"
    using sql_insert_run [OF rdy auto ok] by auto
  obtain r where r: "redo_set new = [r]" "str_at (rec_table r) = Some ?name" "unat (rec_data_len r) \<le> 256"
      "length (rec_data r) = 256" "take (unat (rec_data_len r)) (rec_data r) = row_text intent"
    using insert_redo_record [OF i(4) ready_valid [OF i(5)] o(3,5,4)] by blast
  have n: "length new = 3" using i(4) by (auto simp: insert_records_def)
  have lim: "length new \<le> 1024" "commits new \<le> 256"
    using n length_filter_le [of "\<lambda>r. rec_type r = WAL_COMMIT" new] by (simp_all add: commits_def)
  note same = paths_same_db [OF i(6), of ?name]
  have st: "stored e1 ?name c1"
    using o(1) own file_added_data_ok [OF i(3)] by (simp add: stored_def same i(2))
  have db1: "db_ok e1 ?name" using o(2) by (simp add: db_ok_def i(6))
  have saved: "saved_db (e_files e1) = current_db e1" using db own(2) by (simp add: saved_db_def i(2,6))
  obtain e2 c2 where "main_start (main_end e1) = Some (Some e2)" "e_files e2 (data_path e1 ?name) = Some c2"
      "file_added c1 (row_text intent) c2"
    using restart_redo_run [OF i(5) r(1-4) st db1 file_added_room [OF i(3) room] lim saved] unfolding r(5) by blast
  then show ?thesis using i(1-3) by (auto simp: same)
qed

end
