(* ===== verification/Schema.thy ===== *)
theory Schema imports Session begin

text \<open>
  The schema file: what \<open>save_schema\<close> prints is what \<open>load_schema\<close> reads. With it,
  \<open>CREATE TABLE\<close> from the statement down to the files.
\<close>

lemma digit_of_nat: "n < 10 \<Longrightarrow> c_isdigit (of_nat (48 + n))" "n < 10 \<Longrightarrow> unat (of_nat (48 + n) :: u8) = 48 + n"
proof -
  assume "n < 10"
  then show u: "unat (of_nat (48 + n) :: u8) = 48 + n" by (simp add: unat_of_nat del: of_nat_add)
  show "c_isdigit (of_nat (48 + n))" using \<open>n < 10\<close> by (simp add: c_isdigit_def word_le_nat_alt u del: of_nat_add)
qed

lemma digits_value_append:
  "\<forall>c \<in> set ds. c_isdigit c \<Longrightarrow> digits_value (ds @ s) acc = digits_value s (digits_value ds acc)"
  by (induction ds arbitrary: acc) auto

lemma dec_digits_value:
  "(\<forall>c \<in> set (dec_digits n). c_isdigit c) \<and> dec_digits n \<noteq> [] \<and> digits_value (dec_digits n) 0 = n"
proof (induction n rule: dec_digits.induct)
  case (1 n)
  show ?case
  proof (cases "n < 10")
    case True
    then show ?thesis using digit_of_nat [OF True] by (subst dec_digits.simps, subst dec_digits.simps, subst dec_digits.simps) (simp del: of_nat_add)
  next
    case False
    have m: "n mod 10 < 10" by simp
    have d: "dec_digits n = dec_digits (n div 10) @ [of_nat (48 + n mod 10)]" using False by (subst dec_digits.simps) simp
    show ?thesis
      using 1 [OF False] digit_of_nat [OF m]
      by (simp add: d digits_value_append del: of_nat_add)
  qed
qed

lemma decimal_facts: "c_isdigit c \<Longrightarrow> \<not> c_isspace c \<and> c \<noteq> 45 \<and> c \<noteq> 43"
  by (auto simp: c_isdigit_def c_isspace_def word_le_nat_alt)

lemma scan_int_digits:
  assumes "n < 2 ^ 31"
  shows "scan_int (dec_digits n @ 10 # s) = Some (int n, 10 # s)"
proof -
  note v = dec_digits_value [of n]
  obtain d ds where d: "dec_digits n = d # ds" using v by (cases "dec_digits n") auto
  have dd: "c_isdigit d" using v d by auto
  note df = decimal_facts [OF dd]
  have ten: "\<not> c_isdigit 10" by (simp add: c_isdigit_def)
  have "digits_value (dec_digits n @ 10 # s) 0 = n" using v by (simp add: digits_value_append ten)
  then have st: "strtol (dec_digits n @ 10 # s) = int n" using df assms by (simp add: strtol_def d)
  have "atoi (dec_digits n @ 10 # s) = int n"
    unfolding atoi_def st using assms by (simp only: sint_sbintrunc' signed_of_int) (simp add: signed_take_bit_int_eq_self)
  moreover have "dropWhile c_isdigit (dec_digits n @ 10 # s) = 10 # s" using v ten by (simp add: dropWhile_append)
  ultimately show ?thesis using df dd by (simp add: scan_int_def d)
qed

text \<open>Words: what \<open>%63s\<close> reads in one piece.\<close>

definition scan_ok :: "cstr \<Rightarrow> bool" where
  "scan_ok w \<longleftrightarrow> w \<noteq> [] \<and> (\<forall>c \<in> set w. \<not> c_isspace c) \<and> length w < MAX_NAME_LEN"

lemma scan_word_ok:
  assumes "scan_ok w" and "c_isspace c"
  shows "scan_word (MAX_NAME_LEN - 1) (w @ c # s) = Some (w, c # s)"
proof -
  have d: "dropWhile c_isspace (w @ c # s) = w @ c # s" using assms(1) by (cases w) (auto simp: scan_ok_def)
  have l: "length w \<le> MAX_NAME_LEN - 1" using assms(1) by (simp add: scan_ok_def)
  have "takeWhile (\<lambda>c. \<not> c_isspace c) (take (MAX_NAME_LEN - 1) (w @ c # s)) = w"
  proof (cases "MAX_NAME_LEN - 1 - length w")
    case 0
    then show ?thesis using assms(1) l by (simp add: scan_ok_def takeWhile_eq_all_conv)
  next
    case (Suc k)
    then show ?thesis using assms l by (simp add: scan_ok_def takeWhile_append)
  qed
  then show ?thesis using assms(1) by (simp add: scan_word_def d scan_ok_def)
qed

definition col_text :: "ColumnDef \<Rightarrow> bytes" where
  "col_text cd = cd_name cd @ [32] @ cd_type cd @ [10]"

definition col_ok :: "ColumnDef \<Rightarrow> bool" where
  "col_ok cd \<longleftrightarrow> scan_ok (cd_name cd) \<and> scan_ok (cd_type cd)"

lemma blanks: "c_isspace 32" "c_isspace 10"
  by (simp_all add: c_isspace_def)

lemma col_text_starts:
  "\<forall>cd \<in> set cds. col_ok cd \<Longrightarrow> dropWhile c_isspace (concat (map col_text cds)) = concat (map col_text cds)"
  by (cases cds) (auto simp: col_text_def col_ok_def scan_ok_def neq_Nil_conv)

lemma load_columns_reads:
  assumes "\<forall>cd \<in> set cds. col_ok cd" and "length cols = 32" and "i + length cds \<le> 32"
  shows "load_columns i (length cds) (concat (map col_text cds)) cols =
           Some (take i cols @ cds @ drop (i + length cds) cols)"
  using assms
proof (induction cds arbitrary: i cols)
  case (Cons cd cds)
  let ?rest = "concat (map col_text cds)"
  have ok: "scan_ok (cd_name cd)" "scan_ok (cd_type cd)" using Cons.prems(1) by (simp_all add: col_ok_def)
  have upd: "x\<lparr>cd_name := cd_name cd, cd_type := cd_type cd\<rparr> = cd" for x :: ColumnDef by (cases x; cases cd) simp
  have sp: "scan_word (MAX_NAME_LEN - 1) (32 # cd_type cd @ 10 # ?rest) = Some (cd_type cd, 10 # ?rest)"
    using scan_word_ok [OF ok(2) blanks(2), of ?rest] by (simp add: scan_word_def blanks)
  have nm: "scan_word (MAX_NAME_LEN - 1) (concat (map col_text (cd # cds))) = Some (cd_name cd, 32 # cd_type cd @ 10 # ?rest)"
    using scan_word_ok [OF ok(1) blanks(1)] by (simp add: col_text_def)
  have i: "i < length cols" using Cons.prems(2,3) by simp
  have dw: "dropWhile c_isspace (10 # ?rest) = ?rest"
    using col_text_starts [of cds] Cons.prems(1) by (simp add: blanks)
  have "load_columns i (length (cd # cds)) (concat (map col_text (cd # cds))) cols =
      load_columns (Suc i) (length cds) ?rest (cols[i := cd])"
    using i dw by (simp add: nm [simplified] sp [simplified] Let_def upd)
  also have "\<dots> = Some (take (Suc i) (cols[i := cd]) @ cds @ drop (Suc i + length cds) (cols[i := cd]))"
    using Cons.IH [of "cols[i := cd]" "Suc i"] Cons.prems by simp
  also have "take (Suc i) (cols[i := cd]) = take i cols @ [cd]" using i by (simp add: take_Suc_conv_app_nth)
  finally show ?case by simp
qed simp

lemma schema_text_cols: "schema_text cols = dec_digits (length cols) @ 10 # concat (map col_text cols)"
  by (simp add: schema_text_def col_text_def [abs_def])

lemma schema_text_loads:
  assumes "\<forall>cd \<in> set cols. col_ok cd" and "length cols \<le> 32"
    and "e_files e (schema_path e name) = Some (schema_text cols)" and "draw_open e = (True, e2)"
  shows "load_schema e name = Some (Inr (cols @ replicate (32 - length cols) \<lparr>cd_name = [], cd_type = []\<rparr>, int (length cols)), e2)"
proof -
  have sc: "scan_int (schema_text cols) = Some (int (length cols), 10 # concat (map col_text cols))"
    using scan_int_digits [of "length cols"] assms(2) by (simp add: schema_text_cols)
  have "load_columns 0 (length cols) (concat (map col_text cols)) zero_columns =
      Some (cols @ replicate (32 - length cols) \<lparr>cd_name = [], cd_type = []\<rparr>)"
    using load_columns_reads [OF assms(1), of zero_columns 0] assms(2) by (simp add: zero_columns_def)
  moreover have "e_files e2 = e_files e" using assms(4) by (auto simp: draw_open_def split: list.splits)
  ultimately show ?thesis
    using assms(3,4) col_text_starts [OF assms(1)]
    by (simp add: load_schema_def fopen_read_def sc blanks)
qed

lemma schema_text_ok:
  assumes "length cols \<le> 32" shows "schema_ok (Some (schema_text cols))"
  using scan_int_digits [of "length cols"] assms by (simp add: schema_ok_def schema_text_cols)

lemma schema_roundtrip_run:
  assumes "\<forall>cd \<in> set cols. col_ok cd" and "length cols \<le> 32"
    and "save_schema e name cols = (True, e1)" and "draw_open e1 = (True, e2)"
  shows "load_schema e1 name =
           Some (Inr (cols @ replicate (32 - length cols) \<lparr>cd_name = [], cd_type = []\<rparr>, int (length cols)), e2)"
proof (rule schema_text_loads [OF assms(1,2) _ assms(4)])
  show "e_files e1 (schema_path e1 name) = Some (schema_text cols)"
    using assms(3) by (auto simp: save_schema_def write_text_def draw_open_def schema_path_def split: prod.splits if_splits list.splits)
qed

text \<open>\<open>CREATE TABLE\<close>: a table that is there, with one page and no rows.\<close>

definition new_table :: "Env \<Rightarrow> cstr \<Rightarrow> ColumnDef list \<Rightarrow> bytes \<Rightarrow> Env" where
  "new_table e name cols c =
     e\<lparr>e_files := (e_files e)(data_path e name \<mapsto> c, schema_path e name \<mapsto> schema_text cols,
         catalog_path e \<mapsto> (case e_files e (catalog_path e) of None \<Rightarrow> [] | Some x \<Rightarrow> x) @ name @ [10])\<rparr>"

lemma catalog_apart:
  assumes "db_ok e name" and "name \<noteq> lit ''catalog''"
  shows "catalog_path e \<noteq> data_path e name" and "catalog_path e \<noteq> schema_path e name"
proof -
  have p: "data_path e name = lit ''data/'' @ current_db e @ lit ''/'' @ name @ lit ''.db''"
      "schema_path e name = lit ''data/'' @ current_db e @ lit ''/'' @ name @ lit ''.schema''"
      "catalog_path e = lit ''data/'' @ current_db e @ lit ''/'' @ lit ''catalog'' @ lit ''.db''"
    using assms(1) unfolding db_ok_def data_path_def schema_path_def catalog_path_def by (auto simp: lit_def)
  show "catalog_path e \<noteq> data_path e name" using assms(2) by (simp add: p)
  have "last (catalog_path e) = 98" "last (schema_path e name) = 97" by (simp_all add: p lit_def)
  then show "catalog_path e \<noteq> schema_path e name" by auto
qed

lemma fresh_page_file:
  assumes "page_alloc True 0 = Some p"
  shows "data_ok (stamp p)" and "file_rows (stamp p) = [0 \<mapsto> []]"
proof -
  note al = page_alloc_wf [OF assms]
  have l: "length p = 4096" using al(1) by (simp add: page_wf_def core_wf_def)
  have b: "block (stamp p) (unat n) = (if n = 0 then Some (stamp p) else None)" for n :: u32
    using l by (auto simp: block_def bslice_def unat_eq_zero)
  show "data_ok (stamp p)" using al l by (simp add: data_ok_def b)
  show "file_rows (stamp p) = [0 \<mapsto> []]" using al by (simp add: file_rows_def b fun_eq_iff)
qed

lemma table_create_run:
  assumes w: "works e" and new: "\<not> table_exists e (it_table intent)" and db: "db_ok e (it_table intent)"
    and name: "it_table intent \<noteq> lit ''catalog''" and n: "length (it_columns intent) \<le> 32"
  shows "\<exists>c. table_create e intent = (TABLE_OK, new_table e (it_table intent) (it_columns intent) c) \<and>
           stored (new_table e (it_table intent) (it_columns intent) c) (it_table intent) c \<and>
           file_rows c = [0 \<mapsto> []] \<and> room_in c"
proof -
  let ?name = "it_table intent"
  obtain p where p: "page_alloc True 0 = Some p" by (simp add: page_alloc_def Let_def)
  note al = page_alloc_wf [OF p] and ff = fresh_page_file [OF p]
  have l: "length p = 4096" using al(1) by (simp add: page_wf_def core_wf_def)
  have own: "data_path e ?name \<noteq> schema_path e ?name" using own_paths(4) [OF db] .
  note cat = catalog_apart [OF db name]
  let ?f = "\<lparr>fcontents = [], foffset = 0, fsched = []\<rparr> :: osfile"
  have none: "e_files e (data_path e ?name) = None" using new by (simp add: table_exists_def os_stat_def)
  have wd: "page_write_disk p ?f = (PAGE_OK, stamp p, ?f\<lparr>fcontents := stamp p, foffset := 4096\<rparr>)"
    using page_write_disk_quiet [of p ?f] al l by (simp add: quiet_def file_put_def)
  have "table_create e intent = (TABLE_OK, new_table e ?name (it_columns intent) (stamp p))"
    using w new none cat
    by (simp add: table_create_def os_open_def p wd Let_def os_close_def save_schema_def write_text_def catalog_add_def
        append_text_def new_table_def data_path_def schema_path_def catalog_path_def)
  moreover have "stored (new_table e ?name (it_columns intent) (stamp p)) ?name (stamp p)"
    using own cat ff(1) schema_text_ok [OF n] by (simp add: stored_def new_table_def data_path_def schema_path_def catalog_path_def)
  moreover have "room_in (stamp p)" using l by (simp add: room_in_def)
  ultimately show ?thesis using ff(2) by blast
qed

end
