(* ===== verification/SessionWitness.thy ===== *)
theory SessionWitness imports Schema begin

text \<open>
  The promises about whole statements, each with a concrete session at which it applies: a
  database with one empty table of two columns.
\<close>

definition demo_page :: bytes where
  "demo_page = (case page_alloc True 0 of None \<Rightarrow> [] | Some p \<Rightarrow> stamp p)"

definition demo_cols :: "ColumnDef list" where
  "demo_cols = [\<lparr>cd_name = lit ''id'', cd_type = lit ''INT''\<rparr>, \<lparr>cd_name = lit ''name'', cd_type = lit ''TEXT''\<rparr>]"

definition demo :: Env where
  "demo = \<lparr>
     e_files = [lit ''data/default/t.db'' \<mapsto> demo_page, lit ''data/default/t.schema'' \<mapsto> schema_text demo_cols,
                lit ''data/default/catalog.db'' \<mapsto> lit ''t'' @ [10]],
     e_dirs = [lit ''data/default'', lit ''data''], e_open = [], e_io = [], e_mem = [],
     e_heap = \<lparr>brk = 0, avail = None\<rparr>, e_stack = [], current_db = lit ''default'',
     g_wal = Some \<lparr>next_lsn = 1, next_txn = 1\<rparr>, g_wal_file = \<lparr>fcontents = [], foffset = 0, fsched = []\<rparr>,
     txn_active = False, current_txn = 0\<rparr>"

definition demo_values :: "Token list" where
  "demo_values = [\<lparr>tk_type = TOKEN_NUMBER, tk_value = lit ''1''\<rparr>, \<lparr>tk_type = TOKEN_STRING, tk_value = lit ''ann''\<rparr>]"

lemma demo_data: "data_ok demo_page" "file_rows demo_page = [0 \<mapsto> []]" and demo_length: "length demo_page = 4096"
proof -
  obtain p where p: "page_alloc True 0 = Some p" by (simp add: page_alloc_def Let_def)
  note al = page_alloc_wf [OF p]
  have c: "demo_page = stamp p" by (simp add: demo_page_def p)
  have l: "length p = 4096" using al(1) by (simp add: page_wf_def core_wf_def)
  show "length demo_page = 4096" using l by (simp add: c)
  show "data_ok demo_page" "file_rows demo_page = [0 \<mapsto> []]" using fresh_page_file [OF p] by (simp_all add: c)
qed

lemma demo_ready: "ready demo []"
  by (simp add: ready_def works_def demo_def env_ok_def any_core_def log_ok_def quiet_def)

lemma demo_paths:
  "data_path demo name = take 255 (lit ''data/default/'' @ name @ lit ''.db'')"
  "schema_path demo name = take 255 (lit ''data/default/'' @ name @ lit ''.schema'')"
  by (simp_all add: data_path_def schema_path_def demo_def lit_def)

lemma demo_stored: "stored demo (lit ''t'') demo_page"
  using demo_data(1) schema_text_ok [of demo_cols]
  by (simp add: stored_def demo_paths) (simp add: demo_def lit_def demo_cols_def)

lemma demo_word:
  "c_isalpha c \<Longrightarrow> \<forall>d \<in> set w. word_char d \<Longrightarrow> length w < 63 \<Longrightarrow> classify_word (c # w) = TOKEN_IDENT \<Longrightarrow> name_ok (c # w)"
  by (simp add: name_ok_def ident_def token_ok_def word_ok_def)

lemmas char_simps = char_class_defs c_toupper_def c_tolower_def word_char_def ch_def

lemma demo_names:
  "name_ok (lit ''t'')" "name_ok (lit ''u'')" "name_ok (lit ''id'')" "name_ok (lit ''name'')" "name_ok (lit ''INT'')"
  "name_ok (lit ''TEXT'')"
  unfolding lit_def
  by (simp_all add: demo_word char_simps classify_word_def KEYWORDS_def lit_def strcasecmp_eq_def)

lemma demo_stmt_ok: "stmt_ok (Insert (lit ''t'') demo_values)"
  using demo_names(1)
  by (simp add: demo_values_def value_ok_def is_value_def token_ok_def) (simp add: lit_def char_simps)

lemma demo_insert_ok: "insert_ok demo (stmt_intent (Insert (lit ''t'') demo_values)) demo_page"
  using demo_stored demo_length
  by (simp add: insert_ok_def room_in_def db_ok_def row_text_def value_at_def demo_values_def zero_intent_def)
    (simp add: demo_def lit_def)

text \<open>What an insertion stores: the first two values.\<close>

fun two_values :: "Token list \<Rightarrow> bytes" where
  "two_values [] = [ch CHR ''|'']"
| "two_values [v] = tk_value v @ [ch CHR ''|'']"
| "two_values (v # w # vs) = tk_value v @ [ch CHR ''|''] @ tk_value w"

lemma row_text_values: "row_text (stmt_intent (Insert t vs)) = two_values vs"
  by (cases vs rule: two_values.cases) (simp_all add: row_text_def value_at_def zero_intent_def)

lemma insert_table [simp]: "it_table (stmt_intent (Insert t vs)) = t"
  by (simp add: zero_intent_def)

text \<open>
  C1: from the text of an \<open>INSERT\<close> to the disk, outside a transaction and when no call fails:
  the data file of the table gets exactly one more row, behind the rows of one page, no other
  file changes, the log gets the three records of a transaction, and the program is ready for
  the next statement. The row is the first two values with a bar between them: a third and
  every later value of the statement is dropped without a message.
\<close>

theorem insert_statement:
  assumes "ready e rs" and "\<not> txn_active e" and "stmt_ok (Insert t vs)"
    and "insert_ok e (stmt_intent (Insert t vs)) c"
  shows "\<exists>e' c' new. dispatch e (statement (Insert t vs)) = Some (EXEC_SUCCESS, [], e') \<and>
           e_files e' = (e_files e)(data_path e t \<mapsto> c') \<and> file_added c (two_values vs) c' \<and>
           insert_records (stmt_intent (Insert t vs)) new \<and> ready e' (rs @ new) \<and> \<not> txn_active e'"
proof -
  obtain e' c' new where "sql_insert e (stmt_intent (Insert t vs)) = Some (EXEC_SUCCESS, e')"
      "e_files e' = (e_files e)(data_path e t \<mapsto> c')" "file_added c (two_values vs) c'"
      "insert_records (stmt_intent (Insert t vs)) new" "ready e' (rs @ new)" "\<not> txn_active e'"
    using sql_insert_run [OF assms(1,2,4)] unfolding row_text_values insert_table by blast
  then show ?thesis using dispatch_insert_intent [OF assms(3), of e] by (auto simp: no_rows_def simp del: stmt_intent.simps)
qed

theorem insert_statement_witness:
  "\<exists>e' c' new. dispatch demo (statement (Insert (lit ''t'') demo_values)) = Some (EXEC_SUCCESS, [], e') \<and>
     e_files e' = (e_files demo)(data_path demo (lit ''t'') \<mapsto> c') \<and> file_added demo_page (two_values demo_values) c' \<and>
     insert_records (stmt_intent (Insert (lit ''t'') demo_values)) new \<and> ready e' ([] @ new) \<and> \<not> txn_active e'"
  by (rule insert_statement [OF demo_ready _ demo_stmt_ok demo_insert_ok]) (simp add: demo_def)

text \<open>
  C8: a committed row is stored again at every restart. After an \<open>INSERT\<close> outside a
  transaction the row is in the data file and the log is not cleared; ending the program and
  starting it again redoes the insertion, on the file that has the row already. (From an empty
  log, and with the database that the next start restores being the current one.)
\<close>

theorem restart_duplicates_row:
  assumes "ready e []" and "\<not> txn_active e" and "stmt_ok (Insert t vs)"
    and "insert_ok e (stmt_intent (Insert t vs)) c" and "length c div PAGE_SIZE < 2 ^ 32 - 2"
    and "saved_db (e_files e) = current_db e"
  shows "\<exists>e1 e2 c1 c2. dispatch e (statement (Insert t vs)) = Some (EXEC_SUCCESS, [], e1) \<and>
           e_files e1 (data_path e t) = Some c1 \<and> file_added c (two_values vs) c1 \<and>
           main_start (main_end e1) = Some (Some e2) \<and>
           e_files e2 (data_path e t) = Some c2 \<and> file_added c1 (two_values vs) c2"
proof -
  have "length c div 4096 < 2 ^ 32 - 2" using assms(5) by simp
  then obtain e1 e2 c1 c2 where "sql_insert e (stmt_intent (Insert t vs)) = Some (EXEC_SUCCESS, e1)"
      "e_files e1 (data_path e t) = Some c1" "file_added c (two_values vs) c1"
      "main_start (main_end e1) = Some (Some e2)" "e_files e2 (data_path e t) = Some c2"
      "file_added c1 (two_values vs) c2"
    using insert_restart_run [OF assms(1,2,4) _ assms(6)] unfolding row_text_values insert_table by blast
  then show ?thesis using dispatch_insert_intent [OF assms(3), of e] by (auto simp: no_rows_def simp del: stmt_intent.simps)
qed

theorem restart_duplicates_row_witness:
  "\<exists>e1 e2 c1 c2. dispatch demo (statement (Insert (lit ''t'') demo_values)) = Some (EXEC_SUCCESS, [], e1) \<and>
     e_files e1 (data_path demo (lit ''t'')) = Some c1 \<and> file_added demo_page (two_values demo_values) c1 \<and>
     main_start (main_end e1) = Some (Some e2) \<and>
     e_files e2 (data_path demo (lit ''t'')) = Some c2 \<and> file_added c1 (two_values demo_values) c2"
  by (rule restart_duplicates_row [OF demo_ready _ demo_stmt_ok demo_insert_ok])
    (simp_all add: demo_length, simp_all add: demo_def saved_db_def lit_def)

text \<open>
  C13: \<open>CREATE TABLE\<close> from its text to the disk, when no call fails: a data file with one page
  and no rows, a schema file from which \<open>table_open\<close> reads, and one more line in the catalog.
  No other file changes, and the table can be inserted into. (Of a table named \<open>catalog\<close> the
  data file would be the catalog itself.)
\<close>

theorem create_table_statement:
  assumes "works e" and "stmt_ok (CreateTable t cds)" and "\<not> table_exists e t" and "db_ok e t"
    and "t \<noteq> lit ''catalog''"
  shows "\<exists>c. let cols = map (\<lambda>(n, ty). \<lparr>cd_name = n, cd_type = ty\<rparr>) cds; e' = new_table e t cols c in
           dispatch e (statement (CreateTable t cds)) = Some (EXEC_SUCCESS, [], e') \<and>
           stored e' t c \<and> file_rows c = [0 \<mapsto> []] \<and> room_in c \<and>
           (if list_all col_ok cols
            then load_schema e' t =
                   Some (Inr (cols @ replicate (MAX_COLUMNS - length cols) \<lparr>cd_name = [], cd_type = []\<rparr>, int (length cols)), e')
            else True)"
proof -
  let ?cols = "map (\<lambda>(n, ty). \<lparr>cd_name = n, cd_type = ty\<rparr>) cds" and ?i = "stmt_intent (CreateTable t cds)"
  have i: "it_table ?i = t" "it_columns ?i = ?cols" "it_type ?i = INTENT_CREATE_TABLE" by (simp_all add: zero_intent_def)
  have n: "length (it_columns ?i) \<le> 32" using assms(2) by simp
  obtain c where c: "table_create e ?i = (TABLE_OK, new_table e t ?cols c)" "stored (new_table e t ?cols c) t c"
      "file_rows c = [0 \<mapsto> []]" "room_in c"
    using table_create_run [of e ?i] assms(1,3,4,5) n unfolding i by blast
  have d: "dispatch e (statement (CreateTable t cds)) = Some (EXEC_SUCCESS, [], new_table e t ?cols c)"
    using parse_statement [OF assms(2)] c(1) i(3) by (simp add: dispatch_create handle_sql_def del: stmt_intent.simps)
  have "load_schema (new_table e t ?cols c) t =
      Some (Inr (?cols @ replicate (32 - length ?cols) \<lparr>cd_name = [], cd_type = []\<rparr>, int (length ?cols)), new_table e t ?cols c)"
    if "list_all col_ok ?cols"
  proof (rule schema_text_loads)
    show "\<forall>cd \<in> set ?cols. col_ok cd" using that by (simp only: list_all_iff)
    show "length ?cols \<le> 32" using n by (simp only: i(2))
    show "e_files (new_table e t ?cols c) (schema_path (new_table e t ?cols c) t) = Some (schema_text ?cols)"
      using catalog_apart [OF assms(4,5)] by (simp add: new_table_def schema_path_def)
    show "draw_open (new_table e t ?cols c) = (True, new_table e t ?cols c)" using assms(1) by (simp add: new_table_def)
  qed
  then show ?thesis using c(2-4) d by (intro exI [of _ c]) (simp add: Let_def)
qed

theorem create_table_statement_witness:
  "\<exists>c. let cols = map (\<lambda>(n, ty). \<lparr>cd_name = n, cd_type = ty\<rparr>) [(lit ''id'', lit ''INT''), (lit ''name'', lit ''TEXT'')];
           e' = new_table demo (lit ''u'') cols c in
     dispatch demo (statement (CreateTable (lit ''u'') [(lit ''id'', lit ''INT''), (lit ''name'', lit ''TEXT'')])) =
       Some (EXEC_SUCCESS, [], e') \<and>
     stored e' (lit ''u'') c \<and> file_rows c = [0 \<mapsto> []] \<and> room_in c \<and>
     (if list_all col_ok cols
      then load_schema e' (lit ''u'') =
             Some (Inr (cols @ replicate (MAX_COLUMNS - length cols) \<lparr>cd_name = [], cd_type = []\<rparr>, int (length cols)), e')
      else True)"
proof (rule create_table_statement)
  show "works demo" using demo_ready by (simp add: ready_def)
  show "stmt_ok (CreateTable (lit ''u'') [(lit ''id'', lit ''INT''), (lit ''name'', lit ''TEXT'')])"
    by (simp add: demo_names)
  show "\<not> table_exists demo (lit ''u'')"
    by (simp add: table_exists_def os_stat_def demo_paths) (simp add: demo_def lit_def)
  show "db_ok demo (lit ''u'')" by (simp add: db_ok_def demo_def lit_def)
  show "lit ''u'' \<noteq> lit ''catalog''" by (simp add: lit_def)
qed

text \<open>
  The schema of a table survives its file: at most 32 columns whose names and types are
  words of at most 63 characters are read back by \<open>load_schema\<close> as \<open>save_schema\<close> was given
  them, with the right count, and the unused entries stay empty.
\<close>

theorem schema_roundtrip:
  assumes "\<forall>cd \<in> set cols. col_ok cd" and "length cols \<le> MAX_COLUMNS"
    and "save_schema e name cols = (True, e1)" and "draw_open e1 = (True, e2)"
  shows "load_schema e1 name =
           Some (Inr (cols @ replicate (MAX_COLUMNS - length cols) \<lparr>cd_name = [], cd_type = []\<rparr>, int (length cols)), e2)"
  using schema_roundtrip_run [OF assms(1) _ assms(3,4)] assms(2) by simp

theorem schema_roundtrip_witness:
  "load_schema (snd (save_schema demo (lit ''v'') demo_cols)) (lit ''v'') =
     Some (Inr (demo_cols @ replicate (MAX_COLUMNS - length demo_cols) \<lparr>cd_name = [], cd_type = []\<rparr>, int (length demo_cols)),
       snd (save_schema demo (lit ''v'') demo_cols))"
  by (rule schema_roundtrip [where e = demo])
    (auto simp: demo_cols_def col_ok_def scan_ok_def lit_def c_isspace_def save_schema_def write_text_def draw_open_def demo_def)

text \<open>
  C5: an insertion into an open table under every schedule of failing reads, writes, seeks and
  syncs of the data file and of failing page allocations: it returns, the table stays well formed,
  and either it reports success and one page has exactly the new row behind the rows it had, or it
  reports an error and the rows of the table are the ones from before. The row has at most 4050
  bytes and its buffer a zero byte, and the page count is not at its largest value. Three more things are
  assumed: there is memory for the nodes of the index (behind a failed one the code follows a null
  pointer), the uninitialised arrays the key is cut out of end in a zero byte, and the locks
  of the frames are free, as they are between the operations of a single thread (part of \<open>tb_wf\<close>),
  so that no lock call fails.
\<close>

theorem table_insert_raw_correct:
  assumes "tb_wf t" and "env_ok K e" and "row_ok row len" and "tb_page_count t < -1"
  shows "\<exists>r t' e'. table_insert_raw t e row len = Some (r, t', e') \<and> tb_wf t' \<and> env_ok K e' \<and>
           insert_result t (take (unat len) row) r t'"
  using assms by (rule table_insert_raw_run)

definition demo_table :: Table where
  "demo_table = \<lparr>tb_name = lit ''t'', tb_path = lit ''data/default/t.db'',
     tb_file = \<lparr>fcontents = demo_page, foffset = 0, fsched = [IoErr, IoShort 7]\<rparr>, tb_pool = buf_init,
     tb_index = None, tb_page_count = 1, tb_col_defs = demo_cols, tb_col_count = 2, tb_index_col = 0\<rparr>"

lemma demo_table_wf: "tb_wf demo_table"
  by (rule fresh_table(1) [of "tb_file demo_table"]) (simp_all add: demo_table_def demo_data demo_length index_ok_def)

theorem table_insert_raw_correct_witness:
  "\<exists>r t' e'. table_insert_raw demo_table demo (lit ''1|ann'' @ [0]) 5 = Some (r, t', e') \<and> tb_wf t' \<and>
     env_ok any_core e' \<and> insert_result demo_table (take (unat (5 :: u16)) (lit ''1|ann'' @ [0])) r t'"
  by (rule table_insert_raw_correct [OF demo_table_wf])
    (simp add: env_ok_def any_core_def demo_def, simp add: row_ok_def lit_def, simp add: demo_table_def word_less_nat_alt unat_minus_one_u32)

end
