(* ===== verification/TableWitness.thy ===== *)
theory TableWitness imports TableUpdate SessionWitness PageWitness begin

text \<open>
  The promises of the statements on an open table, with concrete tables at which they apply.
\<close>

definition put_row :: "page \<Rightarrow> bytes \<Rightarrow> page" where
  "put_row p r = (case page_insert p r (of_nat (length r)) of Some (p', _, _) \<Rightarrow> p' | None \<Rightarrow> p)"

lemma put_row_law:
  assumes "page_wf p" and "has_room p (of_nat (length r))" and "length r < 4096"
  shows "page_wf (put_row p r)" "rows (put_row p r) = rows p @ [Some r]" "hdr_page_id (put_row p r) = hdr_page_id p"
    "hdr_slot_count (put_row p r) = hdr_slot_count p + 1"
    "unat (hdr_free_end (put_row p r)) = unat (hdr_free_end p) - length r"
proof -
  have u: "unat (of_nat (length r) :: u16) = length r" using assms(3) by (simp add: unat_of_nat)
  obtain p' where p': "page_insert p r (of_nat (length r)) = Some (p', PAGE_OK, Some (hdr_slot_count p))" "page_wf p'"
      "rows p' = rows p @ [Some r]" "hdr_page_id p' = hdr_page_id p" "hdr_slot_count p' = hdr_slot_count p + 1"
      "unat (hdr_free_end p') = unat (hdr_free_end p) - length r"
    using page_insert_law [OF assms(1), of "of_nat (length r)" r] assms(2,3) by (auto simp: u)
  have e: "put_row p r = p'" by (simp add: put_row_def p'(1))
  show "page_wf (put_row p r)" "rows (put_row p r) = rows p @ [Some r]" "hdr_page_id (put_row p r) = hdr_page_id p"
    "hdr_slot_count (put_row p r) = hdr_slot_count p + 1"
    "unat (hdr_free_end (put_row p r)) = unat (hdr_free_end p) - length r"
    using p' by (simp_all add: e)
qed

text \<open>A table whose only page is \<open>p\<close>.\<close>

definition page_table :: "page \<Rightarrow> Table" where
  "page_table p = demo_table\<lparr>tb_file := \<lparr>fcontents = stamp p, foffset = 0, fsched = []\<rparr>\<rparr>"

lemma page_table_wf:
  assumes "page_wf p" and "hdr_page_id p = 0"
  shows "tb_wf (page_table p)" "tb_quiet (page_table p)" "tb_rows (page_table p) = [0 \<mapsto> rows p]"
    "all_rows (page_table p) = rows p" "tb_view (page_table p) 0 = Some (stamp p)"
proof -
  have l: "length p = 4096" by (rule length_page_wf [OF assms(1)])
  have b: "block (stamp p) (unat n) = (if n = 0 then Some (stamp p) else None)" for n :: u32
    using l by (auto simp: block_def bslice_def unat_eq_zero)
  have d: "data_ok (stamp p)" using assms l by (simp add: data_ok_def b)
  note f = fresh_table [of "tb_file (page_table p)" "page_table p"]
  show "tb_wf (page_table p)" using d l by (intro f(1)) (simp_all add: page_table_def demo_table_def index_ok_def)
  have r: "tb_rows (page_table p) = file_rows (stamp p)"
    using f(2) d l by (simp add: page_table_def demo_table_def index_ok_def)
  then show rows: "tb_rows (page_table p) = [0 \<mapsto> rows p]" using assms(1) by (simp add: file_rows_def b fun_eq_iff)
  have "view buf_init (stamp p) 0 = block (stamp p) (unat (0 :: u32))"
    by (rule buf_init_inv(2)) (use d in \<open>auto simp: data_ok_def\<close>)
  then show "tb_view (page_table p) 0 = Some (stamp p)"
    using b [of 0] by (simp add: tb_view_def page_table_def demo_table_def)
  show "tb_quiet (page_table p)" by (simp add: tb_quiet_def quiet_def page_table_def)
  show "all_rows (page_table p) = rows p"
    by (simp add: all_rows_def rows_on_def rows) (simp add: pids_def page_table_def demo_table_def rows)
qed

definition two_rows :: page where
  "two_rows = put_row (put_row (blank 0) (lit ''1|alexander'')) (lit ''2|bo'')"

lemma two_rows_page: "page_wf two_rows" "rows two_rows = [Some (lit ''1|alexander''), Some (lit ''2|bo'')]" "hdr_page_id two_rows = 0"
proof -
  have r1: "has_room (blank 0) (of_nat (length (lit ''1|alexander'')))" by (rule blank_room) (simp add: lit_def)
  have l: "length (lit ''1|alexander'') < 4096" "length (lit ''2|bo'') < 4096" by (simp_all add: lit_def)
  note a = put_row_law [OF blank_wf(1) r1 l(1)]
  have r2: "has_room (put_row (blank 0) (lit ''1|alexander'')) (of_nat (length (lit ''2|bo'')))"
    by (simp add: has_room_def a(4,5) slot_addr_def) (simp add: lit_def)
  note b = put_row_law [OF a(1) r2 l(2)]
  show "page_wf two_rows" "rows two_rows = [Some (lit ''1|alexander''), Some (lit ''2|bo'')]" "hdr_page_id two_rows = 0"
    using a b by (simp_all add: two_rows_def)
qed

lemma demo_works: "works demo" "env_ok any_core demo"
  using demo_ready by (simp_all add: ready_def)

definition select_all :: Intent where "select_all = stmt_intent (Select None (lit ''t'') None)"

lemma select_all_inactive: "\<not> wh_active (it_where select_all)"
  by (simp add: select_all_def zero_intent_def)

text \<open>
  what a full scan shows is the reference reading of the rows: when no call fails, \<open>SELECT\<close>
  without a condition goes once over the rows of all pages in order and shows of each row the
  non-empty pieces between the bars, read from a row buffer that still holds, behind the row,
  what earlier rows or the stack left there. The table stays as it is.
\<close>

theorem table_scan_shows_rows:
  assumes "tb_wf t" and "tb_quiet t" and "works e" and "env_ok any_core e"
    and "\<not> wh_active (it_where intent)" and "draw_stack PAGE_SIZE e = (buf, e1)"
  shows "\<exists>t' e'. table_scan t e intent = Some (shown buf (all_rows t), t', e') \<and>
           tb_wf t' \<and> tb_rows t' = tb_rows t \<and> works e'"
  using table_scan_run [OF assms] by blast

theorem table_scan_shows_rows_witness:
  "\<exists>t' e'. table_scan (page_table two_rows) demo select_all =
             Some (shown (replicate 4096 0) (all_rows (page_table two_rows)), t', e') \<and>
           tb_wf t' \<and> tb_rows t' = tb_rows (page_table two_rows) \<and> works e'"
  by (rule table_scan_shows_rows [OF page_table_wf(1,2) [OF two_rows_page(1,3)] demo_works select_all_inactive])
    (simp add: draw_stack_def demo_def)

lemma shown_stale:
  assumes "0 \<notin> set r" and "0 \<notin> set r'" and "length r' < length r" and "length r < 4096"
  shows "shown (replicate 4096 0) [Some r, Some r'] = [pieces bar r, pieces bar (r' @ drop (length r') r)]"
proof -
  obtain k where k: "replicate (4096 - length r) 0 = (0 :: u8) # replicate k 0"
    using assms(4) by (cases "4096 - length r") auto
  have t: "text_of (s @ 0 # z) = s" if "0 \<notin> set s" for s z using that by (induction s) (simp_all add: text_of_def)
  have 1: "over (replicate 4096 0) r = r @ 0 # replicate k 0" by (simp add: over_def k)
  have 2: "over (r @ 0 # replicate k 0) r' = (r' @ drop (length r') r) @ 0 # replicate k 0"
    using assms(3) by (simp add: over_def)
  have "0 \<notin> set (r' @ drop (length r') r)" using assms(1,2) by (auto dest: in_set_dropD)
  note t2 = t [OF this]
  show ?thesis by (simp only: shown.simps 1 2 t [OF assms(1)] t2)
qed

text \<open>
  C30: a shorter row is shown with the end of the longer row before it: \<open>INSERT\<close> stores rows
  without a terminator and \<open>page_read\<close> copies just their bytes, so the text of the earlier
  row stays behind them in the buffer and is printed as part of the last field.
\<close>

theorem scan_shows_stale_text:
  assumes "tb_wf t" and "tb_quiet t" and "works e" and "env_ok any_core e"
    and "\<not> wh_active (it_where intent)" and "e_stack e = []" and "all_rows t = [Some r, Some r']"
    and "0 \<notin> set r" and "0 \<notin> set r'" and "length r' < length r" and "length r < PAGE_SIZE"
  shows "\<exists>t' e'. table_scan t e intent = Some ([pieces bar r, pieces bar (r' @ drop (length r') r)], t', e')"
proof -
  have d: "draw_stack PAGE_SIZE e = (replicate 4096 0, e)" using assms(6) by (simp add: draw_stack_def)
  have "length r < 4096" using assms(11) by simp
  then show ?thesis
    using table_scan_run [OF assms(1-5) d] shown_stale [OF assms(8-10)] assms(7) by auto
qed

theorem scan_shows_stale_text_witness:
  "\<exists>t' e'. table_scan (page_table two_rows) demo select_all =
     Some ([[lit ''1'', lit ''alexander''], [lit ''2'', lit ''boexander'']], t', e')"
proof -
  let ?r = "lit ''1|alexander''" and ?r' = "lit ''2|bo''"
  have "\<exists>t' e'. table_scan (page_table two_rows) demo select_all =
      Some ([pieces bar ?r, pieces bar (?r' @ drop (length ?r') ?r)], t', e')"
    by (rule scan_shows_stale_text [OF page_table_wf(1,2) [OF two_rows_page(1,3)] demo_works select_all_inactive])
      (simp_all add: page_table_wf(4) two_rows_page, simp_all add: demo_def lit_def)
  moreover have "pieces bar ?r = [lit ''1'', lit ''alexander'']"
    "pieces bar (?r' @ drop (length ?r') ?r) = [lit ''2'', lit ''boexander'']"
    by (simp_all add: pieces.simps lit_def ch_def)
  ultimately show ?thesis by simp
qed

text \<open>
  \<open>DELETE\<close> without a condition empties the table when no call fails: it reports success and
  the number of rows there were, every row of every page is dead, the slots stay used, and the
  table is well formed.
\<close>

theorem table_delete_all:
  assumes "tb_wf t" and "tb_quiet t" and "works e" and "env_ok any_core e" and "\<not> wh_active (it_where intent)"
  shows "\<exists>t' e'. table_delete t e intent = Some (TABLE_OK, live_count (all_rows t), t', e') \<and>
           tb_wf t' \<and> works e' \<and> tb_rows t' = (\<lambda>n. map_option erased (tb_rows t n))"
  using table_delete_run [OF log_closed_any assms] by blast

definition delete_all :: Intent where "delete_all = stmt_intent (Delete (lit ''t'') None)"

theorem table_delete_all_witness:
  "\<exists>t' e'. table_delete (page_table two_rows) demo delete_all =
             Some (TABLE_OK, live_count (all_rows (page_table two_rows)), t', e') \<and>
           tb_wf t' \<and> works e' \<and> tb_rows t' = (\<lambda>n. map_option erased (tb_rows (page_table two_rows) n))"
  by (rule table_delete_all [OF page_table_wf(1,2) [OF two_rows_page(1,3)] demo_works])
    (simp add: delete_all_def zero_intent_def)

text \<open>
  C23: what \<open>UPDATE\<close> without a condition does to one row that it reaches, when no call fails, the
  column exists and the new row has at most 4050 bytes. With room on the page
  the old slot dies and a new slot holds the row with the field replaced, terminated, and the
  row counts as updated. Without room the old row is deleted all the same, nothing is inserted,
  the row is not counted and the statement goes on. What that means depends on the frame, which
  is not marked dirty here: if it was dirty already, by an earlier row of the statement for
  instance, the table is a well-formed one without the row, which is lost. If it was clean, the
  row is gone from the cached page only, and closing the table leaves the very environment,
  with the very file, that it would have left without the update.
\<close>

theorem update_row_or_lose_it:
  assumes "tb_wf t" and "tb_holds t i n p" and "works e" and "env_ok any_core e" and "buf_ok buf"
    and "\<not> wh_active (it_where intent)" and "pick p s = Some r"
    and "find_col (\<lambda>cd. cd_name cd = sc_column (it_set intent)) t = Some c"
    and "new = updated c (sc_value (it_set intent)) (over buf r)" and "length new \<le> 4050"
  shows "if has_room p (of_nat (length new))
         then \<exists>t' e'. update_slots intent n i [s] t e buf k = Some (t', e', over buf r, k + 1) \<and> tb_wf t' \<and>
                tb_rows t' = (tb_rows t)(n \<mapsto> without s (rows p) @ [Some new])
         else if fr_dirty (frames (tb_pool t) ! i)
         then \<exists>t' e'. update_slots intent n i [s] t e buf k = Some (t', e', over buf r, k) \<and> tb_wf t' \<and>
                tb_rows t' = (tb_rows t)(n \<mapsto> without s (rows p))
         else \<exists>t' e' p'. update_slots intent n i [s] t e buf k = Some (t', e', over buf r, k) \<and>
                frame_page t' i = Some p' \<and> page_wf p' \<and> rows p' = without s (rows p) \<and>
                (\<forall>x. table_close t' x = table_close t x)"
proof -
  have i: "i < length (frames (tb_pool t))"
    using tb_holds_facts(4,7) [OF tb_wf_ok [OF assms(1)] assms(2)] by simp
  note u = update_slot_law [OF assms(1,2) log_closed_any assms(3-10), of "[]" k]
  show ?thesis
  proof (cases "has_room p (of_nat (length new))")
    case True
    obtain t' e' p' where "update_slots intent n i [s] t e buf k = Some (t', e', over buf r, k + 1)" "tb_wf t'"
        "rows p' = without s (rows p) @ [Some new]" "tb_rows t' = (tb_rows t)(n \<mapsto> rows p')"
      using u unfolding if_P [OF True] update_slots.simps(1) by blast
    then show ?thesis unfolding if_P [OF True] by auto
  next
    case False
    obtain p' e' where r: "update_slots intent n i [s] t e buf k = Some (frame_set_page t i p', e', over buf r, k)"
        "page_wf p'" "hdr_page_id p' = n" "rows p' = without s (rows p)"
      using u unfolding if_not_P [OF False] update_slots.simps(1) by blast
    show ?thesis
    proof (cases "fr_dirty (frames (tb_pool t) ! i)")
      case True
      note ch = tb_wf_changed(1,2) [OF assms(1,2) r(2,3), unfolded frame_set_dirty [OF True i] r(4)]
      show ?thesis unfolding if_not_P [OF False] if_P [OF True] using r(1) ch by blast
    next
      case clean: False
      have "frame_page (frame_set_page t i p') i = Some p'"
        using i by (simp add: frame_page_def frame_set_page_def upd_frame_def)
      then show ?thesis
        unfolding if_not_P [OF False] if_not_P [OF clean] using r table_close_clean [OF assms(1,2) clean] by blast
    qed
  qed
qed

text \<open>A page that one row fills to the last byte, and an update that makes the row shorter.\<close>

definition long_row :: bytes where "long_row = lit ''1|'' @ replicate 4048 97"

definition full_page :: page where "full_page = put_row (blank 0) long_row"

lemma long_row_length: "length long_row = 4050" "0 \<notin> set long_row"
  by (simp_all add: long_row_def lit_def)

lemma full_page_facts: "page_wf full_page" "rows full_page = [Some long_row]" "hdr_page_id full_page = 0"
  "\<not> has_room full_page len"
proof -
  have r: "has_room (blank 0) (of_nat (length long_row))" by (rule blank_room) (simp add: long_row_length)
  have l: "length long_row < 4096" by (simp add: long_row_length)
  note a = put_row_law [OF blank_wf(1) r l]
  show "page_wf full_page" "rows full_page = [Some long_row]" "hdr_page_id full_page = 0" using a by (simp_all add: full_page_def)
  show "\<not> has_room full_page len" using a(4,5) by (simp add: full_page_def has_room_def slot_addr_def long_row_length)
qed

definition set_name :: Intent where
  "set_name = stmt_intent (Update (lit ''t'') (lit ''name'') \<lparr>tk_type = TOKEN_STRING, tk_value = lit ''b''\<rparr> None)"

lemma set_name_facts:
  "\<not> wh_active (it_where set_name)" "sc_column (it_set set_name) = lit ''name''" "sc_value (it_set set_name) = lit ''b''"
  by (simp_all add: set_name_def zero_intent_def)

lemma long_row_updated: "updated 1 (lit ''b'') (over (replicate 4096 0) long_row) = lit ''1|b'' @ [0]"
proof -
  have o: "over (replicate 4096 0) long_row = long_row @ 0 # replicate 45 0"
    by (simp add: over_def long_row_length flip: replicate_Suc)
  have t: "text_of (s @ 0 # z) = s" if "0 \<notin> set s" for s z using that by (induction s) (simp_all add: text_of_def)
  have "text_of (over (replicate 4096 0) long_row) = long_row" unfolding o by (rule t [OF long_row_length(2)])
  moreover have "pieces bar long_row = [lit ''1'', replicate 4048 97]"
  proof -
    have b: "dropWhile (\<lambda>c. c = bar) (replicate 4048 97) = replicate 4048 97"
      "takeWhile (\<lambda>c. c \<noteq> bar) (replicate 4048 97) = replicate 4048 97"
      "dropWhile (\<lambda>c. c \<noteq> bar) (replicate 4048 97) = []"
      by (simp_all add: ch_def)
    have n: "replicate 4048 97 = (97 :: u8) # replicate 4047 97" by (simp flip: replicate_Suc)
    have "pieces bar (bar # replicate 4048 97) = [replicate 4048 97]"
      using b n by (subst pieces.simps) (simp add: pieces.simps [of "124" "[]"] ch_def)
    then show ?thesis by (subst pieces.simps) (simp add: long_row_def lit_def ch_def)
  qed
  ultimately show ?thesis by (simp add: updated_def lit_def ch_def)
qed

lemma one_row_fills:
  assumes "page_wf p" and "rows p = [Some r]" and "length r = 4050"
  shows "\<not> has_room p len"
proof -
  note core = page_wf_core [OF assms(1)]
  have c: "unat (hdr_slot_count p) = 1" using assms(2) length_rows [of p] by simp
  then have sl: "slots_of p = [slot_at p 0]" by (simp add: slots_of_def)
  have row: "row_of p (slot_at p 0) = Some r" using assms(2) by (simp add: rows_def sl)
  note s = core_slot [OF core, of 0]
  have "length r = unat (s_length (slot_at p 0))"
    using row s(3) core_bounds(1) [OF core] c by (auto simp: row_of_def split: if_splits)
  moreover have "stacked 4096 [slot_at p 0] (unat (hdr_free_end p))" using core by (simp add: core_wf_def sl)
  ultimately have "unat (hdr_free_end p) = 46" using assms(3) by simp
  then show ?thesis by (simp add: has_room_def c slot_addr_def)
qed

lemma pin_empty_clean:
  assumes "tb_pin (page_table p) demo 0 = (Some i, t, e)"
  shows "\<not> fr_dirty (frames (tb_pool t) ! i)"
proof -
  have "take_slot buf_init f = (Some 0, buf_init, f)" "find_frame buf_init 0 = None" for f
    by (simp_all add: take_slot_def find_empty_def find_frame_def buf_init_def numeral_eq_Suc)
  then show ?thesis
    using assms
    by (auto simp: tb_pin_def buf_pin_def Let_def page_table_def demo_table_def upd_frame_def buf_init_def
        split: prod.splits option.splits if_splits)
qed

text \<open>The row of a full page, in a clean and in a dirty frame.\<close>

theorem update_row_or_lose_it_witness:
  "\<exists>t i p. tb_holds t i 0 p \<and> rows p = [Some long_row] \<and>
     (\<exists>t' e' p'. update_slots set_name 0 i [0] t demo (replicate 4096 0) 0 =
          Some (t', e', over (replicate 4096 0) long_row, 0) \<and>
        frame_page t' i = Some p' \<and> rows p' = [None] \<and> table_close t' demo = table_close t demo) \<and>
     (\<exists>t' e'. update_slots set_name 0 i [0] (tb_mark_dirty t i) demo (replicate 4096 0) 0 =
          Some (t', e', over (replicate 4096 0) long_row, 0) \<and> tb_rows t' 0 = Some [None])"
proof -
  have n: "0 < tb_page_count (page_table full_page)" by (simp add: page_table_def demo_table_def)
  note w = page_table_wf [OF full_page_facts(1,3)]
  obtain i p t where t: "tb_pin (page_table full_page) demo 0 = (Some i, t, demo)" "tb_holds t i 0 p" "tb_wf t"
      "tb_rows t = tb_rows (page_table full_page)" "meta t = meta (page_table full_page)"
    using pin_works [OF w(1,2) demo_works n] by blast
  have rows: "rows p = [Some long_row]" using tb_wf_page(2) [OF t(3,2)] by (simp add: t(4) w(3) full_page_facts)
  note pw = tb_wf_page(1,3) [OF t(3,2)]
  note clean = pin_empty_clean [OF t(1)]
  have full: "\<not> has_room p (of_nat (length (lit ''1|b'' @ [0])))"
    by (rule one_row_fills [OF pw(1) rows long_row_length(1)])
  have pk: "pick p 0 = Some long_row" by (simp add: pick_def rows)
  have b: "buf_ok (replicate 4096 0)" by (simp add: buf_ok_def ends0_def)
  have l: "length (lit ''1|b'' @ [0]) \<le> 4050" by (simp add: lit_def)
  have col: "find_col (\<lambda>cd. cd_name cd = sc_column (it_set set_name)) u = Some 1" if "meta u = meta t" for u
    using meta_fields(8) [OF that] meta_fields(8) [OF t(5)]
    by (simp add: set_name_facts page_table_def demo_table_def find_col_def demo_cols_def lit_def)
  let ?d = "tb_mark_dirty (frame_set_page t i p) i"
  have same: "frame_set_page t i p = t"
    using tb_holds_facts(5) [OF tb_wf_ok [OF t(3)] t(2)]
    by (simp add: frame_set_page_def frame_page_def upd_frame_id)
  have i: "i < length (frames (tb_pool t))" using tb_holds_facts(4,7) [OF tb_wf_ok [OF t(3)] t(2)] by simp
  have pid: "hdr_page_id p = 0" using tb_holds_facts(3) [OF tb_wf_ok [OF t(3)] t(2)] .
  note d = tb_wf_changed [OF t(3,2) pw(1) pid, unfolded same]
  have dirty: "fr_dirty (frames (tb_pool (tb_mark_dirty t i)) ! i)"
    using i by (simp add: tb_mark_dirty_def buf_mark_dirty_def upd_frame_def)
  have "\<exists>t' e' p'. update_slots set_name 0 i [0] t demo (replicate 4096 0) 0 =
          Some (t', e', over (replicate 4096 0) long_row, 0) \<and>
        frame_page t' i = Some p' \<and> rows p' = [None] \<and> table_close t' demo = table_close t demo"
    using update_row_or_lose_it [OF t(3,2) demo_works b set_name_facts(1) pk col [OF refl] _ l, where k = 0] full clean
    unfolding set_name_facts(3) long_row_updated rows without_def by auto
  moreover have "\<exists>t' e'. update_slots set_name 0 i [0] (tb_mark_dirty t i) demo (replicate 4096 0) 0 =
          Some (t', e', over (replicate 4096 0) long_row, 0) \<and> tb_rows t' 0 = Some [None]"
    using update_row_or_lose_it [OF d(1,4) demo_works b set_name_facts(1) pk col [OF d(3)] _ l, where k = 0] full dirty
    unfolding set_name_facts(3) long_row_updated rows without_def by auto
  ultimately show ?thesis using t(2) rows by blast
qed

text \<open>
  C21: \<open>UPDATE\<close> without a condition on a table whose pages have room for the new rows, when no call
  fails: it reports success and the number of rows; on every page the old slots die and
  behind them stand the new rows, each the pieces between the bars of the old row, as the row
  buffer shows it, with one field replaced and a terminator added. A row that is written by
  the update is not visited again.
\<close>

theorem table_update_all:
  assumes "tb_wf t" and "tb_quiet t" and "works e" and "env_ok any_core e"
    and "\<not> wh_active (it_where intent)" and "draw_stack PAGE_SIZE e = (buf, e1)"
    and "find_col (\<lambda>cd. cd_name cd = sc_column (it_set intent)) t = Some c"
    and "news = page_news c (sc_value (it_set intent)) buf (map (rows_at t) (pids t))"
    and "pages_fit t (pids t) news"
  shows "\<exists>t' e'. table_update t e intent = Some (TABLE_OK, length (concat news), t', e') \<and> tb_wf t' \<and>
           map (rows_at t') (pids t) = map2 replaced (map (rows_at t) (pids t)) news"
  using table_update_run [OF log_closed_any assms] by blast

text \<open>A page with one row, which an update makes shorter.\<close>

definition ann_page :: page where "ann_page = put_row (blank 0) (lit ''1|ann'')"

lemma ann_page_facts:
  "page_wf ann_page" "rows ann_page = [Some (lit ''1|ann'')]" "hdr_page_id ann_page = 0"
  "unat (hdr_slot_count ann_page) = 1" "unat (hdr_free_end ann_page) = 4091"
proof -
  have r: "has_room (blank 0) (of_nat (length (lit ''1|ann'')))" by (rule blank_room) (simp add: lit_def)
  have l: "length (lit ''1|ann'') < 4096" by (simp add: lit_def)
  note a = put_row_law [OF blank_wf(1) r l]
  show "page_wf ann_page" "rows ann_page = [Some (lit ''1|ann'')]" "hdr_page_id ann_page = 0"
    "unat (hdr_slot_count ann_page) = 1" "unat (hdr_free_end ann_page) = 4091"
    using a by (simp_all add: ann_page_def) (simp add: lit_def)
qed

lemma ann_updated: "updated 1 (lit ''b'') (over (replicate 4096 0) (lit ''1|ann'')) = lit ''1|b'' @ [0]"
proof -
  have o: "over (replicate 4096 0) (lit ''1|ann'') = lit ''1|ann'' @ 0 # replicate 4090 0"
    by (simp add: over_def lit_def flip: replicate_Suc)
  have "text_of (over (replicate 4096 0) (lit ''1|ann'')) = lit ''1|ann''"
    unfolding o by (simp add: text_of_def lit_def)
  moreover have "pieces bar (lit ''1|ann'') = [lit ''1'', lit ''ann'']" by (simp add: pieces.simps lit_def ch_def)
  ultimately show ?thesis by (simp add: updated_def lit_def ch_def)
qed

theorem table_update_all_witness:
  "\<exists>t' e'. table_update (page_table ann_page) demo set_name = Some (TABLE_OK, 1, t', e') \<and> tb_wf t' \<and>
     map (rows_at t') [0] = [[None, Some (lit ''1|b'' @ [0])]]"
proof -
  let ?t = "page_table ann_page"
  note w = page_table_wf [OF ann_page_facts(1,3)]
  have p: "pids ?t = [0]" by (simp add: pids_def page_table_def demo_table_def)
  have ra: "rows_at ?t 0 = [Some (lit ''1|ann'')]" by (simp add: rows_at_def w(3) ann_page_facts(2))
  have news: "[[lit ''1|b'' @ [0]]] = page_news 1 (sc_value (it_set set_name)) (replicate 4096 0) (map (rows_at ?t) (pids ?t))"
    by (simp add: p ra set_name_facts ann_updated [unfolded One_nat_def])
  have fr: "free_at ?t 0 = 4091"
    using length_page_wf [OF ann_page_facts(1)] by (simp add: free_at_def w(5) ann_page_facts(5))
  have fit: "pages_fit ?t (pids ?t) [[lit ''1|b'' @ [0]]]"
    by (simp add: pages_fit_def p ra fr slot_addr_def) (simp add: lit_def)
  have col: "find_col (\<lambda>cd. cd_name cd = sc_column (it_set set_name)) ?t = Some 1"
    by (simp add: set_name_facts page_table_def demo_table_def find_col_def demo_cols_def lit_def)
  have d: "draw_stack PAGE_SIZE demo = (replicate 4096 0, demo)" by (simp add: draw_stack_def demo_def)
  show ?thesis
    using table_update_all [OF w(1,2) demo_works set_name_facts(1) d col news fit]
    by (simp add: p ra replaced_def erased_def)
qed

end
