(* ===== verification/Transaction.thy ===== *)
theory Transaction imports SessionWitness begin

text \<open>
  Transactions of several statements: \<open>BEGIN\<close> and \<open>COMMIT\<close> from their text to the log, and what
  happens to a transaction that was not committed.
\<close>

lemma dispatch_begin: "dispatch e (statement Begin) = Some (no_rows (sql_begin e))"
proof -
  have "dispatch e (statement Begin) = handle_sql e (statement Begin)"
    by (rule dispatch_sql) (simp add: statement_simps classify_simps)
  then show ?thesis using parse_statement [of Begin] by (simp add: handle_sql_def zero_intent_def)
qed

lemma dispatch_commit: "dispatch e (statement Commit) = Some (no_rows (sql_commit e))"
proof -
  have "dispatch e (statement Commit) = handle_sql e (statement Commit)"
    by (rule dispatch_sql) (simp add: statement_simps classify_simps)
  then show ?thesis using parse_statement [of Commit] by (simp add: handle_sql_def zero_intent_def)
qed

lemma begin_run:
  assumes "ready e rs"
  shows "\<exists>e1 r w f txn. dispatch e (statement Begin) = Some (EXEC_SUCCESS, [], e1) \<and>
           e1 = e\<lparr>g_wal := Some w, g_wal_file := f, current_txn := txn, txn_active := True\<rparr> \<and>
           ready e1 (rs @ [r]) \<and> rec_type r = WAL_BEGIN \<and> rec_txn r = txn"
proof -
  obtain w where w: "works e" "env_ok any_core e" "g_wal e = Some w" "log_ok (g_wal_file e) rs"
    using assms by (auto simp: ready_def)
  obtain f r where b: "wal_begin (Some w) (g_wal_file e) =
        (WAL_OK, Some (next_txn w), Some \<lparr>next_lsn = next_lsn w + 1, next_txn = next_txn w + 1\<rparr>, f)"
      "log_ok f (rs @ [r])" "rec_txn r = next_txn w" "rec_type r = WAL_BEGIN"
    using wal_begin_log [OF w(4), of w] by blast
  have "dispatch e (statement Begin) = Some (EXEC_SUCCESS, [],
      e\<lparr>g_wal := Some \<lparr>next_lsn = next_lsn w + 1, next_txn = next_txn w + 1\<rparr>, g_wal_file := f,
        current_txn := next_txn w, txn_active := True\<rparr>)"
    by (simp add: dispatch_begin sql_begin_def no_rows_def w(3) b(1))
  moreover have "ready (e\<lparr>g_wal := Some \<lparr>next_lsn = next_lsn w + 1, next_txn = next_txn w + 1\<rparr>, g_wal_file := f,
      current_txn := next_txn w, txn_active := True\<rparr>) (rs @ [r])"
    using w(1,2) b(2) by (simp add: ready_def env_ok_def any_core_def works_def)
  ultimately show ?thesis using b(3,4) by blast
qed

lemma commit_run:
  assumes "ready e rs"
  shows "\<exists>e1 r w f. dispatch e (statement Commit) = Some (EXEC_SUCCESS, [], e1) \<and>
           e1 = e\<lparr>g_wal := Some w, g_wal_file := f, txn_active := False\<rparr> \<and>
           ready e1 (rs @ [r]) \<and> rec_type r = WAL_COMMIT \<and> rec_txn r = current_txn e"
proof -
  obtain w where w: "works e" "env_ok any_core e" "g_wal e = Some w" "log_ok (g_wal_file e) rs"
    using assms by (auto simp: ready_def)
  obtain f r where c: "wal_commit (Some w) (g_wal_file e) (current_txn e) =
        (WAL_OK, Some (w\<lparr>next_lsn := next_lsn w + 1\<rparr>), f)"
      "log_ok f (rs @ [r])" "rec_txn r = current_txn e" "rec_type r = WAL_COMMIT"
    using wal_commit_log [OF w(4), of w "current_txn e"] by blast
  have "dispatch e (statement Commit) = Some (EXEC_SUCCESS, [],
      e\<lparr>g_wal := Some (w\<lparr>next_lsn := next_lsn w + 1\<rparr>), g_wal_file := f, txn_active := False\<rparr>)"
    by (simp add: dispatch_commit sql_commit_def no_rows_def w(3) c(1))
  moreover have "ready (e\<lparr>g_wal := Some (w\<lparr>next_lsn := next_lsn w + 1\<rparr>), g_wal_file := f, txn_active := False\<rparr>) (rs @ [r])"
    using w(1,2) c(2) by (simp add: ready_def env_ok_def any_core_def works_def)
  ultimately show ?thesis using c(3,4) by blast
qed

lemma begun_insert_ok:
  assumes "e1 = e\<lparr>g_wal := w, g_wal_file := f, current_txn := txn, txn_active := True\<rparr>"
    and "insert_ok e (stmt_intent (Insert t vs)) c"
  shows "insert_ok e1 (stmt_intent (Insert t vs)) c" and "data_path e1 t = data_path e t" and "txn_active e1"
proof -
  show p: "data_path e1 t = data_path e t" "txn_active e1" by (simp_all add: assms(1) data_path_def)
  have "schema_path e1 t = schema_path e t" by (simp add: assms(1) schema_path_def)
  then show "insert_ok e1 (stmt_intent (Insert t vs)) c"
    using assms(2) p unfolding insert_ok_def insert_table stored_def db_ok_def by (simp add: assms(1))
qed

text \<open>An insertion in an open transaction: the row is in the file, one record in the log.\<close>

lemma insert_in_txn:
  assumes rdy: "ready e rs" and open_txn: "txn_active e" and st: "stmt_ok (Insert t vs)"
    and ok: "insert_ok e (stmt_intent (Insert t vs)) c"
  shows "\<exists>e' c' r buffer. dispatch e (statement (Insert t vs)) = Some (EXEC_SUCCESS, [], e') \<and>
           e_files e' = (e_files e)(data_path e t \<mapsto> c') \<and> file_added c (two_values vs) c' \<and>
           rec_matches (LWrite (current_txn e) WAL_INSERT t (Some buffer) (of_nat (length (two_values vs))) 0) r \<and>
           take (length (two_values vs)) buffer = two_values vs \<and> length buffer = 256 \<and>
           ready e' (rs @ [r]) \<and> txn_active e' \<and> current_txn e' = current_txn e \<and> current_db e' = current_db e"
proof -
  obtain e' c' r buffer where li: "logged_insert e (stmt_intent (Insert t vs)) (current_txn e) = Some (True, e')"
      "e_files e' = (e_files e)(data_path e t \<mapsto> c')" "file_added c (two_values vs) c'"
      "rec_matches (LWrite (current_txn e) WAL_INSERT t (Some buffer) (of_nat (length (two_values vs))) 0) r"
      "take (length (two_values vs)) buffer = two_values vs" "length buffer = 256"
      "ready e' (rs @ [r])" "txn_active e'" "current_txn e' = current_txn e" "current_db e' = current_db e"
    using logged_insert_run [OF rdy ok, of "current_txn e"] open_txn unfolding row_text_values insert_table by auto
  have "sql_insert e (stmt_intent (Insert t vs)) = Some (EXEC_SUCCESS, e')"
    using open_txn by (simp add: sql_insert_def li(1) del: stmt_intent.simps)
  then have "dispatch e (statement (Insert t vs)) = Some (EXEC_SUCCESS, [], e')"
    by (simp add: dispatch_insert_intent [OF st] no_rows_def del: stmt_intent.simps)
  then show ?thesis using li(2-10) by blast
qed

text \<open>
  C15: \<open>BEGIN\<close>, one \<open>INSERT\<close> and \<open>COMMIT\<close>, from their texts to the disk, when no call fails: the log
  gets the same three records of one transaction as for an \<open>INSERT\<close> on its own, the data file
  gets exactly the row, and no transaction is open afterwards.
\<close>

theorem transaction_statements:
  assumes "ready e rs" and "stmt_ok (Insert t vs)" and "insert_ok e (stmt_intent (Insert t vs)) c"
  shows "\<exists>e1 e2 e3 c' new. dispatch e (statement Begin) = Some (EXEC_SUCCESS, [], e1) \<and>
           dispatch e1 (statement (Insert t vs)) = Some (EXEC_SUCCESS, [], e2) \<and>
           dispatch e2 (statement Commit) = Some (EXEC_SUCCESS, [], e3) \<and>
           e_files e3 = (e_files e)(data_path e t \<mapsto> c') \<and> file_added c (two_values vs) c' \<and>
           insert_records (stmt_intent (Insert t vs)) new \<and> ready e3 (rs @ new) \<and> \<not> txn_active e3"
proof -
  obtain e1 r1 w f txn where b: "dispatch e (statement Begin) = Some (EXEC_SUCCESS, [], e1)"
      "e1 = e\<lparr>g_wal := Some w, g_wal_file := f, current_txn := txn, txn_active := True\<rparr>"
      "ready e1 (rs @ [r1])" "rec_type r1 = WAL_BEGIN" "rec_txn r1 = current_txn e1"
    using begin_run [OF assms(1)] by fastforce
  note begun = begun_insert_ok [OF b(2) assms(3)]
  obtain e2 c' r2 buffer where i: "dispatch e1 (statement (Insert t vs)) = Some (EXEC_SUCCESS, [], e2)"
      "e_files e2 = (e_files e1)(data_path e1 t \<mapsto> c')" "file_added c (two_values vs) c'"
      "rec_matches (LWrite (current_txn e1) WAL_INSERT t (Some buffer) (of_nat (length (two_values vs))) 0) r2"
      "take (length (two_values vs)) buffer = two_values vs" "length buffer = 256"
      "ready e2 ((rs @ [r1]) @ [r2])" "current_txn e2 = current_txn e1"
    using insert_in_txn [OF b(3) begun(3) assms(2) begun(1)] by (elim exE conjE)
  obtain e3 r3 w' f' where m: "dispatch e2 (statement Commit) = Some (EXEC_SUCCESS, [], e3)"
      "e3 = e2\<lparr>g_wal := Some w', g_wal_file := f', txn_active := False\<rparr>"
      "ready e3 (((rs @ [r1]) @ [r2]) @ [r3])" "rec_type r3 = WAL_COMMIT" "rec_txn r3 = current_txn e2"
    using commit_run [OF i(7)] by blast
  have "rec_txn r2 = current_txn e1" using i(4) by simp
  then have "insert_records (stmt_intent (Insert t vs)) [r1, r2, r3]"
    unfolding insert_records_def row_text_values insert_table
    using b(4,5) m(4,5) i(4,5,6,8) by (intro exI [of _ r1] exI [of _ r2] exI [of _ r3] exI [of _ buffer]) simp
  moreover have "e_files e3 = (e_files e)(data_path e t \<mapsto> c')" using i(2) begun(2) by (simp add: m(2) b(2))
  moreover have "ready e3 (rs @ [r1, r2, r3])" "\<not> txn_active e3" using m(2,3) by simp_all
  ultimately show ?thesis using b(1) i(1,3) m(1) by blast
qed

theorem transaction_statements_witness:
  "\<exists>e1 e2 e3 c' new. dispatch demo (statement Begin) = Some (EXEC_SUCCESS, [], e1) \<and>
     dispatch e1 (statement (Insert (lit ''t'') demo_values)) = Some (EXEC_SUCCESS, [], e2) \<and>
     dispatch e2 (statement Commit) = Some (EXEC_SUCCESS, [], e3) \<and>
     e_files e3 = (e_files demo)(data_path demo (lit ''t'') \<mapsto> c') \<and> file_added demo_page (two_values demo_values) c' \<and>
     insert_records (stmt_intent (Insert (lit ''t'') demo_values)) new \<and> ready e3 ([] @ new) \<and> \<not> txn_active e3"
  by (rule transaction_statements [OF demo_ready demo_stmt_ok demo_insert_ok])

lemma open_txn_redo:
  "rec_type r1 = WAL_BEGIN \<Longrightarrow> rec_matches (LWrite txn WAL_INSERT t (Some b) n 0) r2 \<Longrightarrow> redo_set [r1, r2] = []"
  by (simp add: redo_set_def wal_types)

text \<open>
  C14: there is no rollback. The row of an \<open>INSERT\<close> in a transaction that is never committed is
  in the data file at once; after the end of the program and its next start, which redoes
  nothing of that transaction, the row is still there.
\<close>

theorem uncommitted_row_survives:
  assumes "ready e []" and "stmt_ok (Insert t vs)" and "insert_ok e (stmt_intent (Insert t vs)) c"
    and "saved_db (e_files e) = current_db e"
  shows "\<exists>e1 e2 e3 c'. dispatch e (statement Begin) = Some (EXEC_SUCCESS, [], e1) \<and>
           dispatch e1 (statement (Insert t vs)) = Some (EXEC_SUCCESS, [], e2) \<and> txn_active e2 \<and>
           main_start (main_end e2) = Some (Some e3) \<and>
           e_files e3 (data_path e t) = Some c' \<and> file_added c (two_values vs) c'"
proof -
  obtain e1 r1 w f txn where b: "dispatch e (statement Begin) = Some (EXEC_SUCCESS, [], e1)"
      "e1 = e\<lparr>g_wal := Some w, g_wal_file := f, current_txn := txn, txn_active := True\<rparr>"
      "ready e1 [r1]" "rec_type r1 = WAL_BEGIN"
    using begin_run [OF assms(1)] by auto
  note begun = begun_insert_ok [OF b(2) assms(3)]
  obtain e2 c' r2 buffer where i: "dispatch e1 (statement (Insert t vs)) = Some (EXEC_SUCCESS, [], e2)"
      "e_files e2 = (e_files e1)(data_path e1 t \<mapsto> c')" "file_added c (two_values vs) c'"
      "rec_matches (LWrite (current_txn e1) WAL_INSERT t (Some buffer) (of_nat (length (two_values vs))) 0) r2"
      "ready e2 ([r1] @ [r2])" "txn_active e2"
    using insert_in_txn [OF b(3) begun(3) assms(2) begun(1)] by (elim exE conjE)
  have "db_ok e t" using assms(3) unfolding insert_ok_def insert_table by simp
  note own = own_paths [OF this] and fin = main_end_files [OF i(5)]
  have "commits ([r1] @ [r2]) \<le> 2" using length_filter_le [of _ "[r1] @ [r2]"] by (simp add: commits_def)
  then have lg: "log_file (e_files (main_end e2)) ([r1] @ [r2])" "[r1] @ [r2] \<noteq> []"
    using ready_valid [OF i(5)] by (simp_all add: log_file_def fin(3))
  obtain e4 where e4: "e_files e4 = e_files (main_end e2)"
      "\<forall>e3. fold_opt redo_insert e4 (redo_set ([r1] @ [r2])) = Some e3 \<longrightarrow>
              (\<exists>w f. main_start (main_end e2) = Some (Some (e3\<lparr>g_wal := Some w, g_wal_file := f\<rparr>)) \<and> log_ok f [])"
    using main_start_run [OF fin(1,2) lg] by blast
  have "redo_set ([r1] @ [r2]) = []" using open_txn_redo [OF b(4) i(4)] by simp
  then obtain w' f' where "main_start (main_end e2) = Some (Some (e4\<lparr>g_wal := Some w', g_wal_file := f'\<rparr>))"
    using e4(2) by auto
  moreover have "e_files e4 (data_path e t) = Some c'" using own(1) by (simp add: e4(1) fin(3) i(2) begun(2))
  ultimately show ?thesis using b(1) i(1,3,6) by fastforce
qed

theorem uncommitted_row_survives_witness:
  "\<exists>e1 e2 e3 c'. dispatch demo (statement Begin) = Some (EXEC_SUCCESS, [], e1) \<and>
     dispatch e1 (statement (Insert (lit ''t'') demo_values)) = Some (EXEC_SUCCESS, [], e2) \<and> txn_active e2 \<and>
     main_start (main_end e2) = Some (Some e3) \<and>
     e_files e3 (data_path demo (lit ''t'')) = Some c' \<and> file_added demo_page (two_values demo_values) c'"
  by (rule uncommitted_row_survives [OF demo_ready demo_stmt_ok demo_insert_ok])
    (simp add: demo_def saved_db_def lit_def)

end
