(* ===== verification/Statements.thy ===== *)
theory Statements imports TableWitness Transaction begin

text \<open>
  \<open>SELECT\<close>, \<open>DELETE\<close> and \<open>UPDATE\<close> from their texts to the disk and through the next start of the
  program.
\<close>

lemma dispatch_select: "dispatch e (statement (Select cols t w)) = handle_sql e (statement (Select cols t w))"
  by (rule dispatch_sql) (simp add: statement_simps classify_simps)

lemma dispatch_delete: "dispatch e (statement (Delete t w)) = handle_sql e (statement (Delete t w))"
  by (rule dispatch_sql) (simp add: statement_simps classify_simps)

lemma dispatch_update: "dispatch e (statement (Update t c v w)) = handle_sql e (statement (Update t c v w))"
  by (rule dispatch_sql) (simp add: statement_simps classify_simps)

text \<open>
  What a statement leaves alone while its table is open, and what is in the log after \<open>k\<close> rows
  were changed: three more records for each, none of which recovery redoes.
\<close>

definition session_core :: "Env \<Rightarrow> walrec list \<Rightarrow> nat \<Rightarrow> core \<Rightarrow> bool" where
  "session_core e rs k c \<longleftrightarrow>
     (case c of (files, dirs, db, wal, f, active, txn) \<Rightarrow>
        files = e_files e \<and> dirs = e_dirs e \<and> db = current_db e \<and> active = txn_active e \<and> txn = current_txn e \<and>
        (\<exists>w. wal = Some w) \<and>
        (\<exists>new. log_ok f (rs @ new) \<and> length new = 3 * k \<and> (\<forall>r \<in> set new. rec_type r \<noteq> WAL_INSERT)))"

lemma session_start: "ready e rs \<Longrightarrow> env_ok (session_core e rs 0) e"
  by (auto simp: ready_def env_ok_def session_core_def core_def)

lemma session_logs:
  assumes "0 \<notin> set name"
  shows "log_closed name (session_core e0 rs)"
  unfolding log_closed_def
proof (intro allI impI, elim conjE)
  fix k e ty row n e' and len :: u16
  assume e: "env_ok (session_core e0 rs k) e" and ty: "ty \<in> {WAL_UPDATE, WAL_DELETE}" and row: "256 \<le> length row"
    and run: "wal_log_row e ty name row len n = Some e'"
  obtain w new where w: "g_wal e = Some w" "log_ok (g_wal_file e) (rs @ new)" "length new = 3 * k"
      "\<forall>r \<in> set new. rec_type r \<noteq> WAL_INSERT"
    using e by (auto simp: env_ok_def session_core_def core_def)
  let ?w = "\<lparr>next_lsn = next_lsn w + 1, next_txn = next_txn w + 1\<rparr>"
  obtain f1 r1 where b: "wal_begin (Some w) (g_wal_file e) = (WAL_OK, Some (next_txn w), Some ?w, f1)"
      "log_ok f1 ((rs @ new) @ [r1])" "rec_type r1 = WAL_BEGIN"
    using wal_begin_log [OF w(2), of w] by blast
  have "op_ok (LWrite (next_txn w) ty name (Some row) len n)" using assms row by (simp add: min_le_iff_disj)
  then obtain f2 r2 where m: "wal_write (Some ?w) f1 (next_txn w) ty name (Some row) len n =
        Some (WAL_OK, Some (?w\<lparr>next_lsn := next_lsn ?w + 1\<rparr>), f2)" "log_ok f2 (((rs @ new) @ [r1]) @ [r2])"
      "rec_matches (LWrite (next_txn w) ty name (Some row) len n) r2"
    using wal_write_log [OF b(2), of "next_txn w" ty name "Some row" len n ?w] by blast
  obtain w3 f3 r3 where c: "wal_commit (Some (?w\<lparr>next_lsn := next_lsn ?w + 1\<rparr>)) f2 (next_txn w) = (WAL_OK, Some w3, f3)"
      "log_ok f3 ((((rs @ new) @ [r1]) @ [r2]) @ [r3])" "rec_type r3 = WAL_COMMIT"
    using wal_commit_log [OF m(2), of "?w\<lparr>next_lsn := next_lsn ?w + 1\<rparr>" "next_txn w"] by blast
  have e': "e' = e\<lparr>g_wal := Some w3, g_wal_file := f3\<rparr>"
    using run c(1) by (simp add: wal_log_row_def w(1) b(1) m(1))
  have "rec_type r2 = ty" using m(3) by simp
  then have "log_ok f3 (rs @ new @ [r1, r2, r3])" "length (new @ [r1, r2, r3]) = 3 * (k + 1)"
      "\<forall>r \<in> set (new @ [r1, r2, r3]). rec_type r \<noteq> WAL_INSERT"
    using c(2,3) b(3) w(3,4) ty by (auto simp: wal_types)
  then have "\<exists>new. log_ok f3 (rs @ new) \<and> length new = 3 * (k + 1) \<and> (\<forall>r \<in> set new. rec_type r \<noteq> WAL_INSERT)" by blast
  then show "session_core e0 rs (k + 1) (core e')"
    using e by (simp add: e' session_core_def core_def env_ok_def)
qed

text \<open>Opening a table, one operation on it, and closing it.\<close>

lemma with_table_run:
  assumes rdy: "ready e rs" and st: "stored e name c"
    and op: "\<And>t e1. tb_wf t \<Longrightarrow> tb_quiet t \<Longrightarrow> works e1 \<Longrightarrow> env_ok (session_core e rs 0) e1 \<Longrightarrow>
        tb_rows t = file_rows c \<Longrightarrow> tb_page_count t = of_nat (length c div 4096) \<Longrightarrow>
        tb_name t = take (MAX_TABLE_NAME - 1) name \<Longrightarrow>
        \<exists>out t' e2. op t e1 = Some (out, t', e2) \<and> P out \<and> tb_wf t' \<and> tb_quiet t' \<and> works e2 \<and>
           env_ok (session_core e rs k) e2 \<and> tb_path t' = tb_path t \<and> tb_rows t' = R"
  shows "\<exists>out e' c' new. with_table e name op none = Some (EXEC_SUCCESS, out, e') \<and> P out \<and>
           e_files e' = (e_files e)(data_path e name \<mapsto> c') \<and> data_ok c' \<and> file_rows c' = R \<and>
           ready e' (rs @ new) \<and> length new = 3 * k \<and> (\<forall>r \<in> set new. rec_type r \<noteq> WAL_INSERT) \<and>
           current_db e' = current_db e \<and> txn_active e' = txn_active e"
proof -
  have w: "works e" using rdy by (simp add: ready_def)
  obtain t e1 where t: "table_open e name = Some (Some t, e1)" "tb_wf t" "tb_quiet t" "works e1"
      "env_ok (session_core e rs 0) e1" "tb_rows t = file_rows c" "tb_path t = data_path e name"
      "tb_page_count t = of_nat (length c div 4096)" "tb_name t = take (MAX_TABLE_NAME - 1) name"
    using table_open_works [OF w session_start [OF rdy] st] by blast
  obtain out t' e2 where o: "op t e1 = Some (out, t', e2)" "P out" "tb_wf t'" "tb_quiet t'" "works e2"
      "env_ok (session_core e rs k) e2" "tb_path t' = tb_path t" "tb_rows t' = R"
    using op [OF t(2-6,8,9)] by blast
  obtain c' where cl: "table_close t' e2 = e2\<lparr>e_files := (e_files e2)(tb_path t' \<mapsto> c')\<rparr>" "data_ok c'" "file_rows c' = tb_rows t'"
    using table_close_works [OF o(3,4), of e2] by blast
  obtain wal new where k: "e_files e2 = e_files e" "current_db e2 = current_db e" "txn_active e2 = txn_active e"
      "g_wal e2 = Some wal" "log_ok (g_wal_file e2) (rs @ new)" "length new = 3 * k"
      "\<forall>r \<in> set new. rec_type r \<noteq> WAL_INSERT"
    using o(6) by (auto simp: env_ok_def session_core_def core_def)
  have "with_table e name op none = Some (EXEC_SUCCESS, out, table_close t' e2)"
    by (simp add: with_table_def t(1) o(1))
  moreover have "ready (table_close t' e2) (rs @ new)"
    using o(5,6) k(4,5) by (simp add: cl(1) ready_def env_ok_def any_core_def works_def)
  moreover have "e_files (table_close t' e2) = (e_files e)(data_path e name \<mapsto> c')" by (simp add: cl(1) k(1) o(7) t(7))
  moreover have "current_db (table_close t' e2) = current_db e" "txn_active (table_close t' e2) = txn_active e"
    by (simp_all add: cl(1) k(2,3))
  ultimately show ?thesis using o(2,8) cl(2,3) k(6,7) by metis
qed

text \<open>All rows of a data file, page by page.\<close>

definition file_all :: "bytes \<Rightarrow> bytes option list" where
  "file_all c =
     concat (map (\<lambda>n. case file_rows c (of_nat n) of Some rs \<Rightarrow> rs | None \<Rightarrow> []) [0 ..< length c div PAGE_SIZE])"

lemma all_rows_file:
  assumes "tb_rows t = file_rows c" and "tb_page_count t = of_nat (length c div 4096)" and "data_ok c"
  shows "all_rows t = file_all c"
proof -
  have "length c div 4096 < 2 ^ 32" using assms(3) by (simp add: data_ok_def)
  then have "unat (tb_page_count t) = length c div 4096" by (simp add: assms(2) unat_of_nat)
  then show ?thesis by (simp add: all_rows_def rows_on_def file_all_def pids_def assms(1) comp_def)
qed

lemma stmt_name: "name_ok t \<Longrightarrow> 0 \<notin> set (take n t)"
proof -
  assume "name_ok t"
  then have "word_ok t" by (auto simp: name_ok_def ident_def token_ok_def punct_def)
  then obtain c r where t: "t = c # r" "c_isalpha c \<or> c = ch CHR ''_''" "\<forall>d \<in> set r. word_char d"
    by (auto simp: word_ok_def)
  have z: "\<not> c_isalpha 0" "(0 :: u8) \<noteq> ch CHR ''_''" "\<not> word_char 0" by (simp_all add: char_simps)
  have "0 \<notin> set t" using t z by auto
  then show ?thesis by (auto dest: in_set_takeD)
qed

lemma select_intent:
  "it_table (stmt_intent (Select cols t None)) = t" "it_type (stmt_intent (Select cols t None)) = INTENT_SELECT"
  "\<not> wh_active (it_where (stmt_intent (Select cols t None)))"
  by (simp_all add: zero_intent_def)

lemma delete_intent:
  "it_table (stmt_intent (Delete t None)) = t" "it_type (stmt_intent (Delete t None)) = INTENT_DELETE"
  "\<not> wh_active (it_where (stmt_intent (Delete t None)))"
  by (simp_all add: zero_intent_def)

text \<open>
  C10: \<open>SELECT\<close> without a condition, from its text to the screen, when no call fails: it shows all
  rows of the data file in page order (whatever columns are named), as the non-empty pieces
  between the bars, read through one row buffer whose first contents are indeterminate. No
  row, no other file and nothing in the log changes.
\<close>

theorem select_statement:
  assumes "ready e rs" and "stmt_ok (Select cols t None)" and "stored e t c"
  shows "\<exists>buf e' c'. length buf = PAGE_SIZE \<and>
           dispatch e (statement (Select cols t None)) = Some (EXEC_SUCCESS, shown buf (file_all c), e') \<and>
           e_files e' = (e_files e)(data_path e t \<mapsto> c') \<and> file_rows c' = file_rows c \<and> ready e' rs"
proof -
  let ?i = "stmt_intent (Select cols t None)"
  have c: "data_ok c" using assms(3) by (simp add: stored_def)
  have "\<exists>out t' e2. table_scan tb e1 ?i = Some (out, t', e2) \<and> (\<exists>buf. length buf = 4096 \<and> out = shown buf (file_all c)) \<and>
      tb_wf t' \<and> tb_quiet t' \<and> works e2 \<and> env_ok (session_core e rs 0) e2 \<and> tb_path t' = tb_path tb \<and> tb_rows t' = file_rows c"
    if tb: "tb_wf tb" "tb_quiet tb" "works e1" "env_ok (session_core e rs 0) e1" "tb_rows tb = file_rows c"
      "tb_page_count tb = of_nat (length c div 4096)" for tb e1
  proof -
    obtain buf e2 where d: "draw_stack PAGE_SIZE e1 = (buf, e2)" by fastforce
    have "length buf = 4096" using draw_stack_ok(2) [OF tb(4) d] by simp
    moreover obtain t' e3 where "table_scan tb e1 ?i = Some (shown buf (all_rows tb), t', e3)" "tb_wf t'" "tb_quiet t'"
        "tb_rows t' = tb_rows tb" "works e3" "env_ok (session_core e rs 0) e3" "meta t' = meta tb"
      using table_scan_run [OF tb(1-4) select_intent(3) [of cols t] d] by (elim exE conjE)
    ultimately show ?thesis using all_rows_file [OF tb(5,6) c] tb(5) meta_fields(2) [of t' tb] by auto
  qed
  then obtain out e' c' new where r: "with_table e t (\<lambda>tb e. table_scan tb e ?i) [] = Some (EXEC_SUCCESS, out, e')"
      "\<exists>buf. length buf = 4096 \<and> out = shown buf (file_all c)" "e_files e' = (e_files e)(data_path e t \<mapsto> c')"
      "file_rows c' = file_rows c" "ready e' (rs @ new)" "length new = 3 * 0"
    using with_table_run [OF assms(1,3), where op = "\<lambda>tb e. table_scan tb e ?i" and k = 0 and R = "file_rows c" and
        P = "\<lambda>out. \<exists>buf. length buf = 4096 \<and> out = shown buf (file_all c)" and none = "[]"] by blast
  have "dispatch e (statement (Select cols t None)) = Some (EXEC_SUCCESS, out, e')"
    using parse_statement [OF assms(2)] r(1) select_intent by (simp add: dispatch_select handle_sql_def del: stmt_intent.simps)
  then show ?thesis using r(2-6) by auto
qed

theorem select_statement_witness:
  "\<exists>buf e' c'. length buf = PAGE_SIZE \<and>
     dispatch demo (statement (Select None (lit ''t'') None)) = Some (EXEC_SUCCESS, shown buf (file_all demo_page), e') \<and>
     e_files e' = (e_files demo)(data_path demo (lit ''t'') \<mapsto> c') \<and> file_rows c' = file_rows demo_page \<and> ready e' []"
  by (rule select_statement [OF demo_ready _ demo_stored]) (simp add: demo_names)

lemma delete_statement_run:
  assumes "ready e rs" and "stmt_ok (Delete t None)" and "stored e t c"
  shows "\<exists>e' c' new. dispatch e (statement (Delete t None)) = Some (EXEC_SUCCESS, [], e') \<and>
           e_files e' = (e_files e)(data_path e t \<mapsto> c') \<and> data_ok c' \<and>
           file_rows c' = (\<lambda>n. map_option erased (file_rows c n)) \<and>
           ready e' (rs @ new) \<and> length new = 3 * live_count (file_all c) \<and> (\<forall>r \<in> set new. rec_type r \<noteq> WAL_INSERT) \<and>
           current_db e' = current_db e"
proof -
  let ?i = "stmt_intent (Delete t None)" and ?k = "live_count (file_all c)" and ?R = "\<lambda>n. map_option erased (file_rows c n)"
  let ?op = "\<lambda>tb e. map_option (\<lambda>(_, n, tb, e). ([] :: cstr list list, tb, e)) (table_delete tb e ?i)"
  have c: "data_ok c" using assms(3) by (simp add: stored_def)
  have name: "0 \<notin> set (take (MAX_TABLE_NAME - 1) t)" using assms(2) stmt_name by simp
  have "\<exists>out t' e2. ?op tb e1 = Some (out, t', e2) \<and> out = [] \<and> tb_wf t' \<and> tb_quiet t' \<and> works e2 \<and>
      env_ok (session_core e rs ?k) e2 \<and> tb_path t' = tb_path tb \<and> tb_rows t' = ?R"
    if tb: "tb_wf tb" "tb_quiet tb" "works e1" "env_ok (session_core e rs 0) e1" "tb_rows tb = file_rows c"
      "tb_page_count tb = of_nat (length c div 4096)" "tb_name tb = take (MAX_TABLE_NAME - 1) t" for tb e1
  proof -
    have K: "log_closed (tb_name tb) (session_core e rs)" unfolding tb(7) by (rule session_logs [OF name])
    obtain t' e2 where "table_delete tb e1 ?i = Some (TABLE_OK, live_count (all_rows tb), t', e2)" "tb_wf t'" "tb_quiet t'"
        "works e2" "env_ok (session_core e rs (live_count (all_rows tb))) e2" "meta t' = meta tb"
        "tb_rows t' = (\<lambda>n. map_option erased (tb_rows tb n))"
      using table_delete_run [OF K tb(1-4) delete_intent(3) [of t]] by (elim exE conjE)
    then show ?thesis using all_rows_file [OF tb(5,6) c] tb(5) meta_fields(2) [of t' tb] by simp
  qed
  then obtain e' c' new where r: "with_table e t ?op [] = Some (EXEC_SUCCESS, [], e')"
      "e_files e' = (e_files e)(data_path e t \<mapsto> c')" "data_ok c'" "file_rows c' = ?R" "ready e' (rs @ new)"
      "length new = 3 * ?k" "\<forall>r \<in> set new. rec_type r \<noteq> WAL_INSERT" "current_db e' = current_db e"
    using with_table_run [OF assms(1,3), where op = ?op and k = ?k and R = ?R and P = "\<lambda>out. out = []" and none = "[]"]
    by blast
  have "dispatch e (statement (Delete t None)) = Some (EXEC_SUCCESS, [], e')"
    using parse_statement [OF assms(2)] r(1) delete_intent by (simp add: dispatch_delete handle_sql_def del: stmt_intent.simps)
  then show ?thesis using r(2-8) by blast
qed

text \<open>
  C11: \<open>DELETE\<close> without a condition, from its text to the disk, when no call fails: every page of
  the data file keeps its slots and loses all its rows, no other file changes, and the log
  gets three records for each row there was.
\<close>

theorem delete_statement:
  assumes "ready e rs" and "stmt_ok (Delete t None)" and "stored e t c"
  shows "\<exists>e' c' new. dispatch e (statement (Delete t None)) = Some (EXEC_SUCCESS, [], e') \<and>
           e_files e' = (e_files e)(data_path e t \<mapsto> c') \<and> file_rows c' = (\<lambda>n. map_option erased (file_rows c n)) \<and>
           ready e' (rs @ new) \<and> length new = 3 * live_count (file_all c)"
  using delete_statement_run [OF assms] by blast

theorem delete_statement_witness:
  "\<exists>e' c' new. dispatch demo (statement (Delete (lit ''t'') None)) = Some (EXEC_SUCCESS, [], e') \<and>
     e_files e' = (e_files demo)(data_path demo (lit ''t'') \<mapsto> c') \<and>
     file_rows c' = (\<lambda>n. map_option erased (file_rows demo_page n)) \<and>
     ready e' ([] @ new) \<and> length new = 3 * live_count (file_all demo_page)"
  by (rule delete_statement [OF demo_ready _ demo_stored]) (simp add: demo_names)

text \<open>How many rows a data file has.\<close>

definition live_on :: "bytes option list option \<Rightarrow> nat" where
  "live_on rs = (case rs of None \<Rightarrow> 0 | Some rs \<Rightarrow> live_count rs)"

lemma live_count_pages:
  "live_count (concat (map f [0 ..< m])) = (\<Sum>n<m. live_count (f n))"
  by (induction m) (simp_all add: live_count_def)

lemma live_count_file:
  assumes "data_ok c"
  shows "live_count (file_all c) = (\<Sum>n \<in> UNIV. live_on (file_rows c n))"
proof -
  let ?m = "length c div 4096"
  have m: "?m < 2 ^ 32" using assms by (simp add: data_ok_def)
  have u: "unat (of_nat k :: u32) = k" if "k < ?m" for k using that m by (simp add: unat_of_nat)
  have inj: "inj_on (of_nat :: nat \<Rightarrow> u32) {..<?m}"
    by (rule inj_onI) (metis u lessThan_iff)
  have out: "live_on (file_rows c n) = 0" if "n \<notin> of_nat ` {..<?m}" for n :: u32
  proof -
    have "of_nat (unat n) = n" by simp
    then have "\<not> unat n < ?m" using that by (metis imageI lessThan_iff)
    then have "block c (unat n) = None" by (auto simp: block_def less_eq_div_iff_mult_less_eq [symmetric])
    then show ?thesis by (simp add: live_on_def file_rows_def)
  qed
  have "live_count (file_all c) = (\<Sum>n<?m. live_on (file_rows c (of_nat n)))"
    by (simp add: file_all_def live_count_pages live_on_def)
      (rule sum.cong; simp add: live_count_def split: option.split)
  also have "\<dots> = (\<Sum>n \<in> of_nat ` {..<?m}. live_on (file_rows c n))" by (simp add: sum.reindex [OF inj])
  also have "\<dots> = (\<Sum>n \<in> UNIV. live_on (file_rows c n))"
    by (rule sum.mono_neutral_left) (use out in auto)
  finally show ?thesis .
qed

lemma file_added_count:
  assumes "data_ok c" and "file_added c r c'"
  shows "live_count (file_all c') = live_count (file_all c) + 1"
proof -
  obtain n where n: "file_rows c' = (file_rows c)(n \<mapsto> (case file_rows c n of Some rs \<Rightarrow> rs | None \<Rightarrow> []) @ [Some r])"
      and d: "data_ok c'"
    using assms(2) by (auto simp: file_added_def)
  have "live_on (file_rows c' n) = live_on (file_rows c n) + 1"
    by (simp add: n live_on_def live_count_def split: option.split)
  moreover have "(\<Sum>k \<in> UNIV - {n}. live_on (file_rows c' k)) = (\<Sum>k \<in> UNIV - {n}. live_on (file_rows c k))"
    by (rule sum.cong) (simp_all add: n)
  ultimately show ?thesis
    unfolding live_count_file [OF assms(1)] live_count_file [OF d]
    by (simp add: sum.remove [of UNIV n])
qed

lemma same_pages:
  assumes "data_ok c" and "data_ok c'" and "file_rows c = (\<lambda>n. map_option f (file_rows c' n))"
  shows "length c div 4096 = length c' div 4096"
proof -
  have b: "file_rows x n = None \<longleftrightarrow> \<not> unat n < length x div 4096" for x and n :: u32
    by (auto simp: file_rows_def block_def less_eq_div_iff_mult_less_eq [symmetric])
  have i: "unat n < length c div 4096 \<longleftrightarrow> unat n < length c' div 4096" for n :: u32
    using b [of c n] b [of c' n] assms(3) by simp
  have "k < length c div 4096 \<longleftrightarrow> k < length c' div 4096" if "k < 2 ^ 32" for k
    using i [of "of_nat k"] that by (simp add: unat_of_nat)
  then show ?thesis using assms(1,2) unfolding data_ok_def by (metis linorder_neqE_nat less_irrefl)
qed

lemma insert_records_redo:
  assumes "insert_records intent new" and "\<forall>r \<in> set new2. rec_type r \<noteq> WAL_INSERT"
  shows "redo_set (new @ new2) = redo_set new"
proof -
  have "filter (\<lambda>r. rec_type r = WAL_INSERT \<and> P r) new2 = []" for P using assms(2) by (simp add: filter_empty_conv)
  then show ?thesis using assms(1) by (auto simp: redo_set_def insert_records_def wal_types)
qed

text \<open>
  C12: deleted rows come back. After an \<open>INSERT\<close> and a \<open>DELETE\<close> of all rows the data file has no row;
  ending the program and starting it again redoes the insertion, and the row is stored again.
  (From an empty log, with at most 80 other rows so that the log stays within the limits of
  recovery, and with the database that the next start restores being the current one.)
\<close>

theorem restart_restores_deleted:
  assumes "ready e []" and "\<not> txn_active e" and "stmt_ok (Insert t vs)" and "stmt_ok (Delete t None)"
    and "insert_ok e (stmt_intent (Insert t vs)) c" and "length c div PAGE_SIZE < 2 ^ 32 - 2"
    and "live_count (file_all c) \<le> 80" and "saved_db (e_files e) = current_db e"
  shows "\<exists>e1 e2 e3 c2 c3. dispatch e (statement (Insert t vs)) = Some (EXEC_SUCCESS, [], e1) \<and>
           dispatch e1 (statement (Delete t None)) = Some (EXEC_SUCCESS, [], e2) \<and>
           e_files e2 (data_path e t) = Some c2 \<and> live_count (file_all c2) = 0 \<and>
           main_start (main_end e2) = Some (Some e3) \<and>
           e_files e3 (data_path e t) = Some c3 \<and> file_added c2 (two_values vs) c3"
proof -
  let ?i = "stmt_intent (Insert t vs)"
  have o: "stored e t c" "db_ok e t" "0 \<notin> set t" "length (two_values vs) < 256" "length t \<le> 63"
    using assms(5) unfolding insert_ok_def insert_table row_text_values by (simp_all add: db_ok_def)
  note own = own_paths [OF o(2)]
  obtain e1 c1 new where i: "sql_insert e ?i = Some (EXEC_SUCCESS, e1)" "e_files e1 = (e_files e)(data_path e t \<mapsto> c1)"
      "file_added c (two_values vs) c1" "insert_records ?i new" "ready e1 new" "current_db e1 = current_db e"
    using sql_insert_run [OF assms(1,2,5)] unfolding row_text_values insert_table append_Nil by blast
  have d1: "dispatch e (statement (Insert t vs)) = Some (EXEC_SUCCESS, [], e1)"
    using dispatch_insert_intent [OF assms(3), of e] i(1) by (simp add: no_rows_def del: stmt_intent.simps)
  note s1 = paths_same_db [OF i(6), of t] and ok1 = file_added_data_ok [OF i(3)]
  have st1: "stored e1 t c1" using o(1) own ok1 by (simp add: stored_def s1 i(2))
  obtain e2 c2 new2 where d: "dispatch e1 (statement (Delete t None)) = Some (EXEC_SUCCESS, [], e2)"
      "e_files e2 = (e_files e1)(data_path e1 t \<mapsto> c2)" "data_ok c2" "file_rows c2 = (\<lambda>n. map_option erased (file_rows c1 n))"
      "ready e2 (new @ new2)" "length new2 = 3 * live_count (file_all c1)" "\<forall>r \<in> set new2. rec_type r \<noteq> WAL_INSERT"
      "current_db e2 = current_db e1"
    using delete_statement_run [OF i(5) assms(4) st1] by (elim exE conjE)
  note s2 = paths_same_db [OF d(8), of t]
  have st2: "stored e2 t c2" using st1 own d(3) by (simp add: stored_def s2 s1 d(2))
  have "live_on (file_rows c2 n) = 0" for n by (simp add: d(4) live_on_def split: option.split)
  then have empty: "live_count (file_all c2) = 0" by (simp add: live_count_file [OF d(3)])
  obtain r where r: "redo_set new = [r]" "str_at (rec_table r) = Some t" "unat (rec_data_len r) \<le> 256"
      "length (rec_data r) = 256" "take (unat (rec_data_len r)) (rec_data r) = two_values vs"
    using insert_redo_record [OF i(4) ready_valid [OF i(5)]] o(3-5) unfolding row_text_values insert_table by blast
  have red: "redo_set (new @ new2) = [r]" using insert_records_redo [OF i(4) d(7)] r(1) by simp
  have "data_ok c" using o(1) by (simp add: stored_def)
  then have "length new2 \<le> 243" using file_added_count [OF _ i(3)] assms(7) by (simp add: d(6))
  moreover have "length new = 3" using i(4) by (auto simp: insert_records_def)
  ultimately have lim: "length (new @ new2) \<le> 1024" "commits (new @ new2) \<le> 256"
    using length_filter_le [of "\<lambda>r. rec_type r = WAL_COMMIT" "new @ new2"] by (simp_all add: commits_def)
  have room: "room_in c2"
  proof -
    have "room_in c1" using file_added_room [OF i(3)] assms(6) by simp
    then show ?thesis using same_pages [OF d(3) ok1 d(4)] by (simp add: room_in_def)
  qed
  have saved: "saved_db (e_files e2) = current_db e2" using assms(8) own(2) by (simp add: saved_db_def d(2,8) i(2,6) s1)
  have db2: "db_ok e2 t" using o(2) by (simp add: db_ok_def d(8) i(6))
  obtain e3 c3 where "main_start (main_end e2) = Some (Some e3)" "e_files e3 (data_path e2 t) = Some c3"
      "file_added c2 (two_values vs) c3"
    using restart_redo_run [OF d(5) red r(2-4) st2 db2 room lim saved] unfolding r(5) by blast
  then show ?thesis using d1 d(1,2) empty by (auto simp: s2 s1)
qed

lemma demo_empty: "live_count (file_all demo_page) = 0"
proof -
  have "live_on (file_rows demo_page n) = 0" for n by (simp add: demo_data(2) live_on_def live_count_def)
  then show ?thesis by (simp add: live_count_file [OF demo_data(1)])
qed

theorem restart_restores_deleted_witness:
  "\<exists>e1 e2 e3 c2 c3. dispatch demo (statement (Insert (lit ''t'') demo_values)) = Some (EXEC_SUCCESS, [], e1) \<and>
     dispatch e1 (statement (Delete (lit ''t'') None)) = Some (EXEC_SUCCESS, [], e2) \<and>
     e_files e2 (data_path demo (lit ''t'')) = Some c2 \<and> live_count (file_all c2) = 0 \<and>
     main_start (main_end e2) = Some (Some e3) \<and>
     e_files e3 (data_path demo (lit ''t'')) = Some c3 \<and> file_added c2 (two_values demo_values) c3"
  by (rule restart_restores_deleted [OF demo_ready _ demo_stmt_ok _ demo_insert_ok])
    (simp_all add: demo_names demo_length demo_empty, simp_all add: demo_def saved_db_def lit_def)

end
