(* ===== verification/Where.thy ===== *)
theory Where imports TableWitness begin


















end
