(* ===== verification/ReplProps.thy ===== *)
theory ReplProps imports Repl SessionWitness begin

text \<open>What the prompt hands to the dispatcher.\<close>

text \<open>A line that is part of a statement: no command of its own.\<close>

definition plain_line :: "cstr \<Rightarrow> bool" where
  "plain_line l \<longleftrightarrow>
     l \<noteq> [] \<and> 0 \<notin> set l \<and> 10 \<notin> set l \<and> hd l \<noteq> ch CHR ''.'' \<and>
     \<not> strcasecmp_eq l (lit ''show db'') \<and> \<not> strcasecmp_eq l (lit ''showdb'')"

definition typed_line :: "cstr \<Rightarrow> input \<times> bool" where
  "typed_line l = (Piece (l @ [10]), False)"

lemma takeWhile_all: "0 \<notin> set l \<Longrightarrow> takeWhile (\<lambda>c :: u8. c \<noteq> 0) l = l"
  by (induction l) auto

lemma read_line: "plain_line l \<Longrightarrow> read_input (fst (typed_line l)) = (1, l)"
  using takeWhile_all [of "l @ [10]"] by (simp add: plain_line_def typed_line_def read_input_def Let_def)

lemma append_take: "append_line (take 1023 q) l = take 1023 (q @ l)"
  by (simp add: append_line_def min_def)

lemma step_plain:
  assumes "plain_line l" and "\<not> rp_quit r" and "rp_query r = take 1023 q"
  shows "repl_step r (typed_line l) =
           (if ch CHR '';'' \<in> set l
            then map_option (\<lambda>r. r\<lparr>rp_query := []\<rparr>) (run_command r (takeWhile (\<lambda>c. c \<noteq> ch CHR '';'') (take 1023 (q @ l))))
            else Some (r\<lparr>rp_query := take 1023 (q @ l)\<rparr>))"
proof -
  have "snd (typed_line l) = False" by (simp add: typed_line_def)
  then show ?thesis
    using assms read_line [OF assms(1)] by (simp add: repl_step_def plain_line_def append_take Let_def)
qed

lemma lines_collected:
  assumes "\<forall>l \<in> set ls. plain_line l \<and> ch CHR '';'' \<notin> set l" and "\<not> rp_quit r" and "rp_query r = take 1023 q"
  shows "fold_opt repl_step r (map typed_line ls) = Some (r\<lparr>rp_query := take 1023 (q @ concat ls)\<rparr>)"
  using assms
proof (induction ls arbitrary: r q)
  case Nil
  then show ?case by (cases r) simp
next
  case (Cons l ls)
  have s: "repl_step r (typed_line l) = Some (r\<lparr>rp_query := take 1023 (q @ l)\<rparr>)"
    using step_plain [OF _ Cons.prems(2,3), of l] Cons.prems(1) by simp
  show ?case using Cons.IH [of "r\<lparr>rp_query := take 1023 (q @ l)\<rparr>" "q @ l"] Cons.prems s by simp
qed

text \<open>
  C24: a statement may be typed over several lines. The lines are joined without anything between
  them and cut after 1023 bytes; what stands before the first semicolon of that text is
  dispatched once, and the rest of the last line is dropped.
\<close>

theorem repl_joins_lines:
  assumes "\<forall>l \<in> set ls. plain_line l \<and> ch CHR '';'' \<notin> set l"
    and "plain_line l" and "ch CHR '';'' \<in> set l" and "\<not> rp_quit r" and "rp_query r = []"
  shows "fold_opt repl_step r (map typed_line (ls @ [l])) =
           map_option (\<lambda>r. r\<lparr>rp_query := []\<rparr>)
             (run_command (r\<lparr>rp_query := take 1023 (concat ls)\<rparr>)
                (takeWhile (\<lambda>c. c \<noteq> ch CHR '';'') (take 1023 (concat ls @ l))))"
proof -
  have "fold_opt repl_step r (map typed_line ls) = Some (r\<lparr>rp_query := take 1023 (concat ls)\<rparr>)"
    using lines_collected [OF assms(1,4), of "[]"] assms(5) by simp
  then show ?thesis
    using step_plain [OF assms(2), of "r\<lparr>rp_query := take 1023 (concat ls)\<rparr>" "concat ls"] assms(3,4)
    by (simp add: fold_opt_append split: option.split)
qed

definition demo_repl :: Repl where
  "demo_repl = \<lparr>rp_query = [], rp_env = demo, rp_out = [], rp_quit = False\<rparr>"

theorem repl_joins_lines_witness:
  "fold_opt repl_step demo_repl (map typed_line ([lit ''INSERT INTO t''] @ [lit ''VALUES (1); rest''])) =
     map_option (\<lambda>r. r\<lparr>rp_query := []\<rparr>)
       (run_command (demo_repl\<lparr>rp_query := take 1023 (concat [lit ''INSERT INTO t''])\<rparr>)
          (takeWhile (\<lambda>c. c \<noteq> ch CHR '';'') (take 1023 (concat [lit ''INSERT INTO t''] @ lit ''VALUES (1); rest''))))"
  by (rule repl_joins_lines) (simp_all add: plain_line_def lit_def ch_def strcasecmp_eq_def c_tolower_def c_isupper_def demo_repl_def)

end
