(* ===== verification/Aio.thy ===== *)
theory Aio imports Page "HOL-Library.Multiset" begin

text \<open>
  The asynchronous page writer of io/aio.c. The library liburing and the kernel behind it are
  not part of the sources: a \<open>liburing\<close> is a record of the calls the code makes, over a type
  \<open>'r\<close> of rings with the kernel state behind them, and every routine takes it as its first
  argument. A ring may change with every call, as completions arrive while the program runs.
  The callback is a function on the data behind the \<open>userdata\<close> pointer; it does not call back
  into the writer. \<open>None\<close> as a context is the null pointer.
\<close>

record Sqe =
  sq_fd :: int
  sq_buf :: bytes
  sq_len :: u32
  sq_off :: u64
  sq_data :: u64

record Cqe =
  cq_data :: u64
  cq_res :: int

record 'r liburing =
  memset_ring :: "'r \<Rightarrow> 'r"
  io_uring_queue_init :: "nat \<Rightarrow> 'r \<Rightarrow> int \<times> 'r"
  io_uring_queue_exit :: "'r \<Rightarrow> 'r"
  io_uring_register_eventfd :: "int \<Rightarrow> 'r \<Rightarrow> int \<times> 'r"
  io_uring_get_sqe :: "'r \<Rightarrow> nat option \<times> 'r"
  io_uring_prep_write :: "nat \<Rightarrow> int \<Rightarrow> bytes \<Rightarrow> u32 \<Rightarrow> u64 \<Rightarrow> 'r \<Rightarrow> 'r"
  io_uring_sqe_set_data64 :: "nat \<Rightarrow> u64 \<Rightarrow> 'r \<Rightarrow> 'r"
  io_uring_submit :: "'r \<Rightarrow> int \<times> 'r"
  io_uring_peek_cqe :: "'r \<Rightarrow> int \<times> Cqe \<times> 'r"
  io_uring_wait_cqe :: "'r \<Rightarrow> int \<times> Cqe \<times> 'r"
  io_uring_cqe_seen :: "Cqe \<Rightarrow> 'r \<Rightarrow> 'r"
  make_eventfd :: "'r \<Rightarrow> int \<times> 'r"
  read_eventfd :: "int \<Rightarrow> 'r \<Rightarrow> 'r"
  close_fd :: "int \<Rightarrow> 'r \<Rightarrow> 'r"

datatype AIOResult = AIO_OK | AIO_ERROR | AIO_UNAVAILABLE

record ('r, 'u) AIOContext =
  ring :: 'r
  efd :: int
  callback :: "(u32 \<Rightarrow> bool \<Rightarrow> 'u \<Rightarrow> 'u) option"
  userdata :: 'u
  pending :: int

definition AIO_QUEUE_DEPTH :: nat where "AIO_QUEUE_DEPTH = 64"

definition encode_userdata :: "int \<Rightarrow> u32 \<Rightarrow> u64" where
  "encode_userdata fd page_id = or (push_bit 32 (ucast (of_int fd :: u32))) (ucast page_id)"

definition decode_page_id :: "u64 \<Rightarrow> u32" where
  "decode_page_id d = ucast (and d 0xFFFFFFFF)"

definition aio_init ::
  "'r liburing \<Rightarrow> ('r, 'u) AIOContext option \<Rightarrow> (u32 \<Rightarrow> bool \<Rightarrow> 'u \<Rightarrow> 'u) option \<Rightarrow> 'u \<Rightarrow>
     AIOResult \<times> ('r, 'u) AIOContext option" where
  "aio_init L ctx cb u =
     (case ctx of
        None \<Rightarrow> (AIO_ERROR, None)
      | Some c \<Rightarrow>
          (let c = \<lparr>ring = memset_ring L (ring c), efd = 0, callback = cb, userdata = u, pending = 0\<rparr>;
               (ret, r) = io_uring_queue_init L AIO_QUEUE_DEPTH (ring c);
               c = c\<lparr>ring := r\<rparr>
           in if ret < 0 then (AIO_UNAVAILABLE, Some c)
           else
             let (fd, r) = make_eventfd L (ring c);
                 c = c\<lparr>ring := r, efd := fd\<rparr>
             in if efd c < 0 then (AIO_ERROR, Some (c\<lparr>ring := io_uring_queue_exit L (ring c)\<rparr>))
             else
               let (ret, r) = io_uring_register_eventfd L (efd c) (ring c);
                   c = c\<lparr>ring := r\<rparr>
               in if ret < 0
                  then (AIO_ERROR, Some (c\<lparr>ring := io_uring_queue_exit L (close_fd L (efd c) (ring c))\<rparr>))
                  else (AIO_OK, Some c)))"

definition aio_write_page ::
  "'r liburing \<Rightarrow> ('r, 'u) AIOContext option \<Rightarrow> int \<Rightarrow> bytes option \<Rightarrow> u32 \<Rightarrow>
     AIOResult \<times> ('r, 'u) AIOContext option" where
  "aio_write_page L ctx fd buf page_id =
     (case (ctx, buf) of
        (Some c, Some b) \<Rightarrow>
          if fd < 0 then (AIO_ERROR, ctx)
          else
            (case io_uring_get_sqe L (ring c) of
               (None, r) \<Rightarrow> (AIO_ERROR, Some (c\<lparr>ring := r\<rparr>))
             | (Some sqe, r) \<Rightarrow>
                 (let offset = ucast page_id * of_nat PAGE_SIZE;
                      r = io_uring_prep_write L sqe fd b (of_nat PAGE_SIZE) offset r;
                      r = io_uring_sqe_set_data64 L sqe (encode_userdata fd page_id) r;
                      (ret, r) = io_uring_submit L r;
                      c = c\<lparr>ring := r\<rparr>
                  in if ret < 0 then (AIO_ERROR, Some c)
                     else (AIO_OK, Some (c\<lparr>pending := pending c + 1\<rparr>))))
      | _ \<Rightarrow> (AIO_ERROR, ctx))"

text \<open>
  What both completion loops do with one entry: the callback, \<open>io_uring_cqe_seen\<close> and the
  counter.
\<close>

definition complete :: "'r liburing \<Rightarrow> Cqe \<Rightarrow> ('r, 'u) AIOContext \<Rightarrow> ('r, 'u) AIOContext" where
  "complete L cqe c =
     (let page_id = decode_page_id (cq_data cqe);
          success = (cq_res cqe = int PAGE_SIZE);
          u = (case callback c of None \<Rightarrow> userdata c | Some cb \<Rightarrow> cb page_id success (userdata c))
      in c\<lparr>userdata := u, ring := io_uring_cqe_seen L cqe (ring c), pending := pending c - 1\<rparr>)"

text \<open>The drain loop may go on as long as completions arrive.\<close>

partial_function (option) drain ::
  "'r liburing \<Rightarrow> ('r, 'u) AIOContext \<Rightarrow> nat \<Rightarrow> (nat \<times> ('r, 'u) AIOContext) option" where
  "drain L c processed =
     (case io_uring_peek_cqe L (ring c) of
        (ret, cqe, r) \<Rightarrow>
          if ret = 0 then drain L (complete L cqe (c\<lparr>ring := r\<rparr>)) (processed + 1)
          else Some (processed, c\<lparr>ring := r\<rparr>))"

definition aio_process_completions ::
  "'r liburing \<Rightarrow> ('r, 'u) AIOContext option \<Rightarrow> (nat \<times> ('r, 'u) AIOContext option) option" where
  "aio_process_completions L ctx =
     (case ctx of
        None \<Rightarrow> Some (0, None)
      | Some c \<Rightarrow> map_option (\<lambda>(n, c). (n, Some c)) (drain L (c\<lparr>ring := read_eventfd L (efd c) (ring c)\<rparr>) 0))"

definition aio_eventfd :: "('r, 'u) AIOContext option \<Rightarrow> int" where
  "aio_eventfd ctx = (case ctx of None \<Rightarrow> -1 | Some c \<Rightarrow> efd c)"

lemma pending_complete [simp]: "pending (complete L cqe c) = pending c - 1"
  by (simp add: complete_def Let_def)

function flush_loop :: "'r liburing \<Rightarrow> ('r, 'u) AIOContext \<Rightarrow> ('r, 'u) AIOContext" where
  "flush_loop L c =
     (if pending c > 0
      then case io_uring_wait_cqe L (ring c) of
             (ret, cqe, r) \<Rightarrow>
               if ret < 0 then c\<lparr>ring := r\<rparr> else flush_loop L (complete L cqe (c\<lparr>ring := r\<rparr>))
      else c)"
  by pat_completeness auto
termination
  by (relation "measure (\<lambda>(L, c). nat (pending c))") auto

definition aio_flush :: "'r liburing \<Rightarrow> ('r, 'u) AIOContext option \<Rightarrow> ('r, 'u) AIOContext option" where
  "aio_flush L ctx = map_option (flush_loop L) ctx"

definition aio_destroy :: "'r liburing \<Rightarrow> ('r, 'u) AIOContext option \<Rightarrow> ('r, 'u) AIOContext option" where
  "aio_destroy L ctx =
     (case ctx of
        None \<Rightarrow> None
      | Some c \<Rightarrow>
          (let c = (if pending c > 0 then flush_loop L c else c);
               r = (if efd c \<ge> 0 then close_fd L (efd c) (ring c) else ring c)
           in Some (c\<lparr>ring := io_uring_queue_exit L r, efd := -1, pending := 0\<rparr>)))"

declare flush_loop.simps [simp del]

end
