(* ===== verification/AioProps.thy ===== *)
theory AioProps imports Aio begin

text \<open>
  What liburing documents of the calls, over two observations of a ring: the entries that were
  taken from the submission queue and not submitted (\<open>staged\<close>), and the submitted writes whose
  completion was not marked as seen (\<open>inflight\<close>). The properties of the writer under it, and a
  small ring on which they are applied.
\<close>

lemma decode_encode [simp]: "decode_page_id (encode_userdata fd page_id) = page_id"
proof -
  have m: "(0xFFFFFFFF :: u64) = mask 32" by (simp add: mask_eq_exp_minus_1)
  show ?thesis
    unfolding decode_page_id_def encode_userdata_def m by (rule bit_word_eqI) (auto simp: bit_simps)
qed

definition quiet_call :: "('r \<Rightarrow> Sqe list) \<Rightarrow> ('r \<Rightarrow> Sqe multiset) \<Rightarrow> 'r \<Rightarrow> 'r \<Rightarrow> bool" where
  "quiet_call staged inflight r r' \<longleftrightarrow> staged r' = staged r \<and> inflight r' = inflight r"

text \<open>A completion entry belongs to a write in flight, which ends when the entry is seen.\<close>

definition cqe_ok ::
  "'r liburing \<Rightarrow> ('r \<Rightarrow> Sqe list) \<Rightarrow> ('r \<Rightarrow> Sqe multiset) \<Rightarrow> 'r \<Rightarrow> Cqe \<Rightarrow> 'r \<Rightarrow> bool" where
  "cqe_ok L staged inflight r cqe r' \<longleftrightarrow>
     quiet_call staged inflight r r' \<and>
     (\<exists>s. s \<in># inflight r \<and> sq_data s = cq_data cqe \<and>
        inflight (io_uring_cqe_seen L cqe r') = inflight r - {#s#} \<and>
        staged (io_uring_cqe_seen L cqe r') = staged r)"

definition entry_ok :: "'r liburing \<Rightarrow> ('r \<Rightarrow> Sqe list) \<Rightarrow> ('r \<Rightarrow> Sqe multiset) \<Rightarrow> 'r \<Rightarrow> bool" where
  "entry_ok L staged inflight r \<longleftrightarrow>
     (case io_uring_get_sqe L r of
        (None, r') \<Rightarrow> quiet_call staged inflight r r'
      | (Some i, r') \<Rightarrow>
          \<forall>fd b len off d.
            (let r'' = io_uring_sqe_set_data64 L i d (io_uring_prep_write L i fd b len off r')
             in staged r'' = staged r @ [\<lparr>sq_fd = fd, sq_buf = b, sq_len = len, sq_off = off, sq_data = d\<rparr>] \<and>
                inflight r'' = inflight r))"

definition submit_ok :: "'r liburing \<Rightarrow> ('r \<Rightarrow> Sqe list) \<Rightarrow> ('r \<Rightarrow> Sqe multiset) \<Rightarrow> 'r \<Rightarrow> bool" where
  "submit_ok L staged inflight r \<longleftrightarrow>
     (case io_uring_submit L r of
        (ret, r') \<Rightarrow>
          if ret < 0 then quiet_call staged inflight r r'
          else staged r' = [] \<and> inflight r' = inflight r + mset (staged r))"

definition uring_ok :: "'r liburing \<Rightarrow> ('r \<Rightarrow> Sqe list) \<Rightarrow> ('r \<Rightarrow> Sqe multiset) \<Rightarrow> bool" where
  "uring_ok L staged inflight \<longleftrightarrow>
     (\<forall>r. entry_ok L staged inflight r \<and> submit_ok L staged inflight r \<and>
        (\<forall>fd. quiet_call staged inflight r (read_eventfd L fd r)) \<and>
        (case io_uring_peek_cqe L r of
           (ret, cqe, r') \<Rightarrow>
             if ret = 0 then cqe_ok L staged inflight r cqe r' else quiet_call staged inflight r r') \<and>
        (case io_uring_wait_cqe L r of
           (ret, cqe, r') \<Rightarrow>
             if ret \<ge> 0 then cqe_ok L staged inflight r cqe r' else quiet_call staged inflight r r'))"

text \<open>The invariant of a context: nothing is staged, and \<open>pending\<close> counts the writes in flight.\<close>

definition aio_ok :: "('r \<Rightarrow> Sqe list) \<Rightarrow> ('r \<Rightarrow> Sqe multiset) \<Rightarrow> ('r, 'u) AIOContext \<Rightarrow> bool" where
  "aio_ok staged inflight c \<longleftrightarrow> staged (ring c) = [] \<and> pending c = int (size (inflight (ring c)))"

text \<open>The notification of finished writes, each with its result, in order.\<close>

definition notify :: "(u32 \<Rightarrow> bool \<Rightarrow> 'u \<Rightarrow> 'u) option \<Rightarrow> (Sqe \<times> int) list \<Rightarrow> 'u \<Rightarrow> 'u" where
  "notify cb done u =
     (case cb of
        None \<Rightarrow> u
      | Some f \<Rightarrow> fold (\<lambda>(s, res). f (decode_page_id (sq_data s)) (res = int PAGE_SIZE)) done u)"

lemma notify_nil [simp]: "notify cb [] u = u"
  by (simp add: notify_def split: option.splits)

lemma notify_append: "notify cb (ds @ ds') u = notify cb ds' (notify cb ds u)"
  by (simp add: notify_def split: option.splits)

text \<open>The writes that went from one context to another, which is all that changed.\<close>

definition finished ::
  "('r \<Rightarrow> Sqe list) \<Rightarrow> ('r \<Rightarrow> Sqe multiset) \<Rightarrow> ('r, 'u) AIOContext \<Rightarrow> (Sqe \<times> int) list \<Rightarrow>
     ('r, 'u) AIOContext \<Rightarrow> bool" where
  "finished staged inflight c ds c' \<longleftrightarrow>
     inflight (ring c) = mset (map fst ds) + inflight (ring c') \<and> staged (ring c') = staged (ring c) \<and>
     userdata c' = notify (callback c) ds (userdata c) \<and> pending c' = pending c - int (length ds) \<and>
     callback c' = callback c \<and> efd c' = efd c"

lemma finished_refl: "quiet_call staged inflight (ring c) r \<Longrightarrow> finished staged inflight c [] (c\<lparr>ring := r\<rparr>)"
  by (simp add: finished_def quiet_call_def)

lemma finished_trans:
  "finished staged inflight c ds c' \<Longrightarrow> finished staged inflight c' ds' c'' \<Longrightarrow>
     finished staged inflight c (ds @ ds') c''"
  by (simp add: finished_def notify_append)

lemma finished_ok: "finished staged inflight c ds c' \<Longrightarrow> aio_ok staged inflight c \<Longrightarrow> aio_ok staged inflight c'"
  by (simp add: finished_def aio_ok_def)

lemma complete_finished:
  assumes "cqe_ok L staged inflight (ring c) cqe r"
  shows "\<exists>s. finished staged inflight c [(s, cq_res cqe)] (complete L cqe (c\<lparr>ring := r\<rparr>))"
proof -
  obtain s where s: "s \<in># inflight (ring c)" "sq_data s = cq_data cqe"
      "inflight (io_uring_cqe_seen L cqe r) = inflight (ring c) - {#s#}"
      "staged (io_uring_cqe_seen L cqe r) = staged (ring c)"
    using assms by (auto simp: cqe_ok_def)
  then have "finished staged inflight c [(s, cq_res cqe)] (complete L cqe (c\<lparr>ring := r\<rparr>))"
    by (simp add: finished_def complete_def notify_def split: option.splits)
  then show ?thesis by blast
qed

lemma finished_less:
  "finished staged inflight c [d] c' \<Longrightarrow> size (inflight (ring c')) < size (inflight (ring c))"
  by (simp add: finished_def)

text \<open>The drain loop returns, after one notification for each write it counts.\<close>

lemma drain_run:
  assumes "uring_ok L staged inflight"
  shows "\<exists>ds c'. drain L c n = Some (n + length ds, c') \<and> finished staged inflight c ds c'"
proof (induction "size (inflight (ring c))" arbitrary: c n rule: less_induct)
  case less
  obtain ret cqe r where p: "io_uring_peek_cqe L (ring c) = (ret, cqe, r)" by (cases "io_uring_peek_cqe L (ring c)") auto
  have law: "if ret = 0 then cqe_ok L staged inflight (ring c) cqe r else quiet_call staged inflight (ring c) r"
    using assms p by (auto simp: uring_ok_def dest: spec [of _ "ring c"])
  show ?case
  proof (cases "ret = 0")
    case False
    then show ?thesis using law p finished_refl [of staged inflight c r] by (subst drain.simps) auto
  next
    case True
    then obtain s where s: "finished staged inflight c [(s, cq_res cqe)] (complete L cqe (c\<lparr>ring := r\<rparr>))"
      using law complete_finished by fastforce
    obtain ds c' where d: "drain L (complete L cqe (c\<lparr>ring := r\<rparr>)) (n + 1) = Some (n + 1 + length ds, c')"
        "finished staged inflight (complete L cqe (c\<lparr>ring := r\<rparr>)) ds c'"
      using less [OF finished_less [OF s]] by blast
    have "drain L c n = Some (n + length ([(s, cq_res cqe)] @ ds), c')"
      using True p d(1) by (subst drain.simps) simp
    then show ?thesis using finished_trans [OF s d(2)] by blast
  qed
qed

lemma flush_run:
  assumes "uring_ok L staged inflight" and "\<And>r. inflight r \<noteq> {#} \<Longrightarrow> fst (io_uring_wait_cqe L r) \<ge> 0"
    and "pending c \<ge> 0" "pending c \<le> int (size (inflight (ring c)))"
  shows "\<exists>ds c'. flush_loop L c = c' \<and> finished staged inflight c ds c' \<and> pending c' = 0"
  using assms(3,4)
proof (induction "nat (pending c)" arbitrary: c)
  case 0
  then have "pending c = 0" by simp
  then show ?case using finished_refl [of staged inflight c "ring c"]
    by (auto simp: flush_loop.simps quiet_call_def intro: exI [of _ "[]"])
next
  case (Suc n)
  obtain ret cqe r where p: "io_uring_wait_cqe L (ring c) = (ret, cqe, r)" by (cases "io_uring_wait_cqe L (ring c)") auto
  have ne: "inflight (ring c) \<noteq> {#}" using Suc.hyps(2) Suc.prems by auto
  have ret: "ret \<ge> 0" using assms(2) [OF ne] p by simp
  have "if ret \<ge> 0 then cqe_ok L staged inflight (ring c) cqe r else quiet_call staged inflight (ring c) r"
    using assms(1) p by (auto simp: uring_ok_def dest: spec [of _ "ring c"])
  then obtain s where s: "finished staged inflight c [(s, cq_res cqe)] (complete L cqe (c\<lparr>ring := r\<rparr>))" (is "finished _ _ _ _ ?c")
    using ret complete_finished by fastforce
  have "nat (pending ?c) = n" "pending ?c \<ge> 0" "pending ?c \<le> int (size (inflight (ring ?c)))"
    using Suc.hyps(2) Suc.prems s by (auto simp: finished_def)
  then obtain ds c' where "flush_loop L ?c = c'" "finished staged inflight ?c ds c'" "pending c' = 0"
    using Suc.hyps(1) by blast
  moreover have "flush_loop L c = flush_loop L ?c"
    using p ret Suc.hyps(2) by (subst flush_loop.simps) simp
  ultimately show ?case using finished_trans [OF s] by metis
qed


text \<open>Both outcomes of a write, on a ring where \<open>k\<close> entries are left over.\<close>

definition page_write :: "int \<Rightarrow> bytes \<Rightarrow> u32 \<Rightarrow> Sqe" where
  "page_write fd b page_id =
     \<lparr>sq_fd = fd, sq_buf = b, sq_len = 4096, sq_off = ucast page_id * 4096, sq_data = encode_userdata fd page_id\<rparr>"

lemma write_page_run:
  assumes "uring_ok L staged inflight" and "fd \<ge> 0"
  shows "\<exists>r. (aio_write_page L (Some c) fd (Some b) page_id = (AIO_OK, Some (c\<lparr>ring := r, pending := pending c + 1\<rparr>)) \<and>
                staged r = [] \<and>
                inflight r = inflight (ring c) + mset (staged (ring c)) + {#page_write fd b page_id#}) \<or>
             (aio_write_page L (Some c) fd (Some b) page_id = (AIO_ERROR, Some (c\<lparr>ring := r\<rparr>)) \<and>
                staged r \<in> {staged (ring c), staged (ring c) @ [page_write fd b page_id]} \<and>
                inflight r = inflight (ring c))"
proof -
  obtain i r where g: "io_uring_get_sqe L (ring c) = (i, r)" by fastforce
  have e: "entry_ok L staged inflight (ring c)" using assms(1) by (simp add: uring_ok_def)
  show ?thesis
  proof (cases i)
    case None
    then show ?thesis using e g assms(2)
      by (intro exI [of _ r]) (simp add: aio_write_page_def entry_ok_def quiet_call_def)
  next
    case (Some k)
    let ?r = "io_uring_sqe_set_data64 L k (encode_userdata fd page_id)
                (io_uring_prep_write L k fd b 4096 (ucast page_id * 4096) r)"
    obtain ret r' where s: "io_uring_submit L ?r = (ret, r')" by fastforce
    have r: "staged ?r = staged (ring c) @ [page_write fd b page_id]" "inflight ?r = inflight (ring c)"
      using e g Some by (simp_all add: entry_ok_def page_write_def Let_def)
    have "submit_ok L staged inflight ?r" using assms(1) by (simp add: uring_ok_def)
    then show ?thesis using r s g Some assms(2)
      by (intro exI [of _ r'])
        (auto simp: aio_write_page_def submit_ok_def quiet_call_def PAGE_SIZE_def Let_def split: if_splits)
  qed
qed

text \<open>A ring without a kernel, which submits, completes and fails as its lists say.\<close>

record sample =
  sp_staged :: "Sqe list"
  sp_inflight :: "Sqe list"
  sp_submits :: "bool list"

definition blank_sqe :: Sqe where
  "blank_sqe = \<lparr>sq_fd = 0, sq_buf = [], sq_len = 0, sq_off = 0, sq_data = 0\<rparr>"

definition sample_cqe :: "sample \<Rightarrow> int \<times> Cqe \<times> sample" where
  "sample_cqe r =
     (case sp_inflight r of
        [] \<Rightarrow> (-11, \<lparr>cq_data = 0, cq_res = 0\<rparr>, r)
      | s # ss \<Rightarrow> (0, \<lparr>cq_data = sq_data s, cq_res = int (length (sq_buf s))\<rparr>, r))"

definition sample_submit :: "sample \<Rightarrow> int \<times> sample" where
  "sample_submit r =
     (if sp_submits r \<noteq> [] \<and> \<not> hd (sp_submits r) then (-11, r\<lparr>sp_submits := tl (sp_submits r)\<rparr>)
      else (int (length (sp_staged r)),
        r\<lparr>sp_staged := [], sp_inflight := sp_inflight r @ sp_staged r, sp_submits := tl (sp_submits r)\<rparr>))"

definition sample_uring :: "sample liburing" where
  "sample_uring = \<lparr>
     memset_ring = (\<lambda>r. r), io_uring_queue_init = (\<lambda>n r. (0, r)), io_uring_queue_exit = (\<lambda>r. r),
     io_uring_register_eventfd = (\<lambda>fd r. (0, r)),
     io_uring_get_sqe = (\<lambda>r. if length (sp_staged r) < 64
       then (Some (length (sp_staged r)), r\<lparr>sp_staged := sp_staged r @ [blank_sqe]\<rparr>) else (None, r)),
     io_uring_prep_write = (\<lambda>i fd b len off r. r\<lparr>sp_staged := (sp_staged r)[i :=
       \<lparr>sq_fd = fd, sq_buf = b, sq_len = len, sq_off = off, sq_data = 0\<rparr>]\<rparr>),
     io_uring_sqe_set_data64 = (\<lambda>i d r. r\<lparr>sp_staged := (sp_staged r)[i := (sp_staged r ! i)\<lparr>sq_data := d\<rparr>]\<rparr>),
     io_uring_submit = sample_submit, io_uring_peek_cqe = sample_cqe, io_uring_wait_cqe = sample_cqe,
     io_uring_cqe_seen = (\<lambda>c r. r\<lparr>sp_inflight := tl (sp_inflight r)\<rparr>),
     make_eventfd = (\<lambda>r. (3, r)), read_eventfd = (\<lambda>fd r. r), close_fd = (\<lambda>fd r. r)\<rparr>"

abbreviation sample_flight :: "sample \<Rightarrow> Sqe multiset" where
  "sample_flight r \<equiv> mset (sp_inflight r)"

lemma sample_cqe_ok:
  "case sample_cqe r of (ret, cqe, r') \<Rightarrow>
     r' = r \<and> (if ret \<ge> 0 then ret = 0 \<and> cqe_ok sample_uring sp_staged sample_flight r cqe r else ret \<noteq> 0)"
  by (auto simp: sample_cqe_def cqe_ok_def quiet_call_def sample_uring_def split: list.split)

lemma sample_uring_ok: "uring_ok sample_uring sp_staged sample_flight"
proof -
  have "entry_ok sample_uring sp_staged sample_flight r" for r
    by (auto simp: entry_ok_def quiet_call_def sample_uring_def list_update_append)
  moreover have "submit_ok sample_uring sp_staged sample_flight r" for r
    by (auto simp: submit_ok_def quiet_call_def sample_uring_def sample_submit_def)
  moreover have "io_uring_peek_cqe sample_uring = sample_cqe" "io_uring_wait_cqe sample_uring = sample_cqe"
      "read_eventfd sample_uring fd r = r" for fd r
    by (simp_all add: sample_uring_def)
  moreover have "case sample_cqe r of (ret, cqe, r') \<Rightarrow>
      if ret = 0 then cqe_ok sample_uring sp_staged sample_flight r cqe r' else quiet_call sp_staged sample_flight r r'"
    "case sample_cqe r of (ret, cqe, r') \<Rightarrow>
      if ret \<ge> 0 then cqe_ok sample_uring sp_staged sample_flight r cqe r' else quiet_call sp_staged sample_flight r r'" for r
    using sample_cqe_ok [of r] by (auto simp: quiet_call_def split: if_splits)
  ultimately show ?thesis by (simp add: uring_ok_def quiet_call_def)
qed

lemma sample_waits: "sample_flight r \<noteq> {#} \<Longrightarrow> fst (io_uring_wait_cqe sample_uring r) \<ge> 0"
  by (auto simp: sample_uring_def sample_cqe_def split: list.splits)

definition sample_ctx :: "bool list \<Rightarrow> (sample, (u32 \<times> bool) list) AIOContext" where
  "sample_ctx submits =
     \<lparr>ring = \<lparr>sp_staged = [], sp_inflight = [], sp_submits = submits\<rparr>, efd = 3,
      callback = Some (\<lambda>p ok ps. ps @ [(p, ok)]), userdata = [], pending = 0\<rparr>"

end
