(* ===== verification/AioWitness.thy ===== *)
theory AioWitness imports AioProps begin

text \<open>The properties of the page writer, each applied to a sample ring.\<close>

text \<open>
  C40: \<open>aio_write_page\<close> keeps \<open>pending\<close> equal to the number of writes in flight as long as no
  submission fails. A write that is accepted is in flight with the 4096 bytes of the page at
  the offset of the page, and its user data decodes to the page id; a write that is refused
  because the queue is full leaves everything as it was.
\<close>

theorem aio_write_page_correct:
  assumes "uring_ok L staged inflight" and "aio_ok staged inflight c" and "fd \<ge> 0"
  shows "case aio_write_page L (Some c) fd (Some b) page_id of
           (AIO_OK, Some c') \<Rightarrow>
             aio_ok staged inflight c' \<and> decode_page_id (encode_userdata fd page_id) = page_id \<and>
             inflight (ring c') = inflight (ring c) +
               {#\<lparr>sq_fd = fd, sq_buf = b, sq_len = 4096, sq_off = ucast page_id * 4096,
                  sq_data = encode_userdata fd page_id\<rparr>#}
         | (AIO_ERROR, Some c') \<Rightarrow>
             inflight (ring c') = inflight (ring c) \<and> pending c' = pending c \<and>
             (staged (ring c') = [] \<longleftrightarrow> aio_ok staged inflight c')
         | _ \<Rightarrow> False"
  using write_page_run [OF assms(1,3), of c b page_id] assms(2)
  by (auto simp: aio_ok_def page_write_def)

theorem aio_write_page_correct_witness:
  "case aio_write_page sample_uring (Some (sample_ctx [])) 5 (Some (replicate 4096 7)) 9 of
     (AIO_OK, Some c') \<Rightarrow>
       aio_ok sp_staged sample_flight c' \<and> decode_page_id (encode_userdata 5 9) = 9 \<and>
       sample_flight (ring c') = sample_flight (ring (sample_ctx [])) +
         {#\<lparr>sq_fd = 5, sq_buf = replicate 4096 7, sq_len = 4096, sq_off = ucast (9 :: u32) * 4096,
            sq_data = encode_userdata 5 9\<rparr>#}
   | (AIO_ERROR, Some c') \<Rightarrow>
       sample_flight (ring c') = sample_flight (ring (sample_ctx [])) \<and> pending c' = pending (sample_ctx []) \<and>
       (sp_staged (ring c') = [] \<longleftrightarrow> aio_ok sp_staged sample_flight c')
   | _ \<Rightarrow> False"
  by (rule aio_write_page_correct [OF sample_uring_ok]) (simp_all add: sample_ctx_def aio_ok_def)

text \<open>
  \<open>aio_process_completions\<close> returns, whatever has completed: it notifies the caller once
  for each write that it takes out of flight, with the page id and the success of that write,
  in order, counts them, and keeps \<open>pending\<close> right.
\<close>

theorem aio_process_completions_correct:
  assumes "uring_ok L staged inflight" and "aio_ok staged inflight c"
  shows "\<exists>ds c'. aio_process_completions L (Some c) = Some (length ds, Some c') \<and> aio_ok staged inflight c' \<and>
           inflight (ring c) = mset (map fst ds) + inflight (ring c') \<and>
           userdata c' = notify (callback c) ds (userdata c)"
proof -
  let ?c = "c\<lparr>ring := read_eventfd L (efd c) (ring c)\<rparr>"
  have q: "quiet_call staged inflight (ring c) (ring ?c)" using assms(1) by (simp add: uring_ok_def)
  obtain ds c' where d: "drain L ?c 0 = Some (0 + length ds, c')" "finished staged inflight ?c ds c'"
    using drain_run [OF assms(1), of ?c 0] by blast
  have "finished staged inflight c ([] @ ds) c'"
    using finished_trans [OF finished_refl [OF q]] d(2) by simp
  then show ?thesis using d(1) finished_ok [OF _ assms(2)]
    by (intro exI [of _ ds] exI [of _ c']) (auto simp: aio_process_completions_def finished_def)
qed

definition two_writes :: "(sample, (u32 \<times> bool) list) AIOContext" where
  "two_writes = (sample_ctx [])\<lparr>pending := 2, ring := \<lparr>sp_staged = [],
     sp_inflight = [page_write 5 (replicate 4096 7) 9, page_write 5 [] 4], sp_submits = []\<rparr>\<rparr>"

lemma two_writes_ok: "aio_ok sp_staged sample_flight two_writes"
  by (simp add: two_writes_def aio_ok_def)

theorem aio_process_completions_correct_witness:
  "\<exists>ds c'. aio_process_completions sample_uring (Some two_writes) = Some (length ds, Some c') \<and>
     aio_ok sp_staged sample_flight c' \<and>
     sample_flight (ring two_writes) = mset (map fst ds) + sample_flight (ring c') \<and>
     userdata c' = notify (callback two_writes) ds (userdata two_writes)"
  by (rule aio_process_completions_correct [OF sample_uring_ok two_writes_ok])

text \<open>
  C16: \<open>aio_flush\<close> returns when no wait for a completion fails while a write is in flight. Then no
  write is in flight any more, \<open>pending\<close> is zero, and the caller was notified of each write
  that was in flight exactly once.
\<close>

theorem aio_flush_correct:
  assumes "uring_ok L staged inflight" and "aio_ok staged inflight c"
    and "\<And>r. inflight r \<noteq> {#} \<Longrightarrow> fst (io_uring_wait_cqe L r) \<ge> 0"
  shows "\<exists>ds c'. aio_flush L (Some c) = Some c' \<and> inflight (ring c') = {#} \<and> pending c' = 0 \<and>
           mset (map fst ds) = inflight (ring c) \<and> userdata c' = notify (callback c) ds (userdata c)"
proof -
  have "pending c \<ge> 0" "pending c \<le> int (size (inflight (ring c)))" using assms(2) by (simp_all add: aio_ok_def)
  then obtain ds c' where d: "flush_loop L c = c'" "finished staged inflight c ds c'" "pending c' = 0"
    using flush_run [OF assms(1,3)] by blast
  have "inflight (ring c') = {#}" using finished_ok [OF d(2) assms(2)] d(3) by (simp add: aio_ok_def)
  then show ?thesis using d
    by (intro exI [of _ ds] exI [of _ c']) (simp add: aio_flush_def finished_def)
qed

theorem aio_flush_correct_witness:
  "\<exists>ds c'. aio_flush sample_uring (Some two_writes) = Some c' \<and> sample_flight (ring c') = {#} \<and> pending c' = 0 \<and>
     mset (map fst ds) = sample_flight (ring two_writes) \<and>
     userdata c' = notify (callback two_writes) ds (userdata two_writes)"
  by (rule aio_flush_correct [OF sample_uring_ok two_writes_ok sample_waits])

text \<open>
  C25: a submission that fails leaves its entry in the submission queue. The caller is told
  \<open>AIO_ERROR\<close>, but the next accepted write submits both and counts one, so that the page of the
  failed call is written all the same and \<open>aio_flush\<close> returns while one of the two writes is still
  in flight: its buffer may be released under it, and nobody hears of its end.
\<close>

theorem aio_failed_submit_lost:
  assumes "uring_ok L staged inflight" and "aio_ok staged inflight c"
    and "\<And>r. inflight r \<noteq> {#} \<Longrightarrow> fst (io_uring_wait_cqe L r) \<ge> 0"
    and "fd \<ge> 0" and "fd' \<ge> 0"
    and "aio_write_page L (Some c) fd (Some b) page_id = (AIO_ERROR, Some c1)" and "staged (ring c1) \<noteq> []"
    and "aio_write_page L (Some c1) fd' (Some b') page_id' = (AIO_OK, Some c2)"
  shows "\<exists>c3 s. aio_flush L (Some c2) = Some c3 \<and> pending c3 = 0 \<and> inflight (ring c3) = {#s#} \<and>
           inflight (ring c2) = inflight (ring c) + {#page_write fd b page_id, page_write fd' b' page_id'#}"
proof -
  have c1: "staged (ring c1) = [page_write fd b page_id]" "inflight (ring c1) = inflight (ring c)" "pending c1 = pending c"
    using write_page_run [OF assms(1,4), of c b page_id] assms(2,6,7) by (auto simp: aio_ok_def)
  have c2: "inflight (ring c2) = inflight (ring c) + {#page_write fd b page_id, page_write fd' b' page_id'#}"
      "pending c2 = int (size (inflight (ring c2))) - 1"
    using write_page_run [OF assms(1,5), of c1 b' page_id'] assms(2,8) c1 by (auto simp: aio_ok_def)
  then have "pending c2 \<ge> 0" "pending c2 \<le> int (size (inflight (ring c2)))" by simp_all
  then obtain ds c3 where d: "flush_loop L c2 = c3" "finished staged inflight c2 ds c3" "pending c3 = 0"
    using flush_run [OF assms(1,3)] by blast
  have "inflight (ring c2) = mset (map fst ds) + inflight (ring c3)" "pending c2 = int (length ds)"
    using d(2,3) by (auto simp: finished_def)
  then have "size (inflight (ring c3)) = 1" using c2(2) by simp
  then obtain s where "inflight (ring c3) = {#s#}" by (metis size_1_singleton_mset)
  then show ?thesis using d c2(1) by (auto simp: aio_flush_def)
qed

definition failed_write :: "(sample, (u32 \<times> bool) list) AIOContext" where
  "failed_write = the (snd (aio_write_page sample_uring (Some (sample_ctx [False])) 5 (Some [1]) 9))"

definition next_write :: "(sample, (u32 \<times> bool) list) AIOContext" where
  "next_write = the (snd (aio_write_page sample_uring (Some failed_write) 5 (Some [2]) 4))"

lemmas sample_run =
  failed_write_def next_write_def sample_uring_def sample_ctx_def sample_submit_def aio_write_page_def Let_def

theorem aio_failed_submit_lost_witness:
  "\<exists>c3 s. aio_flush sample_uring (Some next_write) = Some c3 \<and> pending c3 = 0 \<and> sample_flight (ring c3) = {#s#} \<and>
     sample_flight (ring next_write) = sample_flight (ring (sample_ctx [False])) + {#page_write 5 [1] 9, page_write 5 [2] 4#}"
proof (rule aio_failed_submit_lost [OF sample_uring_ok _ sample_waits, of _ 5 5 _ _ failed_write])
  show "aio_ok sp_staged sample_flight (sample_ctx [False])" by (simp add: sample_ctx_def aio_ok_def)
  show "aio_write_page sample_uring (Some (sample_ctx [False])) 5 (Some [1]) 9 = (AIO_ERROR, Some failed_write)"
    "sp_staged (ring failed_write) \<noteq> []"
    "aio_write_page sample_uring (Some failed_write) 5 (Some [2]) 4 = (AIO_OK, Some next_write)"
    by (simp_all add: sample_run)
qed simp_all

text \<open>
  When \<open>io_uring_queue_init\<close> fails, \<open>aio_init\<close> leaves the descriptor at the zero that \<open>memset\<close>
  wrote: \<open>aio_eventfd\<close> then answers 0, which is the standard input, and \<open>aio_destroy\<close> closes it.
\<close>

lemma aio_unavailable_closes_stdin:
  assumes "io_uring_queue_init L AIO_QUEUE_DEPTH (memset_ring L (ring c)) = (ret, r)" and "ret < 0"
  shows "\<exists>c'. aio_init L (Some c) cb u = (AIO_UNAVAILABLE, Some c') \<and> aio_eventfd (Some c') = 0 \<and>
           map_option ring (aio_destroy L (Some c')) = Some (io_uring_queue_exit L (close_fd L 0 r))"
  using assms by (simp add: aio_init_def aio_eventfd_def aio_destroy_def)

end
