(* ===== verification/Monitor.thy ===== *)
theory Monitor imports Prelude begin

text \<open>
  The background thread of monitor/monitor.c. What it reads from \<open>g_stop\<close>, once at the head of
  each iteration, is a list; the list ends when the process does. Between two reads it sleeps
  for one second. The result is the uptime of every message, in order. \<open>main\<close> never calls
  \<open>monitor_start\<close>.
\<close>

definition MONITOR_INTERVAL_SEC :: nat where "MONITOR_INTERVAL_SEC = 10"

fun monitor_loop :: "bool list \<Rightarrow> u64 \<Rightarrow> nat \<Rightarrow> u64 list" where
  "monitor_loop [] uptime ticks = []"
| "monitor_loop (stop # reads) uptime ticks =
     (if stop then []
      else
        let uptime = uptime + 1; ticks = ticks + 1
        in if ticks \<ge> MONITOR_INTERVAL_SEC then uptime # monitor_loop reads uptime 0
           else monitor_loop reads uptime ticks)"

definition monitor_thread :: "bool list \<Rightarrow> u64 list" where
  "monitor_thread reads = monitor_loop reads 0 0"

text \<open>\<open>g_stop\<close> is set by \<open>monitor_stop\<close> and never cleared.\<close>

definition monitor_stop :: "bool \<Rightarrow> bool" where "monitor_stop g_stop = True"

text \<open>\<open>monitor_start\<close>: whether a thread runs afterwards, when \<open>pthread_create\<close> returns \<open>ret\<close>.\<close>

definition monitor_start :: "int \<Rightarrow> bool" where "monitor_start ret \<longleftrightarrow> \<not> ret \<noteq> 0"

lemma monitor_loop_run:
  "ticks < 10 \<Longrightarrow> n = length (takeWhile Not reads) \<Longrightarrow> ticks + n < 10 \<Longrightarrow> monitor_loop reads uptime ticks = []"
  by (induction reads uptime ticks arbitrary: n rule: monitor_loop.induct)
    (auto simp: MONITOR_INTERVAL_SEC_def Let_def split: if_splits)

lemma monitor_loop_interval:
  "k + ticks = 10 \<Longrightarrow> k > 0 \<Longrightarrow> k \<le> length (takeWhile Not reads) \<Longrightarrow>
     monitor_loop reads uptime ticks = (uptime + of_nat k) # monitor_loop (drop k reads) (uptime + of_nat k) 0"
proof (induction k arbitrary: reads uptime ticks)
  case (Suc k)
  then obtain rs where r: "reads = False # rs" "k \<le> length (takeWhile Not rs)"
    by (cases reads) (auto split: if_splits)
  show ?case
  proof (cases "k = 0")
    case True
    then show ?thesis using Suc.prems r by (simp add: MONITOR_INTERVAL_SEC_def Let_def)
  next
    case False
    then show ?thesis using Suc.IH [of "Suc ticks" rs "uptime + 1"] Suc.prems r
      by (simp add: MONITOR_INTERVAL_SEC_def Let_def add.assoc)
  qed
qed simp

lemma takeWhile_drop:
  "n \<le> length (takeWhile P xs) \<Longrightarrow> takeWhile P (drop n xs) = drop n (takeWhile P xs)"
proof (induction xs arbitrary: n)
  case (Cons x xs)
  then show ?case by (cases n) (auto split: if_splits)
qed simp

lemma monitor_loop_messages:
  "monitor_loop reads (of_nat (10 * m)) 0 =
     map (\<lambda>k. of_nat (10 * Suc k)) [m..<m + length (takeWhile Not reads) div 10]"
proof (induction "length (takeWhile Not reads)" arbitrary: reads m rule: less_induct)
  case less
  let ?n = "length (takeWhile Not reads)"
  show ?case
  proof (cases "?n < 10")
    case True
    then show ?thesis by (simp add: monitor_loop_run)
  next
    case False
    have d: "length (takeWhile Not (drop 10 reads)) = ?n - 10" using False by (simp add: takeWhile_drop)
    have u: "of_nat (10 * m) + (10 :: u64) = of_nat (10 * Suc m)" by simp
    have "monitor_loop reads (of_nat (10 * m)) 0 =
        of_nat (10 * Suc m) # monitor_loop (drop 10 reads) (of_nat (10 * Suc m)) 0"
      using monitor_loop_interval [of 10 0 reads "of_nat (10 * m)"] False u by (simp add: add.commute)
    also have "\<dots> = of_nat (10 * Suc m) # map (\<lambda>k. of_nat (10 * Suc k)) [Suc m..<Suc m + (?n - 10) div 10]"
      using less [of "drop 10 reads" "Suc m"] d False by simp
    also have "\<dots> = map (\<lambda>k. of_nat (10 * Suc k)) [m..<m + ?n div 10]"
    proof -
      have "?n div 10 = Suc ((?n - 10) div 10)" using False by (simp add: le_div_geq)
      then show ?thesis by (simp add: upt_conv_Cons)
    qed
    finally show ?thesis .
  qed
qed

text \<open>
  As long as \<open>g_stop\<close> is not seen set, the monitor prints a message every ten seconds, with
  the seconds that have passed; the first read that finds it set ends the thread.
\<close>

theorem monitor_messages:
  "monitor_thread reads = map (\<lambda>k. of_nat (10 * Suc k)) [0..<length (takeWhile Not reads) div 10]"
  using monitor_loop_messages [of reads 0] by (simp add: monitor_thread_def)

end
